(* ===== verification/Prelude.thy ===== *)
theory Prelude
  imports Main "HOL-Library.Word"
begin

text \<open>
  What every theory of the development shares: the names of the machine types, the conversion
  between Go strings (immutable byte sequences, modelled as \<open>string\<close>, whose characters are
  bytes) and byte slices (\<open>byte list\<close>), positional numerals in a base (the decimal and
  hexadecimal renderings of \<open>strconv\<close>, \<open>fmt\<close> and \<open>encoding/hex\<close>), the string
  functions of Go's \<open>strings\<close> package that the program uses, and the collections of facts
  that the later theories fill.
\<close>

unbundle bit_operations_syntax

named_theorems codec \<open>round trips of encoders and decoders\<close>
named_theorems sizes \<open>lengths of encoded values\<close>

type_synonym byte = "8 word"
type_synonym u32 = "32 word"
type_synonym i32 = "32 word"

section \<open>Bytes and characters\<close>

definition char_byte :: "char \<Rightarrow> byte" where
  "char_byte c = word_of_nat (of_char c)"

definition byte_char :: "byte \<Rightarrow> char" where
  "byte_char b = char_of (unat b)"

definition str_bytes :: "string \<Rightarrow> byte list" where
  "str_bytes s = map char_byte s"

definition bytes_str :: "byte list \<Rightarrow> string" where
  "bytes_str bs = map byte_char bs"

lemma unat_char_byte [simp]: "unat (char_byte c) = of_char c"
proof -
  have "of_char c < (256::nat)" by simp
  then show ?thesis by (simp add: char_byte_def unat_of_nat)
qed

lemma byte_char_byte [simp]: "byte_char (char_byte c) = c"
  by (simp add: byte_char_def)

lemma unat_byte_less [simp]: "unat (b :: byte) < 256"
  using unsigned_less [of b] by simp

lemma char_byte_char [simp]: "char_byte (byte_char b) = b"
  by (rule word_unat_eq_iff [THEN iffD2]) (simp add: byte_char_def)

lemma bytes_str_bytes [simp, codec]: "bytes_str (str_bytes s) = s"
  by (simp add: bytes_str_def str_bytes_def comp_def)

lemma str_bytes_str [simp, codec]: "str_bytes (bytes_str bs) = bs"
  by (simp add: bytes_str_def str_bytes_def comp_def)

lemma length_str_bytes [simp, sizes]: "length (str_bytes s) = length s"
  by (simp add: str_bytes_def)

lemma length_bytes_str [simp, sizes]: "length (bytes_str s) = length s"
  by (simp add: bytes_str_def)

lemma str_bytes_append: "str_bytes (s @ t) = str_bytes s @ str_bytes t"
  by (simp add: str_bytes_def)

lemma inj_str_bytes: "str_bytes s = str_bytes t \<longleftrightarrow> s = t"
  by (metis bytes_str_bytes)

section \<open>Positional numerals\<close>

definition digit_chars :: string where
  "digit_chars = ''0123456789abcdefghijklmnopqrstuvwxyz''"

definition digit_char :: "nat \<Rightarrow> char" where
  "digit_char n = digit_chars ! n"

definition digit_val :: "char \<Rightarrow> nat" where
  "digit_val c =
     (let n = of_char c :: nat in
      if 48 \<le> n \<and> n \<le> 57 then n - 48
      else if 97 \<le> n \<and> n \<le> 122 then n - 87
      else if 65 \<le> n \<and> n \<le> 90 then n - 55
      else 36)"

function to_base :: "nat \<Rightarrow> nat \<Rightarrow> string" where
  "to_base b n = (if n < b \<or> b < 2 then [digit_char n] else to_base b (n div b) @ [digit_char (n mod b)])"
  by pat_completeness auto
termination
  by (relation "measure snd") auto

declare to_base.simps [simp del]

definition of_base :: "nat \<Rightarrow> string \<Rightarrow> nat" where
  "of_base b s = foldl (\<lambda>a c. a * b + digit_val c) 0 s"

lemma less_36_cases: "n < 36 \<Longrightarrow> n \<in> set [0..<36]"
  by simp

lemma digit_val_char_all: "\<forall>n \<in> set [0..<36]. digit_val (digit_char n) = n"
  by (simp add: digit_val_def digit_char_def digit_chars_def upt_rec)

lemma digit_val_char [simp, codec]: "n < 36 \<Longrightarrow> digit_val (digit_char n) = n"
  using digit_val_char_all less_36_cases by blast

lemma of_base_snoc [simp]: "of_base b (s @ [c]) = of_base b s * b + digit_val c"
  by (simp add: of_base_def)

lemma of_to_base [simp, codec]:
  assumes "2 \<le> b" "b \<le> 36"
  shows "of_base b (to_base b n) = n"
  using assms
proof (induction b n rule: to_base.induct)
  case (1 b n)
  show ?case
  proof (cases "n < b")
    case True
    then have "n < 36" using 1 by simp
    then show ?thesis using True 1
      by (simp add: to_base.simps [of b n] of_base_def)
  next
    case False
    from 1 have "0 < b" by simp
    then have "n mod b < b" by simp
    with 1 have "n mod b < 36" by linarith
    then show ?thesis using False 1
      by (simp add: to_base.simps [of b n])
  qed
qed

lemma to_base_nonempty [simp]: "to_base b n \<noteq> []"
  by (subst to_base.simps) simp

lemma set_to_base:
  assumes "2 \<le> b"
  shows "set (to_base b n) \<subseteq> digit_char ` {..<b}"
  using assms
proof (induction b n rule: to_base.induct)
  case (1 b n)
  then show ?case by (subst to_base.simps) auto
qed

lemma length_to_base_le:
  assumes "2 \<le> b" "n < b ^ k" "0 < k"
  shows "length (to_base b n) \<le> k"
  using assms
proof (induction k arbitrary: n)
  case 0
  then show ?case by simp
next
  case (Suc k)
  show ?case
  proof (cases "n < b")
    case True
    then show ?thesis by (simp add: to_base.simps [of b n])
  next
    case False
    with Suc.prems have "0 < k" by (cases k) auto
    moreover have "n div b < b ^ k"
      using Suc.prems by (simp add: less_mult_imp_div_less mult.commute)
    ultimately have "length (to_base b (n div b)) \<le> k" using Suc by blast
    then show ?thesis using False Suc.prems by (simp add: to_base.simps [of b n])
  qed
qed

lemma to_base_inj:
  assumes "2 \<le> b" "b \<le> 36" "to_base b m = to_base b n"
  shows "m = n"
  using assms of_to_base by metis

definition pad_left :: "char \<Rightarrow> nat \<Rightarrow> string \<Rightarrow> string" where
  "pad_left c w s = replicate (w - length s) c @ s"

lemma length_pad_left [simp, sizes]: "length (pad_left c w s) = max w (length s)"
  by (auto simp: pad_left_def)

lemma of_base_zeros [simp]: "of_base b (replicate k (CHR ''0'') @ s) = of_base b s"
proof -
  have "foldl (\<lambda>a c. a * b + digit_val c) 0 (replicate k (CHR ''0'')) = 0"
    by (induction k) (simp_all add: digit_val_def)
  then show ?thesis by (simp add: of_base_def)
qed

lemma of_base_pad [simp, codec]: "of_base b (pad_left (CHR ''0'') w s) = of_base b s"
  by (simp add: pad_left_def)

text \<open>\<open>strconv.FormatInt\<close> in base 10, which \<open>fmt.Sprint\<close> of an integer also prints.\<close>

definition itoa :: "int \<Rightarrow> string" where
  "itoa i = (if i < 0 then CHR ''-'' # to_base 10 (nat (- i)) else to_base 10 (nat i))"

text \<open>\<open>hex.EncodeToString\<close>: two lowercase digits per byte.\<close>

definition hex_byte :: "byte \<Rightarrow> string" where
  "hex_byte b = [digit_char (unat b div 16), digit_char (unat b mod 16)]"

definition hex_encode :: "byte list \<Rightarrow> string" where
  "hex_encode bs = concat (map hex_byte bs)"

lemma hex_encode_Nil [simp]: "hex_encode [] = []"
  by (simp add: hex_encode_def)

lemma hex_encode_Cons [simp]: "hex_encode (b # bs) = hex_byte b @ hex_encode bs"
  by (simp add: hex_encode_def)

lemma length_hex_encode [simp, sizes]: "length (hex_encode bs) = 2 * length bs"
  by (induction bs) (auto simp: hex_byte_def)

definition hex_digits :: "char set" where
  "hex_digits = set ''0123456789abcdef''"

lemma digit_char_16: "n < 16 \<Longrightarrow> digit_char n \<in> hex_digits"
proof -
  have "\<forall>n \<in> set [0..<16]. digit_char n \<in> hex_digits"
    by (simp add: hex_digits_def digit_char_def digit_chars_def upt_rec)
  then show "n < 16 \<Longrightarrow> digit_char n \<in> hex_digits" by simp
qed

lemma byte_nibbles [simp]: "unat (b :: byte) div 16 < 16" "unat b mod 16 < 16"
  using unat_byte_less [of b] by (simp_all add: less_mult_imp_div_less)

lemma set_hex_encode: "set (hex_encode bs) \<subseteq> hex_digits"
  by (induction bs) (auto simp: hex_byte_def intro!: digit_char_16)

lemma hex_byte_inj:
  assumes "hex_byte a = hex_byte b"
  shows "a = b"
proof -
  have bd: "unat x div 16 < 36" "unat x mod 16 < 36" for x :: byte
    using byte_nibbles [of x] by linarith+
  from assms have "digit_val (digit_char (unat a div 16)) = digit_val (digit_char (unat b div 16))"
    "digit_val (digit_char (unat a mod 16)) = digit_val (digit_char (unat b mod 16))"
    by (simp_all add: hex_byte_def)
  then have "unat a div 16 = unat b div 16" "unat a mod 16 = unat b mod 16"
    using bd by simp_all
  then have "unat a = unat b" by (metis div_mult_mod_eq)
  then show ?thesis by (rule word_unat_eq_iff [THEN iffD2])
qed

lemma hex_encode_inj: "hex_encode xs = hex_encode ys \<longleftrightarrow> xs = ys"
proof
  show "hex_encode xs = hex_encode ys \<Longrightarrow> xs = ys"
  proof (induction xs arbitrary: ys)
    case Nil
    then show ?case by (cases ys) (auto simp: hex_byte_def)
  next
    case (Cons x xs)
    then obtain y ys' where ys: "ys = y # ys'" by (cases ys) (auto simp: hex_byte_def)
    with Cons.prems have "hex_byte x = hex_byte y" "hex_encode xs = hex_encode ys'"
      by (auto simp: hex_byte_def)
    then show ?case using ys Cons.IH hex_byte_inj by auto
  qed
qed simp

lemma all_less_Suc_split: "(\<forall>i < Suc n. P i) \<longleftrightarrow> P 0 \<and> (\<forall>i < n. P (Suc i))"
  by (metis (full_types) Suc_less_eq less_Suc_eq_0_disj)

end
