(* ===== verification/Go_Text.thy ===== *)
theory Go_Text
  imports Prelude
begin

text \<open>
  The text handling of Go's standard library that the program uses: UTF-8 decoding as
  \<open>[]rune(s)\<close> does it (an ill-formed byte becomes U+FFFD and is skipped alone), UTF-8
  encoding, UTF-16 encoding (\<open>unicode/utf16\<close>), and the functions of package
  \<open>strings\<close> on byte strings.
\<close>

section \<open>UTF-8 and UTF-16\<close>

definition codes :: "string \<Rightarrow> nat list" where
  "codes s = map of_char s"

definition is_cont :: "nat \<Rightarrow> bool" where
  "is_cont c \<longleftrightarrow> 128 \<le> c \<and> c \<le> 191"

definition rune_error :: nat where
  "rune_error = 65533"

text \<open>
  \<open>utf8.DecodeRune\<close> on a non-empty input: the rune and its width. The bounds of the second
  byte exclude overlong forms, surrogates and values above U+10FFFF.
\<close>

definition second_ok :: "nat \<Rightarrow> nat \<Rightarrow> bool" where
  "second_ok a b \<longleftrightarrow>
     (if a = 224 then 160 \<le> b \<and> b \<le> 191
      else if a = 237 then 128 \<le> b \<and> b \<le> 159
      else if a = 240 then 144 \<le> b \<and> b \<le> 191
      else if a = 244 then 128 \<le> b \<and> b \<le> 143
      else is_cont b)"

definition decode_rune :: "nat list \<Rightarrow> nat \<times> nat" where
  "decode_rune s =
     (case s of
        [] \<Rightarrow> (rune_error, 0)
      | a # t \<Rightarrow>
          if a < 128 then (a, 1)
          else if 194 \<le> a \<and> a \<le> 223 then
            (case t of b # _ \<Rightarrow> if is_cont b then ((a - 192) * 64 + (b - 128), 2) else (rune_error, 1)
             | [] \<Rightarrow> (rune_error, 1))
          else if 224 \<le> a \<and> a \<le> 239 then
            (case t of b # c # _ \<Rightarrow>
                if second_ok a b \<and> is_cont c
                then ((a - 224) * 4096 + (b - 128) * 64 + (c - 128), 3) else (rune_error, 1)
             | _ \<Rightarrow> (rune_error, 1))
          else if 240 \<le> a \<and> a \<le> 244 then
            (case t of b # c # d # _ \<Rightarrow>
                if second_ok a b \<and> is_cont c \<and> is_cont d
                then ((a - 240) * 262144 + (b - 128) * 4096 + (c - 128) * 64 + (d - 128), 4)
                else (rune_error, 1)
             | _ \<Rightarrow> (rune_error, 1))
          else (rune_error, 1))"

lemma decode_rune_width: "s \<noteq> [] \<Longrightarrow> 1 \<le> snd (decode_rune s) \<and> snd (decode_rune s) \<le> length s"
  by (auto simp: decode_rune_def split: list.splits)

lemma decode_rune_ascii: "a < 128 \<Longrightarrow> decode_rune (a # t) = (a, 1)"
  by (simp add: decode_rune_def)

text \<open>\<open>[]rune(s)\<close>.\<close>

function runes_of :: "nat list \<Rightarrow> nat list" where
  "runes_of s = (if s = [] then []
                 else fst (decode_rune s) # runes_of (drop (snd (decode_rune s)) s))"
  by pat_completeness auto
termination
  by (relation "measure length") (auto dest: decode_rune_width)

declare runes_of.simps [simp del]

lemma runes_of_Nil [simp]: "runes_of [] = []"
  by (simp add: runes_of.simps)

lemma runes_of_ascii_Cons [simp]: "a < 128 \<Longrightarrow> runes_of (a # t) = a # runes_of t"
  by (subst runes_of.simps) (simp add: decode_rune_ascii)

text \<open>
  An ASCII byte is a boundary: it starts no multi-byte form and continues none, so decoding
  splits there whatever the bytes before it are.
\<close>

lemma decode_rune_append_ascii:
  assumes "s \<noteq> []" "t = [] \<or> hd t < 128"
  shows "decode_rune (s @ t) = decode_rune s"
proof (cases t)
  case Nil
  then show ?thesis by simp
next
  case (Cons u us)
  with assms have u: "u < 128" by simp
  obtain a s' where s: "s = a # s'" using assms by (cases s) auto
  have nb: "\<not> is_cont u" "\<not> second_ok a u"
    using u by (auto simp: is_cont_def second_ok_def)
  show ?thesis
  proof (cases s')
    case Nil
    then show ?thesis using s Cons nb
      by (auto simp: decode_rune_def split: list.splits)
  next
    case s2: (Cons b s'')
    show ?thesis
    proof (cases s'')
      case Nil
      then show ?thesis using s s2 Cons nb
        by (auto simp: decode_rune_def split: list.splits)
    next
      case s3: (Cons c s3')
      then show ?thesis using s s2 Cons nb
        by (cases s3') (auto simp: decode_rune_def split: list.splits)
    qed
  qed
qed

lemma runes_of_append_ascii:
  assumes "t = [] \<or> hd t < 128"
  shows "runes_of (s @ t) = runes_of s @ runes_of t"
  using assms
proof (induction s rule: runes_of.induct)
  case (1 s)
  show ?case
  proof (cases "s = []")
    case True
    then show ?thesis by simp
  next
    case False
    have d: "decode_rune (s @ t) = decode_rune s"
      using False 1 by (simp add: decode_rune_append_ascii)
    have w: "snd (decode_rune s) \<le> length s"
      using False decode_rune_width by blast
    have "runes_of (s @ t) = fst (decode_rune s) # runes_of (drop (snd (decode_rune s)) s @ t)"
      using False w by (subst runes_of.simps) (simp add: d)
    also have "\<dots> = fst (decode_rune s) # runes_of (drop (snd (decode_rune s)) s) @ runes_of t"
      using 1 False by simp
    finally show ?thesis using False by (simp add: runes_of.simps [of s])
  qed
qed

lemma runes_of_ascii: "(\<forall>a \<in> set s. a < 128) \<Longrightarrow> runes_of s = s"
  by (induction s) auto

text \<open>\<open>utf8.EncodeRune\<close>; surrogates and values out of range are encoded as U+FFFD.\<close>

definition encode_rune :: "nat \<Rightarrow> nat list" where
  "encode_rune r =
     (if r < 128 then [r]
      else if r < 2048 then [192 + r div 64, 128 + r mod 64]
      else if r > 1114111 \<or> (55296 \<le> r \<and> r \<le> 57343) then [239, 191, 189]
      else if r < 65536 then [224 + r div 4096, 128 + r div 64 mod 64, 128 + r mod 64]
      else [240 + r div 262144, 128 + r div 4096 mod 64, 128 + r div 64 mod 64, 128 + r mod 64])"

text \<open>\<open>utf16.Encode\<close> of a rune that UTF-8 decoding produced.\<close>

definition utf16_rune :: "nat \<Rightarrow> nat list" where
  "utf16_rune r =
     (if r < 55296 \<or> (57343 < r \<and> r < 65536) then [r]
      else if 65536 \<le> r \<and> r \<le> 1114111
        then [55296 + (r - 65536) div 1024, 56320 + (r - 65536) mod 1024]
      else [rune_error])"

definition utf16_units :: "string \<Rightarrow> nat list" where
  "utf16_units s = concat (map utf16_rune (runes_of (codes s)))"

lemma codes_append [simp]: "codes (s @ t) = codes s @ codes t"
  by (simp add: codes_def)

lemma codes_Nil [simp]: "codes [] = []"
  by (simp add: codes_def)

lemma codes_Cons [simp]: "codes (c # s) = of_char c # codes s"
  by (simp add: codes_def)

definition ascii :: "string \<Rightarrow> bool" where
  "ascii s \<longleftrightarrow> list_all (\<lambda>c. of_char c < (128::nat)) s"

lemma ascii_Nil [simp]: "ascii []"
  by (simp add: ascii_def)

lemma ascii_Cons [simp]: "ascii (c # s) \<longleftrightarrow> of_char c < (128::nat) \<and> ascii s"
  by (simp add: ascii_def)

lemma ascii_append [simp]: "ascii (s @ t) \<longleftrightarrow> ascii s \<and> ascii t"
  by (simp add: ascii_def)

lemma utf16_units_append_ascii:
  assumes "ascii t"
  shows "utf16_units (s @ t) = utf16_units s @ utf16_units t"
proof -
  have "codes t = [] \<or> hd (codes t) < 128"
    using assms by (cases t) auto
  then show ?thesis by (simp add: utf16_units_def runes_of_append_ascii)
qed

section \<open>Package strings\<close>

text \<open>\<open>strings.Contains\<close> with a one-byte needle, \<open>strings.Split\<close> on a byte.\<close>

definition contains_char :: "string \<Rightarrow> char \<Rightarrow> bool" where
  "contains_char s c \<longleftrightarrow> c \<in> set s"

fun split_on :: "char \<Rightarrow> string \<Rightarrow> string list" where
  "split_on c [] = [[]]"
| "split_on c (x # xs) =
     (if x = c then [] # split_on c xs
      else (case split_on c xs of p # ps \<Rightarrow> (x # p) # ps | [] \<Rightarrow> [[x]]))"

lemma split_on_nonempty [simp]: "split_on c s \<noteq> []"
  by (cases s) (auto split: list.splits)

lemma split_on_no_sep: "c \<notin> set s \<Longrightarrow> split_on c s = [s]"
  by (induction s) auto

lemma split_on_append: "c \<notin> set s \<Longrightarrow> split_on c (s @ c # t) = s # split_on c t"
  by (induction s) auto

lemma split_on_join:
  "split_on c s = ps \<Longrightarrow> (\<forall>p \<in> set ps. c \<notin> set p) \<and> s = concat (map (\<lambda>p. p @ [c]) (butlast ps)) @ last ps"
proof (induction s arbitrary: ps)
  case Nil
  then show ?case by auto
next
  case (Cons x xs)
  obtain q qs where q: "split_on c xs = q # qs" by (cases "split_on c xs") auto
  from Cons.IH [OF q] q Cons.prems show ?case
    by (cases "x = c"; cases qs) auto
qed

text \<open>\<open>strings.Cut\<close> at the first occurrence of a byte.\<close>

fun cut :: "char \<Rightarrow> string \<Rightarrow> (string \<times> string) option" where
  "cut c [] = None"
| "cut c (x # xs) =
     (if x = c then Some ([], xs)
      else (case cut c xs of None \<Rightarrow> None | Some (a, b) \<Rightarrow> Some (x # a, b)))"

lemma cut_append: "c \<notin> set s \<Longrightarrow> cut c (s @ c # t) = Some (s, t)"
  by (induction s) auto

lemma cut_Some: "cut c s = Some (a, b) \<Longrightarrow> s = a @ c # b \<and> c \<notin> set a"
proof (induction s arbitrary: a)
  case (Cons x s)
  show ?case
  proof (cases "x = c")
    case True
    then show ?thesis using Cons.prems by simp
  next
    case False
    then obtain a' where a': "cut c s = Some (a', b)" "a = x # a'"
      using Cons.prems by (cases "cut c s") (simp_all split: prod.splits)
    with Cons.IH False show ?thesis by simp
  qed
qed simp

lemma cut_None: "cut c s = None \<longleftrightarrow> c \<notin> set s"
  by (induction s) (auto split: option.splits)

text \<open>\<open>strings.HasPrefix\<close>, \<open>strings.TrimPrefix\<close>, \<open>strings.TrimRight\<close> of one byte.\<close>

fun has_prefix :: "string \<Rightarrow> string \<Rightarrow> bool" where
  "has_prefix s [] = True"
| "has_prefix [] (p # ps) = False"
| "has_prefix (x # xs) (p # ps) = (x = p \<and> has_prefix xs ps)"

lemma has_prefix_iff: "has_prefix s p \<longleftrightarrow> take (length p) s = p"
  by (induction s p rule: has_prefix.induct) auto

definition trim_prefix :: "string \<Rightarrow> string \<Rightarrow> string" where
  "trim_prefix s p = (if has_prefix s p then drop (length p) s else s)"

definition trim_right_char :: "char \<Rightarrow> string \<Rightarrow> string" where
  "trim_right_char c s = rev (dropWhile (\<lambda>x. x = c) (rev s))"

text \<open>
  \<open>strings.ToLower\<close>, on ASCII letters. Other bytes are left alone: no rune outside ASCII
  has a lower case among the hexadecimal digits the result is compared with.
\<close>

definition lower_char :: "char \<Rightarrow> char" where
  "lower_char c =
     (let n = of_char c :: nat in if 65 \<le> n \<and> n \<le> 90 then char_of (n + 32) else c)"

definition to_lower :: "string \<Rightarrow> string" where
  "to_lower s = map lower_char s"

text \<open>
  \<open>bytes.TrimSpace\<close> and \<open>strings.TrimSpace\<close>. The ASCII white space, and the other white
  space of Unicode in its UTF-8 forms (U+0085, U+00A0, U+1680, U+2000 to U+200A, U+2028,
  U+2029, U+202F, U+205F, U+3000).
\<close>

definition space_rune :: "nat \<Rightarrow> bool" where
  "space_rune r \<longleftrightarrow> r \<in> {9, 10, 11, 12, 13, 32, 133, 160, 5760, 8232, 8233, 8239, 8287, 12288}
      \<or> 8192 \<le> r \<and> r \<le> 8202"

function trim_left_space :: "string \<Rightarrow> string" where
  "trim_left_space s =
     (if s \<noteq> [] \<and> space_rune (fst (decode_rune (codes s)))
      then trim_left_space (drop (snd (decode_rune (codes s))) s) else s)"
  by pat_completeness auto
termination
proof (relation "measure length", simp)
  fix s :: string
  assume a: "s \<noteq> [] \<and> space_rune (fst (decode_rune (codes s)))"
  then have "1 \<le> snd (decode_rune (codes s))"
    using decode_rune_width [of "codes s"] by (cases s) auto
  with a show "(drop (snd (decode_rune (codes s))) s, s) \<in> measure length" by auto
qed

declare trim_left_space.simps [simp del]

text \<open>The last rune of a string: the widest well-formed form that ends it, or the last byte.\<close>

definition last_rune :: "string \<Rightarrow> nat \<times> nat" where
  "last_rune s =
     (let n = length s;
          ok = (\<lambda>w. w \<le> n \<and> snd (decode_rune (codes (drop (n - w) s))) = w) in
      if n = 0 then (rune_error, 0)
      else if of_char (last s) < (128::nat) then (of_char (last s), 1)
      else if ok 2 then decode_rune (codes (drop (n - 2) s))
      else if ok 3 then decode_rune (codes (drop (n - 3) s))
      else if ok 4 then decode_rune (codes (drop (n - 4) s))
      else (rune_error, 1))"

lemma last_rune_width: "s \<noteq> [] \<Longrightarrow> 1 \<le> snd (last_rune s)"
  by (auto simp: last_rune_def Let_def)

function trim_right_space :: "string \<Rightarrow> string" where
  "trim_right_space s =
     (if s \<noteq> [] \<and> space_rune (fst (last_rune s))
      then trim_right_space (take (length s - snd (last_rune s)) s) else s)"
  by pat_completeness auto
termination
  by (relation "measure length") (use last_rune_width in \<open>auto simp: Suc_le_eq\<close>)

declare trim_right_space.simps [simp del]

definition trim_space :: "string \<Rightarrow> string" where
  "trim_space s = trim_right_space (trim_left_space s)"

lemma trim_left_space_id: "s = [] \<or> \<not> space_rune (fst (decode_rune (codes s))) \<Longrightarrow> trim_left_space s = s"
  by (subst trim_left_space.simps) auto

lemma trim_right_space_id: "s = [] \<or> \<not> space_rune (fst (last_rune s)) \<Longrightarrow> trim_right_space s = s"
  by (subst trim_right_space.simps) auto

lemma trim_space_plain:
  assumes "s \<noteq> []" "of_char (hd s) < (128 :: nat)" "\<not> space_rune (of_char (hd s))"
    "of_char (last s) < (128 :: nat)" "\<not> space_rune (of_char (last s))"
  shows "trim_space s = s"
proof -
  obtain c t where s: "s = c # t" using assms(1) by (cases s) auto
  have "trim_left_space s = s" using assms s by (intro trim_left_space_id) (simp add: decode_rune_ascii)
  moreover have "trim_right_space s = s" using assms by (intro trim_right_space_id) (simp add: last_rune_def Let_def)
  ultimately show ?thesis by (simp add: trim_space_def)
qed

end
