(* ===== verification/Prng.thy ===== *)
theory Prng
  imports Go_Text
begin

text \<open>
  The deterministic generator of \<open>prng.go\<close>: FNV-1a over UTF-16 code units, resumable, and
  the xorshift32 stream of hexadecimal digits from which the salts and targets of a format-1
  challenge are derived. A negative length makes \<open>strings.Builder.Grow\<close> or the final slice
  panic; the result \<open>None\<close> is that panic.
\<close>

section \<open>Definitions\<close>

definition fnv1a32Resume :: "u32 \<Rightarrow> string \<Rightarrow> u32" where
  "fnv1a32Resume state input =
     foldl (\<lambda>h u. (h XOR word_of_nat u) * 16777619) state (utf16_units input)"

definition fnv1a32 :: "string \<Rightarrow> u32" where
  "fnv1a32 seed = fnv1a32Resume 2166136261 seed"

text \<open>The three shift-and-xor lines of the loop body.\<close>

definition xorshift :: "u32 \<Rightarrow> u32" where
  "xorshift s0 =
     (let s1 = s0 XOR push_bit 13 s0; s2 = s1 XOR drop_bit 17 s1
      in s2 XOR push_bit 5 s2)"

text \<open>\<open>fmt.Fprintf(&out, "%08x", state)\<close>.\<close>

definition hex08 :: "u32 \<Rightarrow> string" where
  "hex08 w = pad_left (CHR ''0'') 8 (to_base 16 (unat w))"

lemma length_hex08 [simp, sizes]: "length (hex08 w) = 8"
proof -
  have "unat w < 16 ^ 8" using unsigned_less [of w] by simp
  then have "length (to_base 16 (unat w)) \<le> 8" by (intro length_to_base_le) auto
  then show ?thesis by (simp add: hex08_def)
qed

function prng_loop :: "u32 \<Rightarrow> nat \<Rightarrow> string \<Rightarrow> string" where
  "prng_loop state len out =
     (if length out < len then prng_loop (xorshift state) len (out @ hex08 (xorshift state)) else out)"
  by pat_completeness auto
termination
  by (relation "measure (\<lambda>(state, len, out). len - length out)") auto

declare prng_loop.simps [simp del]

definition prngFromHash :: "u32 \<Rightarrow> int \<Rightarrow> string option" where
  "prngFromHash state len =
     (if len < 0 then None else Some (take (nat len) (prng_loop state (nat len) [])))"

definition PRNG :: "string \<Rightarrow> int \<Rightarrow> string option" where
  "PRNG seed len = prngFromHash (fnv1a32 seed) len"

definition format1Pair :: "string \<Rightarrow> int \<Rightarrow> int \<Rightarrow> int \<Rightarrow> (string \<times> string) option" where
  "format1Pair token index sz difficulty =
     (let tokenState = fnv1a32 token;
          saltState = fnv1a32Resume tokenState (itoa index);
          targetState = fnv1a32Resume saltState ''d''
      in case prngFromHash saltState sz of
           None \<Rightarrow> None
         | Some salt \<Rightarrow> map_option (\<lambda>target. (salt, target)) (prngFromHash targetState difficulty))"

section \<open>Lemmas\<close>

lemma fnv_Nil [simp]: "fnv1a32Resume h [] = h"
  by (simp add: fnv1a32Resume_def utf16_units_def)

lemma fnv_append: "ascii t \<Longrightarrow> fnv1a32Resume (fnv1a32Resume h s) t = fnv1a32Resume h (s @ t)"
  by (simp add: fnv1a32Resume_def utf16_units_append_ascii)

lemma ascii_digit: "n < 36 \<Longrightarrow> of_char (digit_char n) < (128::nat)"
proof -
  have "\<forall>n \<in> set [0..<36]. of_char (digit_char n) < (128::nat)"
    by (simp add: digit_char_def digit_chars_def upt_rec)
  then show "n < 36 \<Longrightarrow> of_char (digit_char n) < (128::nat)" by simp
qed

lemma ascii_to_base:
  assumes "2 \<le> b" "b \<le> 36"
  shows "ascii (to_base b n)"
proof -
  have "c \<in> set (to_base b n) \<Longrightarrow> of_char c < (128::nat)" for c
    using set_to_base [OF assms(1), of n] assms(2) ascii_digit by fastforce
  then show ?thesis by (simp add: ascii_def list_all_iff)
qed

lemma ascii_itoa [simp]: "ascii (itoa i)"
  by (simp add: itoa_def ascii_to_base)

text \<open>The stream of digits without the cut-off: \<open>n\<close> rounds from a state.\<close>

fun prng_rounds :: "nat \<Rightarrow> u32 \<Rightarrow> string" where
  "prng_rounds 0 s = []"
| "prng_rounds (Suc n) s = hex08 (xorshift s) @ prng_rounds n (xorshift s)"

lemma length_prng_rounds [simp, sizes]: "length (prng_rounds n s) = 8 * n"
  by (induction n arbitrary: s) auto

lemma blocks_left: "0 < (k::nat) \<Longrightarrow> (k + 7) div 8 = Suc ((k - 8 + 7) div 8)"
proof (cases "8 \<le> k")
  case True
  then obtain j where "k = 8 + j" using le_iff_add by blast
  then show ?thesis by simp
next
  case False
  assume "0 < k"
  with False have "(k + 7) div 8 = 1" by (intro div_nat_eqI) auto
  then show ?thesis using False by simp
qed

lemma prng_loop_rounds:
  "prng_loop s len out = out @ prng_rounds ((len - length out + 7) div 8) s"
proof (induction s len out rule: prng_loop.induct)
  case (1 s len out)
  show ?case
  proof (cases "length out < len")
    case True
    then have "(len - length out + 7) div 8 = Suc ((len - length (out @ hex08 (xorshift s)) + 7) div 8)"
      using blocks_left [of "len - length out"] by (simp add: diff_diff_add)
    then show ?thesis using True 1 by (simp add: prng_loop.simps [of s len out])
  next
    case False
    then show ?thesis by (simp add: prng_loop.simps [of s len out])
  qed
qed

lemma prng_rounds_add: "take (8 * m) (prng_rounds (m + k) s) = prng_rounds m s"
  by (induction m arbitrary: s) auto

lemma take_prng_rounds:
  assumes "n \<le> 8 * m" "m \<le> m'"
  shows "take n (prng_rounds m' s) = take n (prng_rounds m s)"
proof -
  have "take n (prng_rounds m' s) = take n (take (8 * m) (prng_rounds (m + (m' - m)) s))"
    using assms by (simp add: min_absorb1)
  then show ?thesis using prng_rounds_add [of m "m' - m" s] by simp
qed

lemma prngFromHash_take:
  assumes "0 \<le> len" "nat len \<le> 8 * m"
  shows "prngFromHash s len = Some (take (nat len) (prng_rounds m s))"
proof -
  let ?k = "(nat len + 7) div 8"
  have "?k \<le> m" using assms(2) by simp
  moreover have "nat len \<le> 8 * ?k" by simp
  ultimately have "take (nat len) (prng_rounds ?k s) = take (nat len) (prng_rounds m s)"
    using take_prng_rounds by metis
  then show ?thesis using assms(1) by (simp add: prngFromHash_def prng_loop_rounds)
qed

lemma set_hex08: "set (hex08 w) \<subseteq> hex_digits"
proof -
  have "set (to_base 16 (unat w)) \<subseteq> hex_digits"
    using set_to_base [of 16 "unat w"] digit_char_16 by auto
  moreover have "CHR ''0'' \<in> hex_digits" by (simp add: hex_digits_def)
  ultimately show ?thesis by (auto simp: hex08_def pad_left_def)
qed

lemma set_prng_rounds: "set (prng_rounds n s) \<subseteq> hex_digits"
  using set_hex08 by (induction n arbitrary: s) auto

lemma prngFromHash_Some: "prngFromHash s len = Some out \<Longrightarrow> 0 \<le> len \<and> length out = nat len \<and> set out \<subseteq> hex_digits"
proof -
  assume a: "prngFromHash s len = Some out"
  then have l: "0 \<le> len" by (simp add: prngFromHash_def split: if_splits)
  have le: "nat len \<le> 8 * nat len" by simp
  from a have out: "out = take (nat len) (prng_rounds (nat len) s)"
    using prngFromHash_take [OF l le] by simp
  then have "set out \<subseteq> hex_digits"
    using set_prng_rounds set_take_subset subset_trans by metis
  then show ?thesis using l out by simp
qed

lemma prngFromHash_total: "0 \<le> len \<Longrightarrow> \<exists>out. prngFromHash s len = Some out"
  by (simp add: prngFromHash_def)

lemma format1Pair_Some:
  assumes "format1Pair token i sz d = Some (salt, target)"
  shows "0 \<le> sz \<and> 0 \<le> d \<and> length salt = nat sz \<and> length target = nat d
         \<and> set salt \<subseteq> hex_digits \<and> set target \<subseteq> hex_digits"
  using assms prngFromHash_Some
  by (fastforce simp: format1Pair_def Let_def split: option.splits)

lemma format1Pair_total:
  "0 \<le> sz \<Longrightarrow> 0 \<le> d \<Longrightarrow> \<exists>p. format1Pair token i sz d = Some p"
  by (auto simp: format1Pair_def prngFromHash_def Let_def)

text \<open>
  Each shift-and-xor line is injective: the difference of two inputs with the same output is a
  fixed point of a proper shift, which only zero is.
\<close>

lemma push_bit_fixpoint:
  fixes c :: "'a::len word"
  assumes "push_bit n c = c" "0 < n"
  shows "c = 0"
proof -
  have "\<not> bit c i" for i
  proof (induction i rule: less_induct)
    case (less i)
    have "bit c i \<longleftrightarrow> bit (push_bit n c) i" using assms(1) by simp
    then show ?case using less [of "i - n"] assms(2) by (auto simp: bit_simps)
  qed
  then show ?thesis by (simp add: bit_eq_iff)
qed

lemma drop_bit_fixpoint:
  fixes c :: "'a::len word"
  assumes "drop_bit n c = c" "0 < n"
  shows "c = 0"
proof -
  have "\<not> bit c i" for i
  proof (induction "LENGTH('a) - i" arbitrary: i rule: less_induct)
    case less
    show ?case
    proof (cases "i < LENGTH('a)")
      case True
      have "bit c i \<longleftrightarrow> bit (drop_bit n c) i" using assms(1) by simp
      also have "\<dots> \<longleftrightarrow> bit c (n + i)" by (simp add: bit_simps)
      finally show ?thesis using less [of "n + i"] True assms(2) by (simp add: diff_less_mono2)
    next
      case False
      then show ?thesis using bit_imp_le_length by blast
    qed
  qed
  then show ?thesis by (simp add: bit_eq_iff)
qed

lemma xor_eq_0_eq: "(a :: 'a::len word) XOR b = 0 \<Longrightarrow> a = b"
  by (metis xor.assoc xor.left_neutral xor.right_neutral xor_self_eq)

lemma xor_push_inj:
  fixes a b :: "'a::len word"
  assumes "a XOR push_bit n a = b XOR push_bit n b" "0 < n"
  shows "a = b"
proof -
  have "push_bit n (a XOR b) = a XOR b"
  proof (rule bit_eqI)
    fix i
    assume "possible_bit TYPE('a word) i"
    have "bit (a XOR push_bit n a) i = bit (b XOR push_bit n b) i" using assms by simp
    then show "bit (push_bit n (a XOR b)) i = bit (a XOR b) i" by (auto simp: bit_simps)
  qed
  then have "a XOR b = 0" using push_bit_fixpoint assms(2) by blast
  then show ?thesis by (rule xor_eq_0_eq)
qed

lemma xor_drop_inj:
  fixes a b :: "'a::len word"
  assumes "a XOR drop_bit n a = b XOR drop_bit n b" "0 < n"
  shows "a = b"
proof -
  have "drop_bit n (a XOR b) = a XOR b"
  proof (rule bit_eqI)
    fix i
    assume "possible_bit TYPE('a word) i"
    have "bit (a XOR drop_bit n a) i = bit (b XOR drop_bit n b) i" using assms by simp
    then show "bit (drop_bit n (a XOR b)) i = bit (a XOR b) i" by (auto simp: bit_simps)
  qed
  then have "a XOR b = 0" using drop_bit_fixpoint assms(2) by blast
  then show ?thesis by (rule xor_eq_0_eq)
qed

lemma xorshift_inj: "xorshift a = xorshift b \<longleftrightarrow> a = b"
proof
  assume eq: "xorshift a = xorshift b"
  define f where "f x = x XOR push_bit 13 x" for x :: u32
  define g where "g x = x XOR drop_bit 17 x" for x :: u32
  have "g (f a) XOR push_bit 5 (g (f a)) = g (f b) XOR push_bit 5 (g (f b))"
    using eq by (simp only: xorshift_def Let_def f_def g_def)
  then have "g (f a) = g (f b)" by (rule xor_push_inj) simp
  then have "f a = f b" unfolding g_def by (rule xor_drop_inj) simp
  then show "a = b" unfolding f_def by (rule xor_push_inj) simp
qed simp

lemma xorshift_0 [simp]: "xorshift 0 = 0"
  by (simp add: xorshift_def)

lemma xorshift_eq_0 [simp]: "xorshift s = 0 \<longleftrightarrow> s = 0"
  using xorshift_inj [of s 0] by simp

section \<open>Properties\<close>

lemma format1Pair_PRNG:
  "format1Pair token i sz d =
     (case PRNG (token @ itoa i) sz of
        None \<Rightarrow> None
      | Some salt \<Rightarrow> map_option (\<lambda>target. (salt, target)) (PRNG (token @ itoa i @ ''d'') d))"
proof -
  have "fnv1a32Resume (fnv1a32 token) (itoa i) = fnv1a32 (token @ itoa i)"
    "fnv1a32Resume (fnv1a32 (token @ itoa i)) ''d'' = fnv1a32 (token @ itoa i @ ''d'')"
    by (simp_all add: fnv1a32_def fnv_append)
  then show ?thesis by (simp only: format1Pair_def PRNG_def Let_def)
qed

text \<open>
  Resuming the hash is hashing the whole: the salt and the target of challenge
  \<open>i\<close>, which the server derives by feeding the index and a \<open>d\<close> to a saved hash state, are
  \<open>PRNG(token + i, size)\<close> and \<open>PRNG(token + i + "d", difficulty)\<close>, which is what the widget
  computes from scratch. It holds for every token, with ill-formed UTF-8 too, and for negative
  lengths, where both panic.
\<close>
lemma format1Pair_is_PRNG:
  "format1Pair token i sz d =
     (case PRNG (token @ itoa i) sz of
        None \<Rightarrow> None
      | Some salt \<Rightarrow> map_option (\<lambda>target. (salt, target)) (PRNG (token @ itoa i @ ''d'') d))"
  by (rule format1Pair_PRNG)

lemma PRNG_prefix_helper:
  assumes "0 \<le> n" "n \<le> m"
  shows "PRNG s n = map_option (take (nat n)) (PRNG s m)"
proof -
  have le: "nat n \<le> 8 * nat m" "nat m \<le> 8 * nat m" "0 \<le> m" "nat n \<le> nat m" using assms by auto
  show ?thesis
    unfolding PRNG_def prngFromHash_take [OF assms(1) le(1)] prngFromHash_take [OF le(3,2)]
    using le(4) by (simp add: min_absorb1)
qed

text \<open>
  The generator is a stream: it returns exactly the number of lowercase hexadecimal
  digits asked for, and a shorter request gives a prefix of a longer one.
\<close>
lemma PRNG_stream:
  assumes "0 \<le> n" "n \<le> m"
  shows "\<exists>out. PRNG s m = Some out \<and> length out = nat m \<and> set out \<subseteq> hex_digits \<and> PRNG s n = Some (take (nat n) out)"
proof -
  from assms obtain out where out: "PRNG s m = Some out" using prngFromHash_total [of m] by (auto simp: PRNG_def)
  then have "length out = nat m \<and> set out \<subseteq> hex_digits" using prngFromHash_Some by (auto simp: PRNG_def)
  then show ?thesis using out PRNG_prefix_helper [OF assms, of s] by simp
qed

lemma PRNG_stream_witness:
  "\<exists>out. PRNG ''token1'' 32 = Some out \<and> length out = nat 32 \<and> set out \<subseteq> hex_digits
     \<and> PRNG ''token1'' 5 = Some (take (nat 5) out)"
  by (rule PRNG_stream) simp_all

end
