(* ===== verification/Errors.thy ===== *)
theory Errors
  imports Prelude
begin

text \<open>
  The error values of \<open>errors.go\<close>, with the two sentinels \<open>ErrConfig\<close> (\<open>cap.go\<close>) and
  \<open>ErrStore\<close> (\<open>store.go\<close>), the reason codes of \<open>instrumentation.go\<close>, and the functions of
  Go's \<open>errors\<close> package that walk a chain of wrapped errors. A result \<open>(T, error)\<close> of the
  code is a value of \<open>go_error + 'a\<close>. A run-time panic is the value \<open>EPanic\<close> of the same
  sum: nothing under \<open>src/\<close> recovers from one, so every caller passes it on.
\<close>

section \<open>Error values\<close>

datatype go_error =
    EProto string bool "go_error option"
  | ESentinel string
  | EJoin "go_error list"
  | EWrap string go_error string
  | EOther string
  | EPanic string

definition ReasonInvalidBody :: string where
  "ReasonInvalidBody = ''invalid_body''"

definition ReasonMissingToken :: string where
  "ReasonMissingToken = ''missing_token''"

definition ReasonMissingSolutions :: string where
  "ReasonMissingSolutions = ''missing_solutions''"

definition ReasonInvalidToken :: string where
  "ReasonInvalidToken = ''invalid_token''"

definition ReasonScopeMismatch :: string where
  "ReasonScopeMismatch = ''scope_mismatch''"

definition ReasonExpired :: string where
  "ReasonExpired = ''expired''"

definition ReasonInvalidSolutions :: string where
  "ReasonInvalidSolutions = ''invalid_solutions''"

definition ReasonInvalidSolution :: string where
  "ReasonInvalidSolution = ''invalid_solution''"

definition ReasonAlreadyRedeemed :: string where
  "ReasonAlreadyRedeemed = ''already_redeemed''"

definition ReasonNonceStoreError :: string where
  "ReasonNonceStoreError = ''nonce_store_error''"

definition ReasonInstrCorrupted :: string where
  "ReasonInstrCorrupted = ''instr_corrupted''"

definition ReasonInstrExpired :: string where
  "ReasonInstrExpired = ''instr_expired''"

definition ReasonInstrAutomated :: string where
  "ReasonInstrAutomated = ''instr_automated_browser''"

definition ReasonInstrTimeout :: string where
  "ReasonInstrTimeout = ''instr_timeout''"

definition ReasonInstrMissing :: string where
  "ReasonInstrMissing = ''instr_missing''"

definition ReasonInstrFailed :: string where
  "ReasonInstrFailed = ''instr_failed''"

definition ReasonChallengeNotFound :: string where
  "ReasonChallengeNotFound = ''challenge_invalid_or_expired''"

definition ReasonInstrMissingMeta :: string where
  "ReasonInstrMissingMeta = ''missing_meta''"

definition ReasonInstrMissingOutput :: string where
  "ReasonInstrMissingOutput = ''missing_output''"

definition ReasonInstrIDMismatch :: string where
  "ReasonInstrIDMismatch = ''id_mismatch''"

definition ReasonInstrInvalidState :: string where
  "ReasonInstrInvalidState = ''invalid_state''"

definition ReasonInstrInvalidMeta :: string where
  "ReasonInstrInvalidMeta = ''invalid_meta''"

definition ReasonInstrFailedChallenge :: string where
  "ReasonInstrFailedChallenge = ''failed_challenge''"

lemmas reason_defs =
  ReasonInvalidBody_def ReasonMissingToken_def ReasonMissingSolutions_def ReasonInvalidToken_def ReasonScopeMismatch_def ReasonExpired_def ReasonInvalidSolutions_def ReasonInvalidSolution_def ReasonAlreadyRedeemed_def ReasonNonceStoreError_def ReasonInstrCorrupted_def ReasonInstrExpired_def ReasonInstrAutomated_def ReasonInstrTimeout_def ReasonInstrMissing_def ReasonInstrFailed_def ReasonChallengeNotFound_def
  ReasonInstrMissingMeta_def ReasonInstrMissingOutput_def ReasonInstrIDMismatch_def ReasonInstrInvalidState_def ReasonInstrInvalidMeta_def ReasonInstrFailedChallenge_def

definition ErrConfig :: go_error where
  "ErrConfig = ESentinel ''capgo: configuration error''"

definition ErrStore :: go_error where
  "ErrStore = ESentinel ''capgo: store error''"

definition fail :: "string \<Rightarrow> go_error" where
  "fail reason = EProto reason False None"

definition failInstr :: "string \<Rightarrow> go_error" where
  "failInstr reason = EProto reason True None"

definition storeErr :: "string \<Rightarrow> go_error \<Rightarrow> go_error" where
  "storeErr reason err = EProto reason False (Some (EJoin [ErrStore, err]))"

text \<open>\<open>fmt.Errorf("%w: ...", ErrConfig)\<close>.\<close>

definition configErr :: "string \<Rightarrow> go_error" where
  "configErr msg = EWrap [] ErrConfig ('': '' @ msg)"

definition ErrInvalidBody :: go_error where
  "ErrInvalidBody = EProto ReasonInvalidBody False None"

definition ErrMissingToken :: go_error where
  "ErrMissingToken = EProto ReasonMissingToken False None"

definition ErrMissingSolutions :: go_error where
  "ErrMissingSolutions = EProto ReasonMissingSolutions False None"

definition ErrInvalidToken :: go_error where
  "ErrInvalidToken = EProto ReasonInvalidToken False None"

definition ErrScopeMismatch :: go_error where
  "ErrScopeMismatch = EProto ReasonScopeMismatch False None"

definition ErrExpired :: go_error where
  "ErrExpired = EProto ReasonExpired False None"

definition ErrInvalidSolutions :: go_error where
  "ErrInvalidSolutions = EProto ReasonInvalidSolutions False None"

definition ErrInvalidSolution :: go_error where
  "ErrInvalidSolution = EProto ReasonInvalidSolution False None"

definition ErrAlreadyRedeemed :: go_error where
  "ErrAlreadyRedeemed = EProto ReasonAlreadyRedeemed False None"

definition ErrNonceStore :: go_error where
  "ErrNonceStore = EProto ReasonNonceStoreError False None"

definition ErrInstrCorrupted :: go_error where
  "ErrInstrCorrupted = EProto ReasonInstrCorrupted True None"

definition ErrInstrExpired :: go_error where
  "ErrInstrExpired = EProto ReasonInstrExpired True None"

definition ErrInstrAutomated :: go_error where
  "ErrInstrAutomated = EProto ReasonInstrAutomated True None"

definition ErrInstrTimeout :: go_error where
  "ErrInstrTimeout = EProto ReasonInstrTimeout True None"

definition ErrInstrMissing :: go_error where
  "ErrInstrMissing = EProto ReasonInstrMissing True None"

definition ErrInstrFailed :: go_error where
  "ErrInstrFailed = EProto ReasonInstrFailed True None"

definition ErrChallengeNotFound :: go_error where
  "ErrChallengeNotFound = EProto ReasonChallengeNotFound False None"

section \<open>Walking a chain of errors\<close>

text \<open>\<open>Error.Error\<close>, and the text of the wrapping errors of the standard library.\<close>

fun error_text :: "go_error \<Rightarrow> string" where
  "error_text (EProto reason instr None) = ''capgo: '' @ reason"
| "error_text (EProto reason instr (Some cause)) = ''capgo: '' @ reason @ '': '' @ error_text cause"
| "error_text (ESentinel msg) = msg"
| "error_text (EJoin []) = []"
| "error_text (EJoin [e]) = error_text e"
| "error_text (EJoin (e # es)) = error_text e @ [CHR 0x0A] @ error_text (EJoin es)"
| "error_text (EWrap pre e post) = pre @ error_text e @ post"
| "error_text (EOther msg) = msg"
| "error_text (EPanic msg) = msg"

text \<open>\<open>Error.Unwrap\<close> and the \<open>Unwrap\<close> methods of \<open>errors.Join\<close> and \<open>fmt.Errorf\<close>.\<close>

fun unwrap :: "go_error \<Rightarrow> go_error list" where
  "unwrap (EProto reason instr cause) = (case cause of None \<Rightarrow> [] | Some e \<Rightarrow> [e])"
| "unwrap (EJoin es) = es"
| "unwrap (EWrap pre e post) = [e]"
| "unwrap e = []"

text \<open>\<open>Error.Is\<close>: the same reason, whatever the flag and the cause.\<close>

fun error_is :: "go_error \<Rightarrow> go_error \<Rightarrow> bool" where
  "error_is (EProto r i c) target = (case target of EProto r' _ _ \<Rightarrow> r' = r | _ \<Rightarrow> False)"
| "error_is e target = False"

lemma size_member: "c \<in> set es \<Longrightarrow> size (c :: go_error) < Suc (size_list size es)"
  by (induction es) auto

lemma unwrap_size [termination_simp]: "c \<in> set (unwrap e) \<Longrightarrow> size c < size e"
  by (cases e) (auto simp: size_member split: option.splits)

text \<open>\<open>errors.Is\<close>: depth first over the chain; sentinels compare by identity.\<close>

function errors_Is :: "go_error \<Rightarrow> go_error \<Rightarrow> bool" where
  "errors_Is err target \<longleftrightarrow>
     err = target \<or> error_is err target \<or> list_ex (\<lambda>e. errors_Is e target) (unwrap err)"
  by pat_completeness auto
termination
  by (relation "measure (\<lambda>(e, t). size e)") (auto simp: unwrap_size)

declare errors_Is.simps [simp del]

text \<open>\<open>errors.As(err, &e)\<close> with \<open>e *Error\<close>: the first protocol error, depth first.\<close>

fun first_some :: "('a \<Rightarrow> 'b option) \<Rightarrow> 'a list \<Rightarrow> 'b option" where
  "first_some f [] = None"
| "first_some f (x # xs) = (case f x of Some y \<Rightarrow> Some y | None \<Rightarrow> first_some f xs)"

lemma first_some_cong [fundef_cong]:
  "xs = ys \<Longrightarrow> (\<And>x. x \<in> set ys \<Longrightarrow> f x = g x) \<Longrightarrow> first_some f xs = first_some g ys"
  by (induction xs arbitrary: ys) (auto split: option.splits)

function errors_As :: "go_error \<Rightarrow> (string \<times> bool \<times> go_error option) option" where
  "errors_As err =
     (case err of
        EProto r i c \<Rightarrow> Some (r, i, c)
      | _ \<Rightarrow> first_some errors_As (unwrap err))"
  by pat_completeness auto
termination
  by (relation "measure size") (auto simp: size_member)

declare errors_As.simps [simp del]

definition ReasonOf :: "go_error \<Rightarrow> string" where
  "ReasonOf err = (case errors_As err of Some (r, _, _) \<Rightarrow> r | None \<Rightarrow> [])"

section \<open>Lemmas\<close>

lemma errors_As_EProto [simp]: "errors_As (EProto r i c) = Some (r, i, c)"
  by (simp add: errors_As.simps)

lemma ReasonOf_EProto [simp]: "ReasonOf (EProto r i c) = r"
  by (simp add: ReasonOf_def)

lemma ReasonOf_fail [simp]: "ReasonOf (fail r) = r" "ReasonOf (failInstr r) = r" "ReasonOf (storeErr r e) = r"
  by (simp_all add: fail_def failInstr_def storeErr_def)

lemma errors_Is_refl [simp]: "errors_Is e e"
  by (subst errors_Is.simps) simp

lemma errors_Is_proto: "errors_Is (EProto r i None) (EProto r' i' c') \<longleftrightarrow> r = r'"
  by (subst errors_Is.simps) auto

lemma storeErr_Is_store: "errors_Is (storeErr r e) ErrStore"
  by (subst errors_Is.simps) (simp add: storeErr_def errors_Is.simps [of "EJoin _"])

lemma fail_not_store: "\<not> errors_Is (fail r) ErrStore" "\<not> errors_Is (failInstr r) ErrStore"
  by (subst errors_Is.simps; simp add: fail_def failInstr_def ErrStore_def)+

lemma configErr_Is: "errors_Is (configErr m) ErrConfig"
  by (subst errors_Is.simps) (simp add: configErr_def)

lemma configErr_As: "errors_As (configErr m) = None"
  by (simp add: configErr_def errors_As.simps ErrConfig_def)

text \<open>An error built by \<open>fail\<close> or \<open>failInstr\<close>: a protocol rejection, not a storage failure.\<close>

definition is_protocol :: "go_error \<Rightarrow> bool" where
  "is_protocol e \<longleftrightarrow> (case e of EProto _ _ None \<Rightarrow> True | _ \<Rightarrow> False)"

lemma is_protocol_fail [simp]: "is_protocol (fail r)" "is_protocol (failInstr r)" "\<not> is_protocol (storeErr r e)"
  by (simp_all add: is_protocol_def fail_def failInstr_def storeErr_def)

end
