(* ===== verification/Sha256.thy ===== *)
theory Sha256
  imports Prelude
begin

text \<open>
  \<open>crypto/sha256\<close> and \<open>crypto/hmac\<close> of the standard library, which \<open>crypto.go\<close> calls:
  the SHA-256 function of FIPS 180-4 on byte lists, and HMAC over it (64-byte blocks, 32-byte
  digests).
\<close>

section \<open>SHA-256\<close>

definition sha_k :: "u32 list" where
  "sha_k =
   [1116352408, 1899447441, 3049323471, 3921009573, 961987163, 1508970993,
    2453635748, 2870763221, 3624381080, 310598401, 607225278, 1426881987,
    1925078388, 2162078206, 2614888103, 3248222580, 3835390401, 4022224774,
    264347078, 604807628, 770255983, 1249150122, 1555081692, 1996064986,
    2554220882, 2821834349, 2952996808, 3210313671, 3336571891, 3584528711,
    113926993, 338241895, 666307205, 773529912, 1294757372, 1396182291,
    1695183700, 1986661051, 2177026350, 2456956037, 2730485921, 2820302411,
    3259730800, 3345764771, 3516065817, 3600352804, 4094571909, 275423344,
    430227734, 506948616, 659060556, 883997877, 958139571, 1322822218,
    1537002063, 1747873779, 1955562222, 2024104815, 2227730452, 2361852424,
    2428436474, 2756734187, 3204031479, 3329325298]"

definition ror32 :: "nat \<Rightarrow> u32 \<Rightarrow> u32" where
  "ror32 n x = drop_bit n x OR push_bit (32 - n) x"

definition small_sigma0 :: "u32 \<Rightarrow> u32" where
  "small_sigma0 x = ror32 7 x XOR ror32 18 x XOR drop_bit 3 x"

definition small_sigma1 :: "u32 \<Rightarrow> u32" where
  "small_sigma1 x = ror32 17 x XOR ror32 19 x XOR drop_bit 10 x"

definition big_sigma0 :: "u32 \<Rightarrow> u32" where
  "big_sigma0 x = ror32 2 x XOR ror32 13 x XOR ror32 22 x"

definition big_sigma1 :: "u32 \<Rightarrow> u32" where
  "big_sigma1 x = ror32 6 x XOR ror32 11 x XOR ror32 25 x"

definition choose32 :: "u32 \<Rightarrow> u32 \<Rightarrow> u32 \<Rightarrow> u32" where
  "choose32 x y z = (x AND y) XOR (NOT x AND z)"

definition majority32 :: "u32 \<Rightarrow> u32 \<Rightarrow> u32 \<Rightarrow> u32" where
  "majority32 x y z = (x AND y) XOR (x AND z) XOR (y AND z)"

record sha_state =
  hA :: u32
  hB :: u32
  hC :: u32
  hD :: u32
  hE :: u32
  hF :: u32
  hG :: u32
  hH :: u32

definition sha_init :: sha_state where
  "sha_init = \<lparr>hA = 1779033703, hB = 3144134277, hC = 1013904242, hD = 2773480762,
               hE = 1359893119, hF = 2600822924, hG = 528734635, hH = 1541459225\<rparr>"

definition sha_round :: "u32 \<Rightarrow> sha_state \<Rightarrow> sha_state" where
  "sha_round kw s =
     (let t1 = hH s + big_sigma1 (hE s) + choose32 (hE s) (hF s) (hG s) + kw;
          t2 = big_sigma0 (hA s) + majority32 (hA s) (hB s) (hC s)
      in \<lparr>hA = t1 + t2, hB = hA s, hC = hB s, hD = hC s, hE = hD s + t1, hF = hE s, hG = hF s, hH = hG s\<rparr>)"

text \<open>The message schedule is a window of sixteen words that slides by one word a round.\<close>

definition sha_slide :: "u32 list \<Rightarrow> u32 list" where
  "sha_slide w = tl w @ [small_sigma1 (w ! 14) + w ! 9 + small_sigma0 (w ! 1) + w ! 0]"

fun sha_rounds :: "u32 list \<Rightarrow> u32 list \<Rightarrow> sha_state \<Rightarrow> sha_state" where
  "sha_rounds [] w s = s"
| "sha_rounds (k # ks) w s = sha_rounds ks (sha_slide w) (sha_round (k + w ! 0) s)"

definition sha_compress :: "sha_state \<Rightarrow> u32 list \<Rightarrow> sha_state" where
  "sha_compress s w =
     (let r = sha_rounds sha_k w s
      in \<lparr>hA = hA s + hA r, hB = hB s + hB r, hC = hC s + hC r, hD = hD s + hD r,
          hE = hE s + hE r, hF = hF s + hF r, hG = hG s + hG r, hH = hH s + hH r\<rparr>)"

definition be32 :: "byte list \<Rightarrow> u32" where
  "be32 bs = foldl (\<lambda>a b. a * 256 + ucast b) 0 bs"

definition be32_bytes :: "u32 \<Rightarrow> byte list" where
  "be32_bytes w = [ucast (drop_bit 24 w), ucast (drop_bit 16 w), ucast (drop_bit 8 w), ucast w]"

definition be64_bytes :: "nat \<Rightarrow> byte list" where
  "be64_bytes n = map (\<lambda>i. word_of_nat (n div 256 ^ i)) [7, 6, 5, 4, 3, 2, 1, 0]"

definition sha_pad :: "byte list \<Rightarrow> byte list" where
  "sha_pad m = m @ 0x80 # replicate ((119 - length m mod 64) mod 64) 0 @ be64_bytes (8 * length m)"

fun chunks :: "nat \<Rightarrow> 'a list \<Rightarrow> 'a list list" where
  "chunks n [] = []"
| "chunks n (x # xs) = (x # take (n - 1) xs) # chunks n (drop (n - 1) xs)"

definition sha256 :: "byte list \<Rightarrow> byte list" where
  "sha256 m =
     (let r = foldl (\<lambda>s blk. sha_compress s (map be32 (chunks 4 blk))) sha_init (chunks 64 (sha_pad m))
      in concat (map be32_bytes [hA r, hB r, hC r, hD r, hE r, hF r, hG r, hH r]))"

lemma length_sha256 [simp, sizes]: "length (sha256 m) = 32"
  by (simp add: sha256_def be32_bytes_def Let_def)

lemma sha_pad_blocks: "length (sha_pad m) mod 64 = 0"
proof -
  have "length (sha_pad m) = length m + 9 + (119 - length m mod 64) mod 64"
    by (simp add: sha_pad_def be64_bytes_def)
  moreover have "(n + 9 + (119 - n mod 64) mod 64) mod 64 = 0" for n :: nat
  proof -
    have "n mod 64 < 64" by simp
    then have "n + 9 + (119 - n mod 64) = (n - n mod 64) + 128"
      using mod_less_eq_dividend [of n 64] by linarith
    also have "\<dots> = 64 * (n div 64 + 2)" by (simp add: minus_mod_eq_mult_div)
    finally have "(n + 9 + (119 - n mod 64)) mod 64 = 0" by simp
    then show ?thesis by (simp only: mod_add_right_eq)
  qed
  ultimately show ?thesis by simp
qed

section \<open>HMAC\<close>

definition hmac_block :: "byte list \<Rightarrow> byte list" where
  "hmac_block key = (let k = (if length key > 64 then sha256 key else key) in k @ replicate (64 - length k) 0)"

definition hmac_sha256 :: "byte list \<Rightarrow> byte list \<Rightarrow> byte list" where
  "hmac_sha256 key msg =
     (let k = hmac_block key
      in sha256 (map (\<lambda>b. b XOR 0x5c) k @ sha256 (map (\<lambda>b. b XOR 0x36) k @ msg)))"

lemma length_hmac [simp, sizes]: "length (hmac_sha256 key msg) = 32"
  by (simp add: hmac_sha256_def Let_def)

lemma length_hmac_block [simp, sizes]: "length (hmac_block key) = 64"
  by (auto simp: hmac_block_def Let_def)

end
