(* ===== verification/Base64.thy ===== *)
theory Base64
  imports Prelude
begin

text \<open>
  \<open>encoding/base64\<close> of the standard library: the URL and standard alphabets, encoding without
  padding (\<open>RawURLEncoding\<close>) and with it (\<open>StdEncoding\<close>), and the decoder of the unpadded
  form. As Go's decoder it is not strict: it skips carriage returns and line feeds, and ignores
  the unused low bits of the last digit.
\<close>

definition b64_common :: string where
  "b64_common = ''ABCDEFGHIJKLMNOPQRSTUVWXYZabcdefghijklmnopqrstuvwxyz0123456789''"

definition url_alphabet :: string where
  "url_alphabet = b64_common @ ''-_''"

definition std_alphabet :: string where
  "std_alphabet = b64_common @ ''+/''"

fun sextets :: "nat list \<Rightarrow> nat list" where
  "sextets [] = []"
| "sextets [a] = [a div 4, a mod 4 * 16]"
| "sextets [a, b] = [a div 4, a mod 4 * 16 + b div 16, b mod 16 * 4]"
| "sextets (a # b # c # r) =
     a div 4 # (a mod 4 * 16 + b div 16) # (b mod 16 * 4 + c div 64) # (c mod 64) # sextets r"

fun unsextets :: "nat list \<Rightarrow> nat list option" where
  "unsextets [] = Some []"
| "unsextets [p] = None"
| "unsextets [p, q] = Some [p * 4 + q div 16]"
| "unsextets [p, q, r] = Some [p * 4 + q div 16, q mod 16 * 16 + r div 4]"
| "unsextets (p # q # r # s # t) =
     map_option (\<lambda>bs. (p * 4 + q div 16) # (q mod 16 * 16 + r div 4) # (r mod 4 * 64 + s) # bs) (unsextets t)"

definition b64_raw_encode :: "string \<Rightarrow> byte list \<Rightarrow> string" where
  "b64_raw_encode alphabet bs = map (\<lambda>v. alphabet ! v) (sextets (map unat bs))"

definition raw_url_encode :: "byte list \<Rightarrow> string" where
  "raw_url_encode bs = b64_raw_encode url_alphabet bs"

definition std_encode :: "byte list \<Rightarrow> string" where
  "std_encode bs =
     b64_raw_encode std_alphabet bs @ replicate ((3 - length bs mod 3) mod 3) (CHR ''='')"

text \<open>The value of a digit: its index in the alphabet.\<close>

fun index_of :: "char \<Rightarrow> string \<Rightarrow> nat option" where
  "index_of c [] = None"
| "index_of c (x # xs) = (if x = c then Some 0 else map_option Suc (index_of c xs))"

fun map_opt :: "('a \<Rightarrow> 'b option) \<Rightarrow> 'a list \<Rightarrow> 'b list option" where
  "map_opt f [] = Some []"
| "map_opt f (x # xs) =
     (case f x of None \<Rightarrow> None | Some y \<Rightarrow> map_option (\<lambda>ys. y # ys) (map_opt f xs))"

definition is_newline :: "char \<Rightarrow> bool" where
  "is_newline c \<longleftrightarrow> c = CHR 0x0A \<or> c = CHR 0x0D"

definition raw_url_decode :: "string \<Rightarrow> byte list option" where
  "raw_url_decode s =
     (case map_opt (\<lambda>c. index_of c url_alphabet) (filter (\<lambda>c. \<not> is_newline c) s) of
        None \<Rightarrow> None
      | Some vs \<Rightarrow> map_option (map word_of_nat) (unsextets vs))"

section \<open>Lemmas\<close>

lemma sextets_less: "list_all (\<lambda>a. a < 256) as \<Longrightarrow> v \<in> set (sextets as) \<Longrightarrow> v < 64"
  by (induction as rule: sextets.induct) auto

lemma unsextets_sextets [simp]: "list_all (\<lambda>a. a < 256) as \<Longrightarrow> unsextets (sextets as) = Some as"
proof (induction as rule: sextets.induct)
  case (4 a b c r)
  have "b div 16 < 16" "c div 64 < 4" using 4 by auto
  then show ?case using 4 by simp
qed auto

lemma length_alphabets [simp]: "length url_alphabet = 64" "length std_alphabet = 64"
  by (simp_all add: url_alphabet_def std_alphabet_def b64_common_def)

lemma distinct_url: "distinct url_alphabet"
  by (simp add: url_alphabet_def b64_common_def)

lemma index_of_nth: "distinct xs \<Longrightarrow> i < length xs \<Longrightarrow> index_of (xs ! i) xs = Some i"
proof (induction xs arbitrary: i)
  case Nil
  then show ?case by simp
next
  case (Cons x xs)
  then show ?case by (cases i) auto
qed

lemma map_opt_map: "(\<And>x. x \<in> set xs \<Longrightarrow> f (g x) = Some (h x)) \<Longrightarrow> map_opt f (map g xs) = Some (map h xs)"
  by (induction xs) auto

lemma url_chars: "c \<in> set url_alphabet \<Longrightarrow> \<not> is_newline c \<and> c \<noteq> CHR ''.'' \<and> c \<noteq> CHR ''='' \<and> of_char c < (128::nat)"
  by (auto simp: url_alphabet_def b64_common_def is_newline_def)

lemma set_raw_url_encode: "set (raw_url_encode bs) \<subseteq> set url_alphabet"
proof
  fix c
  assume "c \<in> set (raw_url_encode bs)"
  then obtain v where v: "v \<in> set (sextets (map unat bs))" "c = url_alphabet ! v"
    by (auto simp: raw_url_encode_def b64_raw_encode_def)
  have "list_all (\<lambda>a. a < 256) (map unat bs)" by (simp add: list_all_iff)
  then have "v < 64" using v(1) sextets_less by blast
  then show "c \<in> set url_alphabet" using v(2) by simp
qed

lemma raw_url_decode_encode [simp, codec]: "raw_url_decode (raw_url_encode bs) = Some bs"
proof -
  have small: "list_all (\<lambda>a. a < 256) (map unat bs)" by (simp add: list_all_iff)
  have "filter (\<lambda>c. \<not> is_newline c) (raw_url_encode bs) = raw_url_encode bs"
    using set_raw_url_encode url_chars by (intro filter_True) blast
  moreover have "map_opt (\<lambda>c. index_of c url_alphabet) (raw_url_encode bs) = Some (sextets (map unat bs))"
    unfolding raw_url_encode_def b64_raw_encode_def
    using map_opt_map [of "sextets (map unat bs)" "\<lambda>c. index_of c url_alphabet" "\<lambda>v. url_alphabet ! v" "\<lambda>v. v"]
      sextets_less [OF small] index_of_nth [OF distinct_url] by simp
  ultimately show ?thesis using small by (simp add: raw_url_decode_def comp_def)
qed

lemma sextets_Nil_iff [simp]: "sextets as = [] \<longleftrightarrow> as = []"
  by (cases as rule: sextets.cases) auto

lemma raw_url_encode_Nil_iff [simp]: "raw_url_encode bs = [] \<longleftrightarrow> bs = []"
  by (simp add: raw_url_encode_def b64_raw_encode_def)

lemma raw_url_encode_no_dot: "CHR ''.'' \<notin> set (raw_url_encode bs)"
  using set_raw_url_encode url_chars by blast

lemma raw_url_encode_no_eq: "CHR ''='' \<notin> set (raw_url_encode bs)"
  using set_raw_url_encode url_chars by blast

end
