(* ===== verification/Aes_Gcm.thy ===== *)
theory Aes_Gcm
  imports Prelude
begin

text \<open>
  \<open>crypto/aes\<close> and \<open>crypto/cipher\<close>'s GCM of the standard library, which \<open>crypto.go\<close> calls:
  AES-256 (FIPS 197) and Galois/counter mode (SP 800-38D) with a 96-bit nonce, a 128-bit tag
  and no additional data. A block is a \<open>128 word\<close>, most significant byte first.
\<close>

type_synonym block = "128 word"

definition block_bytes :: "block \<Rightarrow> byte list" where
  "block_bytes w = map (\<lambda>i. ucast (drop_bit (8 * i) w)) [15, 14, 13, 12, 11, 10, 9, 8, 7, 6, 5, 4, 3, 2, 1, 0]"

definition bytes_block :: "byte list \<Rightarrow> block" where
  "bytes_block bs = foldl (\<lambda>a b. push_bit 8 a OR ucast b) 0 bs"

lemma length_block_bytes [simp, sizes]: "length (block_bytes w) = 16"
  by (simp add: block_bytes_def)

section \<open>AES-256\<close>

definition aes_sbox :: "byte list" where
  "aes_sbox =
   [99, 124, 119, 123, 242, 107, 111, 197, 48, 1, 103, 43, 254, 215, 171, 118,
    202, 130, 201, 125, 250, 89, 71, 240, 173, 212, 162, 175, 156, 164, 114, 192,
    183, 253, 147, 38, 54, 63, 247, 204, 52, 165, 229, 241, 113, 216, 49, 21,
    4, 199, 35, 195, 24, 150, 5, 154, 7, 18, 128, 226, 235, 39, 178, 117,
    9, 131, 44, 26, 27, 110, 90, 160, 82, 59, 214, 179, 41, 227, 47, 132,
    83, 209, 0, 237, 32, 252, 177, 91, 106, 203, 190, 57, 74, 76, 88, 207,
    208, 239, 170, 251, 67, 77, 51, 133, 69, 249, 2, 127, 80, 60, 159, 168,
    81, 163, 64, 143, 146, 157, 56, 245, 188, 182, 218, 33, 16, 255, 243, 210,
    205, 12, 19, 236, 95, 151, 68, 23, 196, 167, 126, 61, 100, 93, 25, 115,
    96, 129, 79, 220, 34, 42, 144, 136, 70, 238, 184, 20, 222, 94, 11, 219,
    224, 50, 58, 10, 73, 6, 36, 92, 194, 211, 172, 98, 145, 149, 228, 121,
    231, 200, 55, 109, 141, 213, 78, 169, 108, 86, 244, 234, 101, 122, 174, 8,
    186, 120, 37, 46, 28, 166, 180, 198, 232, 221, 116, 31, 75, 189, 139, 138,
    112, 62, 181, 102, 72, 3, 246, 14, 97, 53, 87, 185, 134, 193, 29, 158,
    225, 248, 152, 17, 105, 217, 142, 148, 155, 30, 135, 233, 206, 85, 40, 223,
    140, 161, 137, 13, 191, 230, 66, 104, 65, 153, 45, 15, 176, 84, 187, 22]"

definition sub_byte :: "byte \<Rightarrow> byte" where
  "sub_byte b = aes_sbox ! unat b"

definition xtime :: "byte \<Rightarrow> byte" where
  "xtime b = (if bit b 7 then push_bit 1 b XOR 0x1b else push_bit 1 b)"

type_synonym aes_word = "byte list"

definition xor_bytes :: "byte list \<Rightarrow> byte list \<Rightarrow> byte list" where
  "xor_bytes xs ys = map2 (XOR) xs ys"

definition rot_word :: "aes_word \<Rightarrow> aes_word" where
  "rot_word w = tl w @ [hd w]"

text \<open>
  The key schedule of a 256-bit key: eight words of key, and each further word from the one
  before it and the one eight places back. The list grows at its front (latest first).
\<close>

fun expand_words :: "nat \<Rightarrow> nat \<Rightarrow> byte \<Rightarrow> aes_word list \<Rightarrow> aes_word list" where
  "expand_words 0 i rcon ws = ws"
| "expand_words (Suc n) i rcon ws =
     (let prev = ws ! 0; back = ws ! 7 in
      if i mod 8 = 0 then
        expand_words n (Suc i) (xtime rcon) (xor_bytes back (xor_bytes (map sub_byte (rot_word prev)) [rcon, 0, 0, 0]) # ws)
      else if i mod 8 = 4 then
        expand_words n (Suc i) rcon (xor_bytes back (map sub_byte prev) # ws)
      else expand_words n (Suc i) rcon (xor_bytes back prev # ws))"

fun groups4 :: "'a list \<Rightarrow> 'a list list" where
  "groups4 (a # b # c # d # r) = [a, b, c, d] # groups4 r"
| "groups4 _ = []"

definition round_keys :: "byte list \<Rightarrow> byte list list" where
  "round_keys key = map concat (groups4 (rev (expand_words 52 8 1 (rev (groups4 key)))))"

text \<open>The state is sixteen bytes, column by column.\<close>

definition shift_rows :: "byte list \<Rightarrow> byte list" where
  "shift_rows s = map (\<lambda>i. s ! i) [0, 5, 10, 15, 4, 9, 14, 3, 8, 13, 2, 7, 12, 1, 6, 11]"

fun mix_column :: "byte list \<Rightarrow> byte list" where
  "mix_column [a, b, c, d] =
     [xtime a XOR xtime b XOR b XOR c XOR d,
      a XOR xtime b XOR xtime c XOR c XOR d,
      a XOR b XOR xtime c XOR xtime d XOR d,
      xtime a XOR a XOR b XOR c XOR xtime d]"
| "mix_column s = s"

definition mix_columns :: "byte list \<Rightarrow> byte list" where
  "mix_columns s = concat (map mix_column (groups4 s))"

fun aes_rounds :: "byte list list \<Rightarrow> byte list \<Rightarrow> byte list" where
  "aes_rounds [] s = s"
| "aes_rounds [k] s = xor_bytes (shift_rows (map sub_byte s)) k"
| "aes_rounds (k # ks) s = aes_rounds ks (xor_bytes (mix_columns (shift_rows (map sub_byte s))) k)"

definition aes_encrypt :: "byte list \<Rightarrow> block \<Rightarrow> block" where
  "aes_encrypt key x =
     (case round_keys key of
        [] \<Rightarrow> x
      | k # ks \<Rightarrow> bytes_block (aes_rounds ks (xor_bytes (block_bytes x) k)))"

section \<open>Galois/counter mode\<close>

text \<open>Multiplication in the field, bit by bit from the most significant bit of \<open>x\<close>.\<close>

fun gf_mult :: "nat \<Rightarrow> block \<Rightarrow> block \<Rightarrow> block \<Rightarrow> block" where
  "gf_mult 0 x v z = z"
| "gf_mult (Suc n) x v z =
     gf_mult n x (if bit v 0 then drop_bit 1 v XOR push_bit 120 0xe1 else drop_bit 1 v)
       (if bit x n then z XOR v else z)"

fun ghash_blocks :: "block \<Rightarrow> byte list \<Rightarrow> nat \<Rightarrow> block \<Rightarrow> block" where
  "ghash_blocks h bs 0 y = y"
| "ghash_blocks h bs (Suc n) y =
     ghash_blocks h (drop 16 bs) n
       (gf_mult 128 (y XOR bytes_block (take 16 bs @ replicate (16 - length (take 16 bs)) 0)) h 0)"

definition ghash :: "block \<Rightarrow> byte list \<Rightarrow> block" where
  "ghash h c =
     gf_mult 128 (ghash_blocks h c ((length c + 15) div 16) 0 XOR word_of_nat (8 * length c)) h 0"

definition gcm_j0 :: "byte list \<Rightarrow> block" where
  "gcm_j0 iv = bytes_block (iv @ [0, 0, 0, 1])"

text \<open>The counter is the low 32 bits and wraps within them.\<close>

definition inc32 :: "block \<Rightarrow> block" where
  "inc32 x = push_bit 32 (drop_bit 32 x) OR take_bit 32 (x + 1)"

fun ctr_stream :: "byte list \<Rightarrow> block \<Rightarrow> nat \<Rightarrow> byte list" where
  "ctr_stream key ctr 0 = []"
| "ctr_stream key ctr (Suc n) = block_bytes (aes_encrypt key ctr) @ ctr_stream key (inc32 ctr) n"

definition gctr :: "byte list \<Rightarrow> byte list \<Rightarrow> byte list \<Rightarrow> byte list" where
  "gctr key iv data = xor_bytes data (ctr_stream key (inc32 (gcm_j0 iv)) ((length data + 15) div 16))"

definition gcm_tag :: "byte list \<Rightarrow> byte list \<Rightarrow> byte list \<Rightarrow> byte list" where
  "gcm_tag key iv c =
     block_bytes (ghash (aes_encrypt key 0) c XOR aes_encrypt key (gcm_j0 iv))"

text \<open>\<open>Seal(nil, iv, plaintext, nil)\<close> and \<open>Open(nil, iv, sealed, nil)\<close>.\<close>

definition gcm_seal :: "byte list \<Rightarrow> byte list \<Rightarrow> byte list \<Rightarrow> byte list" where
  "gcm_seal key iv plaintext = (let c = gctr key iv plaintext in c @ gcm_tag key iv c)"

definition gcm_open :: "byte list \<Rightarrow> byte list \<Rightarrow> byte list \<Rightarrow> byte list option" where
  "gcm_open key iv sealed =
     (if length sealed < 16 then None
      else let n = length sealed - 16; c = take n sealed; tag = drop n sealed
           in if tag = gcm_tag key iv c then Some (gctr key iv c) else None)"

section \<open>Lemmas\<close>

lemma length_ctr_stream [simp, sizes]: "length (ctr_stream key ctr n) = 16 * n"
  by (induction n arbitrary: ctr) auto

lemma length_xor_bytes [simp, sizes]: "length (xor_bytes xs ys) = min (length xs) (length ys)"
  by (simp add: xor_bytes_def)

lemma length_gctr [simp, sizes]: "length (gctr key iv data) = length data"
proof -
  have "length data \<le> 16 * ((length data + 15) div 16)" by simp
  then show ?thesis by (simp add: gctr_def min_def)
qed

lemma xor_bytes_involution: "length xs \<le> length ys \<Longrightarrow> xor_bytes (xor_bytes xs ys) ys = xs"
proof (induction xs arbitrary: ys)
  case Nil
  then show ?case by (simp add: xor_bytes_def)
next
  case (Cons x xs)
  then show ?case by (cases ys) (auto simp: xor_bytes_def xor.assoc)
qed

lemma gctr_involution [simp, codec]: "gctr key iv (gctr key iv data) = data"
proof -
  have "gctr key iv (gctr key iv data) = xor_bytes (gctr key iv data)
      (ctr_stream key (inc32 (gcm_j0 iv)) ((length data + 15) div 16))"
    by (subst gctr_def) simp
  then show ?thesis by (simp add: gctr_def xor_bytes_involution)
qed

lemma length_gcm_tag [simp, sizes]: "length (gcm_tag key iv c) = 16"
  by (simp add: gcm_tag_def)

lemma length_gcm_seal [simp, sizes]: "length (gcm_seal key iv p) = length p + 16"
  by (simp add: gcm_seal_def Let_def)

lemma gcm_open_seal [simp, codec]: "gcm_open key iv (gcm_seal key iv p) = Some p"
  by (simp add: gcm_open_def gcm_seal_def Let_def)

text \<open>What opens carries the tag of its own ciphertext.\<close>

lemma gcm_open_Some:
  assumes "gcm_open key iv sealed = Some p"
  shows "sealed = gcm_seal key iv p"
proof -
  let ?n = "length sealed - 16"
  from assms have tag: "drop ?n sealed = gcm_tag key iv (take ?n sealed)"
    and p: "p = gctr key iv (take ?n sealed)"
    by (auto simp: gcm_open_def Let_def split: if_splits)
  have "gcm_seal key iv p = take ?n sealed @ drop ?n sealed"
    by (simp add: gcm_seal_def Let_def p tag)
  then show ?thesis by simp
qed

end
