(* ===== verification/Crypto.thy ===== *)
theory Crypto
  imports Errors Go_Text Sha256 Base64 Aes_Gcm
begin

text \<open>
  \<open>crypto.go\<close>: random hexadecimal strings, the HS256 token signer and verifier, the
  AES-256-GCM envelope \<open>base64url(iv || tag || ciphertext)\<close>, and the hexadecimal prefix test of
  the proof of work. An \<open>io.Reader\<close> of entropy is the list of bytes it still has to give; a
  reader that runs out makes \<open>io.ReadFull\<close> fail.
\<close>

section \<open>Definitions\<close>

definition readFull :: "nat \<Rightarrow> byte list \<Rightarrow> (go_error + byte list) \<times> byte list" where
  "readFull n random =
     (if length random < n then (Inl (EOther ''unexpected EOF''), [])
      else (Inr (take n random), drop n random))"

definition jwtHeaderJSON :: string where
  "jwtHeaderJSON = ''{\"alg\":\"HS256\",\"typ\":\"JWT\"}''"

definition jwtHeaderB64 :: string where
  "jwtHeaderB64 = raw_url_encode (str_bytes jwtHeaderJSON)"

definition randomHex :: "byte list \<Rightarrow> int \<Rightarrow> (go_error + string) \<times> byte list" where
  "randomHex random byteCount =
     (if byteCount < 0 then (Inl (EPanic ''makeslice: len out of range''), random)
      else (case readFull (nat byteCount) random of
              (Inl err, rest) \<Rightarrow> (Inl err, rest)
            | (Inr raw, rest) \<Rightarrow> (Inr (hex_encode raw), rest)))"

definition sha256Sum :: "string \<Rightarrow> byte list" where
  "sha256Sum input = sha256 (str_bytes input)"

definition sha256Hex :: "string \<Rightarrow> string" where
  "sha256Hex input = hex_encode (sha256 (str_bytes input))"

definition hmacSHA256 :: "byte list \<Rightarrow> byte list \<Rightarrow> byte list" where
  "hmacSHA256 key data = hmac_sha256 key data"

definition jwtSign :: "byte list \<Rightarrow> byte list \<Rightarrow> string" where
  "jwtSign payloadJSON secret =
     (let signingInput = jwtHeaderB64 @ ''.'' @ raw_url_encode payloadJSON;
          sig = hmacSHA256 secret (str_bytes signingInput)
      in signingInput @ ''.'' @ raw_url_encode sig)"

definition jwtVerify :: "string \<Rightarrow> byte list \<Rightarrow> (byte list \<times> string) option" where
  "jwtVerify token secret =
     (case split_on (CHR ''.'') token of
        [p0, p1, p2] \<Rightarrow>
          if p0 = [] \<or> p1 = [] \<or> p2 = [] then None
          else (case raw_url_decode p2 of
                  None \<Rightarrow> None
                | Some sig \<Rightarrow>
                    if length sig \<noteq> 32 then None
                    else if sig \<noteq> hmacSHA256 secret (str_bytes (p0 @ ''.'' @ p1)) then None
                    else (case raw_url_decode p1 of
                            None \<Rightarrow> None
                          | Some payload \<Rightarrow> Some (payload, hex_encode sig)))
      | _ \<Rightarrow> None)"

definition jwtSignatureHex :: "string \<Rightarrow> string option" where
  "jwtSignatureHex token =
     (if \<not> contains_char token (CHR ''.'') then None
      else map_option hex_encode (raw_url_decode (rev (takeWhile (\<lambda>c. c \<noteq> CHR ''.'') (rev token)))))"

definition deriveGCMKey :: "byte list \<Rightarrow> string \<Rightarrow> byte list" where
  "deriveGCMKey secret info = hmacSHA256 secret (str_bytes info)"

text \<open>\<open>aes.NewCipher\<close> accepts keys of 16, 24 and 32 bytes; only the last length arises.\<close>

definition aesNewCipher :: "byte list \<Rightarrow> go_error + byte list" where
  "aesNewCipher key =
     (if length key \<in> {16, 24, 32} then Inr key else Inl (EOther ''crypto/aes: invalid key size''))"

definition encryptGCM :: "byte list \<Rightarrow> string \<Rightarrow> byte list \<Rightarrow> byte list \<Rightarrow> (go_error + string) \<times> byte list" where
  "encryptGCM secret info plaintext random =
     (case aesNewCipher (deriveGCMKey secret info) of
        Inl err \<Rightarrow> (Inl err, random)
      | Inr key \<Rightarrow>
          (case readFull 12 random of
             (Inl err, rest) \<Rightarrow> (Inl err, rest)
           | (Inr iv, rest) \<Rightarrow>
               let sealed = gcm_seal key iv plaintext;
                   tagStart = length sealed - 16;
                   packed = iv @ drop tagStart sealed @ take tagStart sealed
               in (Inr (raw_url_encode packed), rest)))"

definition decodeBase64URL :: "string \<Rightarrow> byte list option" where
  "decodeBase64URL value = raw_url_decode (trim_right_char (CHR ''='') value)"

definition decryptGCM :: "byte list \<Rightarrow> string \<Rightarrow> string \<Rightarrow> byte list option" where
  "decryptGCM secret info blob =
     (case decodeBase64URL blob of
        None \<Rightarrow> None
      | Some packed \<Rightarrow>
          if length packed < 28 then None
          else (case aesNewCipher (deriveGCMKey secret info) of
                  Inl err \<Rightarrow> None
                | Inr key \<Rightarrow>
                    let iv = take 12 packed; tag = take 16 (drop 12 packed); ciphertext = drop 28 packed
                    in gcm_open key iv (ciphertext @ tag)))"

definition hashHasHexPrefix :: "byte list \<Rightarrow> string \<Rightarrow> bool" where
  "hashHasHexPrefix hash target = has_prefix (hex_encode hash) (to_lower target)"

section \<open>Lemmas\<close>

lemma readFull_enough: "n \<le> length random \<Longrightarrow> readFull n random = (Inr (take n random), drop n random)"
  by (simp add: readFull_def)

lemma readFull_Inr:
  "readFull n random = (Inr raw, rest) \<Longrightarrow> length raw = n \<and> random = raw @ rest"
  by (auto simp: readFull_def split: if_splits)

lemma randomHex_Inr:
  "randomHex random n = (Inr s, rest) \<Longrightarrow>
     0 \<le> n \<and> length s = 2 * nat n \<and> set s \<subseteq> hex_digits \<and> (\<exists>raw. random = raw @ rest \<and> length raw = nat n \<and> s = hex_encode raw)"
  using set_hex_encode
  by (auto simp: randomHex_def dest!: readFull_Inr split: if_splits sum.splits prod.splits)

lemma randomHex_enough:
  "0 \<le> n \<Longrightarrow> nat n \<le> length random \<Longrightarrow>
     randomHex random n = (Inr (hex_encode (take (nat n) random)), drop (nat n) random)"
  by (simp add: randomHex_def readFull_enough)

lemma length_hmacSHA256 [simp, sizes]: "length (hmacSHA256 key data) = 32"
  by (simp add: hmacSHA256_def)

lemma hmacSHA256_nonempty [simp]: "hmacSHA256 key data \<noteq> []"
  using length_hmacSHA256 [of key data] by fastforce

lemma aesNewCipher_derived [simp]: "aesNewCipher (deriveGCMKey secret info) = Inr (deriveGCMKey secret info)"
  by (simp add: aesNewCipher_def deriveGCMKey_def)

lemma jwt_no_dot: "CHR ''.'' \<notin> set jwtHeaderB64"
  by (simp add: jwtHeaderB64_def raw_url_encode_no_dot)

lemma jwtHeaderB64_nonempty [simp]: "jwtHeaderB64 \<noteq> []"
  by (simp add: jwtHeaderB64_def jwtHeaderJSON_def str_bytes_def)

lemma split_three:
  assumes "CHR ''.'' \<notin> set a" "CHR ''.'' \<notin> set b" "CHR ''.'' \<notin> set c"
  shows "split_on (CHR ''.'') (a @ CHR ''.'' # b @ CHR ''.'' # c) = [a, b, c]"
  using assms by (simp add: split_on_append split_on_no_sep)

lemma jwtSign_parts:
  "split_on (CHR ''.'') (jwtSign payload secret) =
     [jwtHeaderB64, raw_url_encode payload,
      raw_url_encode (hmacSHA256 secret (str_bytes (jwtHeaderB64 @ ''.'' @ raw_url_encode payload)))]"
  using split_three [OF jwt_no_dot raw_url_encode_no_dot raw_url_encode_no_dot]
  by (simp add: jwtSign_def Let_def)

lemma jwtVerify_Some:
  assumes "jwtVerify token secret = Some (payload, sigHex)"
  obtains p0 p1 p2 where
    "split_on (CHR ''.'') token = [p0, p1, p2]" "p0 \<noteq> []" "p1 \<noteq> []" "p2 \<noteq> []"
    "raw_url_decode p2 = Some (hmacSHA256 secret (str_bytes (p0 @ ''.'' @ p1)))"
    "raw_url_decode p1 = Some payload"
    "sigHex = hex_encode (hmacSHA256 secret (str_bytes (p0 @ ''.'' @ p1)))"
  using assms by (auto simp: jwtVerify_def split: list.splits option.splits if_splits)

lemma jwtVerify_sign [codec]:
  assumes "payload \<noteq> []"
  shows "jwtVerify (jwtSign payload secret) secret =
     Some (payload, hex_encode (hmacSHA256 secret (str_bytes (jwtHeaderB64 @ ''.'' @ raw_url_encode payload))))"
  unfolding jwtVerify_def jwtSign_parts using assms by simp

text \<open>The decoder skips a line feed, so a token has spellings that its signer did not write.\<close>

lemma raw_url_decode_newline: "raw_url_decode (s @ [CHR 0x0A]) = raw_url_decode s"
  by (simp add: raw_url_decode_def is_newline_def)

lemma jwtVerify_newline:
  assumes "jwtVerify token secret = Some r"
  shows "jwtVerify (token @ [CHR 0x0A]) secret = Some r"
proof -
  obtain payload k where r: "r = (payload, k)" by fastforce
  with assms obtain p0 p1 p2 where t: "split_on (CHR ''.'') token = [p0, p1, p2]"
    and ok: "p0 \<noteq> []" "p1 \<noteq> []" "p2 \<noteq> []"
      "raw_url_decode p2 = Some (hmacSHA256 secret (str_bytes (p0 @ ''.'' @ p1)))"
      "raw_url_decode p1 = Some payload"
      "k = hex_encode (hmacSHA256 secret (str_bytes (p0 @ ''.'' @ p1)))"
    by (auto elim!: jwtVerify_Some)
  have "token = p0 @ ''.'' @ p1 @ ''.'' @ p2" and nd: "CHR ''.'' \<notin> set p0" "CHR ''.'' \<notin> set p1" "CHR ''.'' \<notin> set p2"
    using split_on_join [OF t] by auto
  then have "split_on (CHR ''.'') (token @ [CHR 0x0A]) = [p0, p1, p2 @ [CHR 0x0A]]"
    using split_three [of p0 p1 "p2 @ [CHR 0x0A]"] by simp
  then show ?thesis using ok r by (simp add: jwtVerify_def raw_url_decode_newline)
qed

lemma trim_right_no: "c \<notin> set s \<Longrightarrow> trim_right_char c s = s"
proof -
  assume a: "c \<notin> set s"
  have "dropWhile (\<lambda>x. x = c) (rev s) = rev s"
    using a by (cases "rev s") (auto simp: dropWhile_eq_self_iff dest: arg_cong [of _ _ set])
  then show ?thesis by (simp add: trim_right_char_def)
qed

lemma decodeBase64URL_encode [simp, codec]: "decodeBase64URL (raw_url_encode bs) = Some bs"
  by (simp add: decodeBase64URL_def trim_right_no raw_url_encode_no_eq)

lemma take_drop_28: "length iv = 12 \<Longrightarrow> length tag = 16 \<Longrightarrow>
  take 12 (iv @ tag @ c) = iv \<and> take 16 (drop 12 (iv @ tag @ c)) = tag \<and> drop 28 (iv @ tag @ c) = c"
  by simp

lemma has_prefix_to_lower: "to_lower (to_lower s) = to_lower s"
proof -
  have "lower_char (lower_char c) = lower_char c" for c
  proof (cases "65 \<le> (of_char c :: nat) \<and> of_char c \<le> (90 :: nat)")
    case True
    then have "of_char (lower_char c) = (of_char c + 32 :: nat)"
      by (simp add: lower_char_def Let_def of_char_of)
    then show ?thesis using True by (simp add: lower_char_def [of "lower_char c"] Let_def)
  next
    case False
    then show ?thesis by (auto simp: lower_char_def Let_def)
  qed
  then show ?thesis by (simp add: to_lower_def)
qed

lemma decrypt_encrypt [codec]:
  assumes "12 \<le> length random"
  shows "\<exists>blob. encryptGCM secret info plaintext random = (Inr blob, drop 12 random)
           \<and> decryptGCM secret info blob = Some plaintext"
proof -
  let ?key = "deriveGCMKey secret info"
  let ?iv = "take 12 random"
  let ?c = "gctr ?key ?iv plaintext"
  let ?tag = "gcm_tag ?key ?iv ?c"
  have seal: "gcm_seal ?key ?iv plaintext = ?c @ ?tag" by (simp add: gcm_seal_def Let_def)
  have enc: "encryptGCM secret info plaintext random = (Inr (raw_url_encode (?iv @ ?tag @ ?c)), drop 12 random)"
    using assms by (simp add: encryptGCM_def readFull_enough seal Let_def)
  have iv: "length ?iv = 12" using assms by simp
  have "decryptGCM secret info (raw_url_encode (?iv @ ?tag @ ?c)) = gcm_open ?key ?iv (?c @ ?tag)"
    using take_drop_28 [OF iv length_gcm_tag, of ?key ?iv ?c ?c] iv
    by (simp add: decryptGCM_def Let_def del: take_append drop_append)
  also have "\<dots> = Some plaintext" using gcm_open_seal [of ?key ?iv plaintext] seal by simp
  finally show ?thesis using enc by blast
qed

section \<open>Properties\<close>

text \<open>
  Property C24. Signing and verifying round trip: a token made by \<open>jwtSign\<close> verifies under
  the same secret, and verification returns the payload that was signed and the hexadecimal
  signature that serves as its replay key.
\<close>

theorem jwtVerify_jwtSign:
  assumes "payload \<noteq> []"
  shows "jwtVerify (jwtSign payload secret) secret =
     Some (payload, hex_encode (hmacSHA256 secret (str_bytes (jwtHeaderB64 @ ''.'' @ raw_url_encode payload))))"
  by (rule jwtVerify_sign [OF assms])

theorem jwtVerify_jwtSign_witness:
  "jwtVerify (jwtSign (str_bytes ''{}'') [66, 66]) [66, 66] =
     Some (str_bytes ''{}'', hex_encode (hmacSHA256 [66, 66] (str_bytes (jwtHeaderB64 @ ''.'' @ raw_url_encode (str_bytes ''{}'')))))"
  by (rule jwtVerify_jwtSign) (simp add: str_bytes_def)

text \<open>
  Property C25. The replay key of an accepted token is a function of what was signed. Base64
  decoding is lenient, so one signature has several spellings; two accepted tokens that agree on
  header and payload text have the same replay key and the same payload, whatever the spelling
  of their third part.
\<close>

theorem jwt_replay_key_unique:
  assumes "jwtVerify (h @ ''.'' @ b @ ''.'' @ s1) secret = Some (p1, k1)"
    and "jwtVerify (h @ ''.'' @ b @ ''.'' @ s2) secret = Some (p2, k2)"
    and "CHR ''.'' \<notin> set h" "CHR ''.'' \<notin> set b"
  shows "k1 = k2 \<and> p1 = p2"
proof -
  have "split_on (CHR ''.'') (h @ ''.'' @ b @ ''.'' @ s) = h # b # split_on (CHR ''.'') s" for s
    using assms(3,4) by (simp add: split_on_append)
  with assms(1,2) show ?thesis by (auto elim!: jwtVerify_Some)
qed

theorem jwt_replay_key_unique_witness:
  "\<exists>h b s p1 p2 k1 k2. jwtVerify (h @ ''.'' @ b @ ''.'' @ s) [66] = Some (p1, k1) \<and>
     jwtVerify (h @ ''.'' @ b @ ''.'' @ s @ [CHR 0x0A]) [66] = Some (p2, k2) \<and> k1 = k2 \<and> p1 = p2"
proof -
  let ?b = "raw_url_encode (str_bytes ''{}'')"
  let ?s = "raw_url_encode (hmacSHA256 [66] (str_bytes (jwtHeaderB64 @ ''.'' @ ?b)))"
  have "jwtSign (str_bytes ''{}'') [66] = jwtHeaderB64 @ ''.'' @ ?b @ ''.'' @ ?s"
    by (simp add: jwtSign_def Let_def)
  moreover have "str_bytes ''{}'' \<noteq> []" by (simp add: str_bytes_def)
  ultimately obtain p1 k1 where v1: "jwtVerify (jwtHeaderB64 @ ''.'' @ ?b @ ''.'' @ ?s) [66] = Some (p1, k1)"
    using jwtVerify_sign by metis
  then obtain p2 k2 where v2: "jwtVerify (jwtHeaderB64 @ ''.'' @ ?b @ ''.'' @ ?s @ [CHR 0x0A]) [66] = Some (p2, k2)"
    using jwtVerify_newline [OF v1] by auto
  have "k1 = k2 \<and> p1 = p2"
    by (rule jwt_replay_key_unique [OF v1 v2 jwt_no_dot raw_url_encode_no_dot])
  with v1 v2 show ?thesis by blast
qed

text \<open>
  Property C26. What \<open>encryptGCM\<close> seals under a secret and a purpose string, \<open>decryptGCM\<close> opens
  under the same two: the plaintext comes back for every plaintext, and the reader has given
  exactly the twelve bytes of the nonce.
\<close>

theorem decrypt_encryptGCM:
  assumes "12 \<le> length random"
  shows "\<exists>blob. encryptGCM secret info plaintext random = (Inr blob, drop 12 random)
           \<and> decryptGCM secret info blob = Some plaintext"
  by (rule decrypt_encrypt [OF assms])

theorem decrypt_encryptGCM_witness:
  "\<exists>blob. encryptGCM [66] ''cap:enc-v1'' [1, 2, 3] [0, 1, 2, 3, 4, 5, 6, 7, 8, 9, 10, 11, 12]
            = (Inr blob, drop 12 [0, 1, 2, 3, 4, 5, 6, 7, 8, 9, 10, 11, 12])
       \<and> decryptGCM [66] ''cap:enc-v1'' blob = Some [1, 2, 3]"
  by (rule decrypt_encryptGCM) simp

text \<open>
  Property C27. Only what was sealed opens: if \<open>decryptGCM\<close> accepts a blob, its bytes are a
  twelve-byte nonce followed by the tag and ciphertext that \<open>encryptGCM\<close> produces for the
  returned plaintext under that nonce, secret and purpose. In particular a blob of fewer than 28
  bytes is refused.
\<close>

theorem decryptGCM_sound:
  assumes "decryptGCM secret info blob = Some plaintext"
  shows "\<exists>packed. decodeBase64URL blob = Some packed \<and> 28 \<le> length packed \<and>
     encryptGCM secret info plaintext (take 12 packed) = (Inr (raw_url_encode packed), [])"
proof -
  let ?key = "deriveGCMKey secret info"
  from assms obtain packed where d: "decodeBase64URL blob = Some packed" and l: "28 \<le> length packed"
    and o: "gcm_open ?key (take 12 packed) (drop 28 packed @ take 16 (drop 12 packed)) = Some plaintext"
    by (auto simp: decryptGCM_def Let_def split: option.splits if_splits)
  let ?tag = "take 16 (drop 12 packed)" and ?c = "drop 28 packed" and ?iv = "take 12 packed"
  have tag: "length ?tag = 16" using l by simp
  have seal: "gcm_seal ?key ?iv plaintext = ?c @ ?tag" using gcm_open_Some [OF o] by simp
  have "drop 28 packed = drop 16 (drop 12 packed)" by simp
  then have whole: "?iv @ ?tag @ ?c = packed" by (metis append_take_drop_id)
  have "encryptGCM secret info plaintext ?iv = (Inr (raw_url_encode (?iv @ ?tag @ ?c)), [])"
    using l tag by (simp add: encryptGCM_def readFull_enough seal Let_def min_absorb2)
  with d l whole show ?thesis by auto
qed

theorem decryptGCM_sound_witness:
  "\<exists>blob packed. decodeBase64URL blob = Some packed \<and> 28 \<le> length packed \<and>
     encryptGCM [66] ''x'' [7] (take 12 packed) = (Inr (raw_url_encode packed), [])"
proof -
  have "12 \<le> length (replicate 12 (0 :: byte))" by simp
  then obtain blob where "decryptGCM [66] ''x'' blob = Some [7]"
    using gcm_open_seal [of "deriveGCMKey [66] ''x''" "replicate 12 0" "[7]"]
    by (intro that [of "raw_url_encode (replicate 12 0 @ gcm_tag (deriveGCMKey [66] ''x'') (replicate 12 0)
        (gctr (deriveGCMKey [66] ''x'') (replicate 12 0) [7]) @ gctr (deriveGCMKey [66] ''x'') (replicate 12 0) [7])"])
      (simp add: decryptGCM_def Let_def gcm_seal_def)
  from decryptGCM_sound [OF this] show ?thesis by blast
qed

end
