(* ===== verification/Num_Theory.thy ===== *)
theory Num_Theory
  imports Prelude
begin

text \<open>
  The number theory under the time-lock puzzle: primes, Fermat's little theorem, the
  uniqueness half of the Chinese remainder theorem, and executable modular exponentiation and
  inversion (\<open>big.Int.Exp\<close> and \<open>big.Int.ModInverse\<close>) with what they compute.
\<close>

section \<open>Primes\<close>

definition is_prime :: "int \<Rightarrow> bool" where
  "is_prime p \<longleftrightarrow> 1 < p \<and> (\<forall>d. 0 < d \<and> d dvd p \<longrightarrow> d = 1 \<or> d = p)"

lemma is_prime_gt_1: "is_prime p \<Longrightarrow> 1 < p"
  by (simp add: is_prime_def)

lemma is_prime_coprime:
  assumes "is_prime p" "\<not> p dvd a"
  shows "coprime p a"
proof -
  have "gcd p a dvd p" "0 < gcd p a" using assms(1) by (auto simp: is_prime_def)
  then have "gcd p a = 1 \<or> gcd p a = p" using assms(1) by (auto simp: is_prime_def)
  moreover have "gcd p a \<noteq> p" using assms(2) by (metis gcd_dvd2)
  ultimately show ?thesis by (simp add: coprime_iff_gcd_eq_1)
qed

lemma is_prime_dvd_mult: "is_prime p \<Longrightarrow> p dvd a * b \<Longrightarrow> p dvd a \<or> p dvd b"
  using is_prime_coprime coprime_dvd_mult_right_iff by blast

lemma distinct_primes_coprime:
  assumes "is_prime p" "is_prime q" "p \<noteq> q"
  shows "coprime p q"
proof -
  have "1 < p" using is_prime_gt_1 [OF assms(1)] .
  then have "p dvd q \<Longrightarrow> p = 1 \<or> p = q"
    using assms(2) unfolding is_prime_def by (meson less_trans zero_less_one)
  with \<open>1 < p\<close> assms(3) have "\<not> p dvd q" by auto
  then show ?thesis using is_prime_coprime assms(1) by blast
qed

section \<open>Fermat's little theorem\<close>

lemma prime_dvd_choose:
  assumes "is_prime (int p)" "0 < k" "k < p"
  shows "int p dvd int (p choose k)"
proof -
  have "int k * int (p choose k) = int p * int ((p - 1) choose (k - 1))"
    using times_binomial_minus1_eq [OF assms(2), of p] by (metis of_nat_mult)
  then have "int p dvd int k * int (p choose k)" by simp
  moreover have "\<not> int p dvd int k" using assms(2,3) by (simp add: nat_dvd_not_less)
  ultimately show ?thesis using is_prime_dvd_mult assms(1) by blast
qed

lemma power_add_1_prime:
  assumes "is_prime (int p)"
  shows "int p dvd ((a + 1) ^ p - (a ^ p + (1 :: int)))"
proof -
  have "1 < p" using is_prime_gt_1 [OF assms] by simp
  then have set: "{..p} = insert 0 (insert p {0<..<p})" by auto
  have "(a + 1) ^ p = (\<Sum>k\<le>p. of_nat (p choose k) * a ^ k * 1 ^ (p - k))"
    by (rule binomial_ring)
  also have "\<dots> = 1 + (a ^ p + (\<Sum>k\<in>{0<..<p}. int (p choose k) * a ^ k))"
    using \<open>1 < p\<close> unfolding set by simp
  finally have eq: "(a + 1) ^ p - (a ^ p + 1) = (\<Sum>k\<in>{0<..<p}. int (p choose k) * a ^ k)"
    by simp
  show ?thesis unfolding eq
    by (rule dvd_sum) (use assms prime_dvd_choose in auto)
qed

lemma fermat_nat:
  assumes "is_prime (int p)"
  shows "int p dvd int a ^ p - int a"
proof (induction a)
  case 0
  then show ?case using is_prime_gt_1 [OF assms] by (simp add: power_0_left)
next
  case (Suc a)
  have "int (Suc a) ^ p - int (Suc a) =
      ((int a + 1) ^ p - (int a ^ p + 1)) + (int a ^ p - int a)"
    by (simp add: add.commute)
  then show ?case using Suc power_add_1_prime [OF assms, of "int a"] by (metis dvd_add)
qed

lemma fermat:
  assumes "is_prime p" "0 \<le> a" "\<not> p dvd a"
  shows "a ^ nat (p - 1) mod p = 1"
proof -
  have p: "1 < p" "int (nat p) = p" using is_prime_gt_1 [OF assms(1)] by auto
  have "p dvd a ^ nat p - a"
    using fermat_nat [of "nat p" "nat a"] assms p by simp
  also have "a ^ nat p - a = a * (a ^ nat (p - 1) - 1)"
  proof -
    have "nat p = Suc (nat (p - 1))" using p by simp
    then show ?thesis by (simp add: algebra_simps)
  qed
  finally have "p dvd a ^ nat (p - 1) - 1"
    using is_prime_dvd_mult assms by blast
  then have "a ^ nat (p - 1) mod p = 1 mod p" by (simp add: mod_eq_dvd_iff)
  then show ?thesis using p by simp
qed

text \<open>Exponents may be reduced modulo \<open>p - 1\<close>.\<close>

lemma power_mod_order:
  assumes "is_prime p" "0 \<le> a" "\<not> p dvd a"
  shows "a ^ (e mod nat (p - 1)) mod p = a ^ e mod p"
proof -
  let ?m = "nat (p - 1)"
  have "a ^ e = a ^ (e mod ?m) * (a ^ ?m) ^ (e div ?m)"
    by (simp flip: power_mult power_add)
  then have "a ^ e mod p = a ^ (e mod ?m) * ((a ^ ?m mod p) ^ (e div ?m) mod p) mod p"
    by (simp add: mod_mult_right_eq power_mod)
  then show ?thesis using fermat [OF assms] by (simp add: mod_mult_right_eq)
qed

section \<open>Chinese remainders\<close>

lemma crt_unique:
  fixes a b p q :: int
  assumes "coprime p q" "a mod p = b mod p" "a mod q = b mod q" "0 \<le> a" "a < p * q" "0 \<le> b" "b < p * q"
  shows "a = b"
proof -
  have "p dvd a - b" "q dvd a - b" using assms(2,3) by (simp_all add: mod_eq_dvd_iff)
  then have "p * q dvd a - b" using assms(1) divides_mult by blast
  then have "a mod (p * q) = b mod (p * q)" by (simp add: mod_eq_dvd_iff)
  then show ?thesis using assms(4-7) by simp
qed

section \<open>Modular exponentiation and inversion\<close>

text \<open>\<open>z.Exp(x, y, m)\<close> for \<open>y \<ge> 0\<close> and \<open>m > 0\<close>, by repeated squaring.\<close>

fun big_exp :: "int \<Rightarrow> nat \<Rightarrow> int \<Rightarrow> int" where
  "big_exp x y m =
     (if y = 0 then 1 mod m
      else let h = big_exp (x * x mod m) (y div 2) m
           in if even y then h else x * h mod m)"

declare big_exp.simps [simp del]

lemma big_exp [simp]: "big_exp x y m = x ^ y mod m"
proof (induction x y m rule: big_exp.induct)
  case (1 x y m)
  show ?case
  proof (cases "y = 0")
    case True
    then show ?thesis by (simp add: big_exp.simps)
  next
    case False
    have sq: "(x * x mod m) ^ (y div 2) mod m = x ^ (2 * (y div 2)) mod m"
      by (simp add: power_mod power_mult power2_eq_square)
    have odd: "x * (x ^ (2 * (y div 2)) mod m) mod m = x ^ Suc (2 * (y div 2)) mod m"
      by (simp add: mod_mult_right_eq)
    show ?thesis
    proof (cases "even y")
      case True
      then have "2 * (y div 2) = y" by simp
      then show ?thesis using 1 False True sq by (simp add: big_exp.simps [of x y m])
    next
      case nev: False
      then have "Suc (2 * (y div 2)) = y" by simp
      then show ?thesis using 1 False nev sq odd by (simp add: big_exp.simps [of x y m])
    qed
  qed
qed

text \<open>\<open>z.ModInverse(g, n)\<close> for \<open>g \<ge> 0\<close> and \<open>n > 0\<close>; \<open>None\<close> is the nil result.\<close>

definition mod_inverse :: "int \<Rightarrow> int \<Rightarrow> int option" where
  "mod_inverse g n =
     (if gcd g n \<noteq> 1 then None else Some (fst (bezw (nat g) (nat n)) mod n))"

lemma mod_inverse_Some:
  assumes "mod_inverse g n = Some i" "0 \<le> g" "0 < n"
  shows "g * i mod n = 1 mod n"
proof -
  from assms(1) have g: "gcd g n = 1" and i: "i = fst (bezw (nat g) (nat n)) mod n"
    by (auto simp: mod_inverse_def split: if_splits)
  have "fst (bezw (nat g) (nat n)) * int (nat g) + snd (bezw (nat g) (nat n)) * int (nat n)
      = int (gcd (nat g) (nat n))" by (rule bezw_aux [symmetric])
  also have "int (gcd (nat g) (nat n)) = 1" using g assms(2,3) by (simp add: gcd_int_def)
  finally have "(fst (bezw (nat g) (nat n)) * g + snd (bezw (nat g) (nat n)) * n) mod n = 1 mod n"
    using assms(2,3) by simp
  then show ?thesis by (simp add: i mod_mult_right_eq mult.commute)
qed

lemma mod_inverse_coprime: "coprime g n \<Longrightarrow> \<exists>i. mod_inverse g n = Some i"
  by (simp add: mod_inverse_def coprime_iff_gcd_eq_1)

end
