(* ===== verification/Rsw.thy ===== *)
theory Rsw
  imports Crypto Num_Theory
begin

text \<open>
  \<open>rsw.go\<close>: the repeated-squaring time-lock puzzle. A \<open>*big.Int\<close> that may be nil is an
  \<open>int option\<close>, any other an \<open>int\<close>. Two functions of the standard library are arguments:
  \<open>ProbablyPrime(20)\<close>, a randomised test of which the lemmas assume that what it accepts is
  prime, and the key pairs that successive calls of \<open>rsa.GenerateKey\<close> return.
\<close>

section \<open>Integers as bytes and digits\<close>

fun nat_bits :: "nat \<Rightarrow> nat" where
  "nat_bits n = (if n = 0 then 0 else Suc (nat_bits (n div 2)))"

declare nat_bits.simps [simp del]

definition bitLen :: "int \<Rightarrow> int" where
  "bitLen x = int (nat_bits (nat \<bar>x\<bar>))"

text \<open>\<open>SetBytes\<close>, the length of \<open>Bytes\<close>, and \<open>FillBytes\<close>.\<close>

definition setBytes :: "byte list \<Rightarrow> int" where
  "setBytes bs = foldl (\<lambda>a b. a * 256 + int (unat b)) 0 bs"

fun bytes_len :: "nat \<Rightarrow> nat" where
  "bytes_len n = (if n = 0 then 0 else Suc (bytes_len (n div 256)))"

declare bytes_len.simps [simp del]

fun fillBytes :: "nat \<Rightarrow> nat \<Rightarrow> byte list" where
  "fillBytes 0 n = []"
| "fillBytes (Suc l) n = fillBytes l (n div 256) @ [word_of_nat (n mod 256)]"

definition paddedHex :: "int \<Rightarrow> int \<Rightarrow> string" where
  "paddedHex value byteLength =
     (if value < 0 then CHR ''-'' # pad_left (CHR ''0'') (nat (byteLength * 2) - 1) (to_base 16 (nat (- value)))
      else pad_left (CHR ''0'') (nat (byteLength * 2)) (to_base 16 (nat value)))"

definition is_hex :: "char \<Rightarrow> bool" where
  "is_hex c \<longleftrightarrow> c \<in> set ''0123456789abcdefABCDEF''"

definition parseHexInt :: "string \<Rightarrow> int option" where
  "parseHexInt value =
     (let v = trim_prefix (trim_prefix (trim_space value) ''0x'') ''0X''
      in if v = [] then None
         else if \<not> list_all is_hex v then None
         else Some (int (of_base 16 v)))"

definition VerifyRSW :: "int option \<Rightarrow> int option \<Rightarrow> bool" where
  "VerifyRSW expected claimed =
     (case (expected, claimed) of
        (Some e, Some c) \<Rightarrow>
          if e < 0 \<or> c < 0 then False
          else let l0 = bytes_len (nat e); l1 = (if bytes_len (nat c) > l0 then bytes_len (nat c) else l0);
                   len = (if l1 = 0 then 1 else l1)
               in fillBytes len (nat e) = fillBytes len (nat c)
      | _ \<Rightarrow> False)"

definition verifyRSWHex :: "string \<Rightarrow> string \<Rightarrow> bool" where
  "verifyRSWHex expectedHex claimedHex =
     (case parseHexInt expectedHex of
        None \<Rightarrow> False
      | Some want \<Rightarrow>
          (case parseHexInt claimedHex of None \<Rightarrow> False | Some got \<Rightarrow> VerifyRSW (Some want) (Some got)))"

section \<open>Key pairs\<close>

record rsw_keypair =
  kN :: "int option"
  kP :: "int option"
  kQ :: "int option"
  kBits :: int

definition keypair_Validate :: "(int \<Rightarrow> bool) \<Rightarrow> rsw_keypair option \<Rightarrow> go_error + unit" where
  "keypair_Validate probablyPrime ko =
     (case ko of None \<Rightarrow> Inl (EOther ''capgo: rsw keypair is incomplete'')
      | Some k \<Rightarrow>
        (case (kN k, kP k, kQ k) of
           (Some n, Some p, Some q) \<Rightarrow>
             if kBits k < 1024 \<or> bitLen n \<noteq> kBits k
               then Inl (EOther ''capgo: rsw modulus size does not match bits'')
             else if p = q \<or> \<not> probablyPrime p \<or> \<not> probablyPrime q
               then Inl (EOther ''capgo: rsw factors must be distinct primes'')
             else if p * q \<noteq> n then Inl (EOther ''capgo: rsw factors do not match modulus'')
             else Inr ()
         | _ \<Rightarrow> Inl (EOther ''capgo: rsw keypair is incomplete'')))"

text \<open>
  The loop around \<open>rsa.GenerateKey\<close> (modulus and first two primes, or an error): it returns
  the first pair whose modulus has the wanted size. \<open>None\<close>: none of the calls listed did.
\<close>

fun generate_loop :: "int \<Rightarrow> (go_error + int \<times> int \<times> int) list \<Rightarrow> (go_error + rsw_keypair) option" where
  "generate_loop bits [] = None"
| "generate_loop bits (r # rs) =
     (case r of
        Inl err \<Rightarrow> Some (Inl err)
      | Inr (n, p, q) \<Rightarrow>
          if bitLen n = bits then Some (Inr \<lparr>kN = Some n, kP = Some p, kQ = Some q, kBits = bits\<rparr>)
          else generate_loop bits rs)"

definition GenerateRSWKeypair ::
  "byte list option \<Rightarrow> int \<Rightarrow> (go_error + int \<times> int \<times> int) list \<Rightarrow> (go_error + rsw_keypair) option" where
  "GenerateRSWKeypair random bits rsaKeys =
     (if random = None then Some (Inl (EOther ''capgo: random reader is required''))
      else if bits < 1024 \<or> bits mod 2 \<noteq> 0
        then Some (Inl (EOther ''capgo: rsw bits must be even and >= 1024''))
      else generate_loop bits rsaKeys)"

section \<open>Minting\<close>

record rsw_minter =
  rN :: int
  rIterations :: int
  rG :: int
  rH :: int
  rModulusBytes :: int
  rp :: int
  rq :: int
  rpm1 :: int
  rqm1 :: int
  rhp :: int
  rhq :: int
  rgp :: int
  rgq :: int
  rqInvP :: int

record minted_rsw =
  mintN :: int
  mintX :: int
  mintExpectedY :: int
  mintIterations :: int

definition randomIntRange :: "byte list \<Rightarrow> int \<Rightarrow> int \<Rightarrow> (go_error + int) \<times> byte list" where
  "randomIntRange random modulus byteLength =
     (case readFull (nat byteLength) random of
        (Inl err, rest) \<Rightarrow> (Inl err, rest)
      | (Inr raw, rest) \<Rightarrow>
          let limit = modulus - 3
          in if limit = 0 then (Inl (EPanic ''division by zero''), rest)
             else (Inr (setBytes raw mod \<bar>limit\<bar> + 2), rest))"

text \<open>Garner's formula, on the fields of the minter it reads.\<close>

definition crt :: "int \<Rightarrow> int \<Rightarrow> int \<Rightarrow> int \<Rightarrow> int \<Rightarrow> int" where
  "crt p q qInvP ap aq = (let delta = ((ap - aq) mod p * qInvP) mod p in aq + q * delta)"

definition NewRSWMinter ::
  "(int \<Rightarrow> bool) \<Rightarrow> rsw_keypair option \<Rightarrow> int \<Rightarrow> byte list option \<Rightarrow> int option
     \<Rightarrow> (go_error + rsw_minter) \<times> byte list option" where
  "NewRSWMinter probablyPrime ko iterations random generator =
     (case keypair_Validate probablyPrime ko of
        Inl err \<Rightarrow> (Inl err, random)
      | Inr _ \<Rightarrow>
        if iterations < 1 \<or> random = None then (Inl (EOther ''capgo: invalid rsw minter parameters''), random)
        else
          let keypair = the ko; n = the (kN keypair); p = the (kP keypair); q = the (kQ keypair);
              modulusBytes = (kBits keypair + 7) div 8;
              (g, rest) = (case generator of
                             Some g \<Rightarrow> (Inr g, the random)
                           | None \<Rightarrow> randomIntRange (the random) n modulusBytes)
          in (case g of
                Inl err \<Rightarrow> (Inl err, Some rest)
              | Inr g \<Rightarrow>
                let pm1 = p - 1; qm1 = q - 1;
                    ep = big_exp 2 (nat iterations) pm1; eq = big_exp 2 (nat iterations) qm1;
                    gp = g mod p; gq = g mod q;
                    hp = big_exp gp (nat ep) p; hq = big_exp gq (nat eq) q
                in (case mod_inverse (q mod p) p of
                      None \<Rightarrow> (Inl (EOther ''capgo: invalid rsw factors''), Some rest)
                    | Some qInvP \<Rightarrow>
                        (Inr \<lparr>rN = n, rIterations = iterations, rG = g, rH = crt p q qInvP hp hq,
                              rModulusBytes = modulusBytes, rp = p, rq = q, rpm1 = pm1, rqm1 = qm1,
                              rhp = hp, rhq = hq, rgp = gp, rgq = gq, rqInvP = qInvP\<rparr>, Some rest))))"

definition Mint :: "rsw_minter \<Rightarrow> byte list \<Rightarrow> (go_error + minted_rsw) \<times> byte list" where
  "Mint m random =
     (case readFull 32 random of
        (Inl err, rest) \<Rightarrow> (Inl err, rest)
      | (Inr raw, rest) \<Rightarrow>
          let r = setBytes raw;
              rp' = nat (r mod rpm1 m); rq' = nat (r mod rqm1 m);
              x = crt (rp m) (rq m) (rqInvP m) (big_exp (rgp m) rp' (rp m)) (big_exp (rgq m) rq' (rq m));
              y = crt (rp m) (rq m) (rqInvP m) (big_exp (rhp m) rp' (rp m)) (big_exp (rhq m) rq' (rq m))
          in (Inr \<lparr>mintN = rN m, mintX = x, mintExpectedY = y, mintIterations = rIterations m\<rparr>, rest))"

definition ModulusHex :: "rsw_minter \<Rightarrow> string" where
  "ModulusHex m = paddedHex (rN m) (rModulusBytes m)"

section \<open>Solving\<close>

fun solve_loop :: "nat \<Rightarrow> int \<Rightarrow> int \<Rightarrow> int" where
  "solve_loop 0 modulus result = result"
| "solve_loop (Suc n) modulus result = solve_loop n modulus ((result * result) mod \<bar>modulus\<bar>)"

definition SolveRSW :: "int \<Rightarrow> int \<Rightarrow> int \<Rightarrow> go_error + int" where
  "SolveRSW modulus x iterations =
     (if modulus = 0 then Inl (EPanic ''division by zero'')
      else Inr (solve_loop (nat iterations) modulus (x mod \<bar>modulus\<bar>)))"

section \<open>Lemmas: digits and bytes\<close>

lemma is_hex_digit: "c \<in> hex_digits \<Longrightarrow> is_hex c"
  by (auto simp: hex_digits_def is_hex_def)

lemma hex_char_plain:
  assumes "is_hex c"
  shows "of_char c < (128::nat) \<and> \<not> space_rune (of_char c) \<and> c \<noteq> CHR ''x'' \<and> c \<noteq> CHR ''X''"
proof -
  have "list_all (\<lambda>c. of_char c < (128::nat) \<and> \<not> space_rune (of_char c) \<and> c \<noteq> CHR ''x'' \<and> c \<noteq> CHR ''X'')
    ''0123456789abcdefABCDEF''"
    by (simp add: space_rune_def)
  then show ?thesis using assms by (simp only: is_hex_def list_all_iff) blast
qed

lemma trim_space_hex:
  assumes "list_all is_hex s"
  shows "trim_space s = s"
proof (cases "s = []")
  case True
  then show ?thesis by (simp add: trim_space_def trim_left_space_id trim_right_space_id)
next
  case False
  then have "is_hex (hd s)" "is_hex (last s)" using assms by (auto simp: list_all_iff)
  then show ?thesis using False hex_char_plain by (intro trim_space_plain) auto
qed

lemma trim_prefix_hex:
  assumes "list_all is_hex s"
  shows "trim_prefix s [a, CHR ''x''] = s" "trim_prefix s [a, CHR ''X''] = s"
proof -
  have "\<not> is_hex (CHR ''x'')" "\<not> is_hex (CHR ''X'')" by (simp_all add: is_hex_def)
  then have "\<not> has_prefix s [a, CHR ''x'']" "\<not> has_prefix s [a, CHR ''X'']"
    using assms by (cases s; cases "tl s"; auto)+
  then show "trim_prefix s [a, CHR ''x''] = s" "trim_prefix s [a, CHR ''X''] = s"
    by (simp_all add: trim_prefix_def)
qed

lemma parseHexInt_hex:
  assumes "list_all is_hex s" "s \<noteq> []"
  shows "parseHexInt s = Some (int (of_base 16 s))"
  using assms by (simp add: parseHexInt_def trim_space_hex trim_prefix_hex Let_def)

lemma hex_of_nat: "list_all is_hex (to_base 16 n)"
  using set_to_base [of 16 n] digit_char_16 is_hex_digit by (fastforce simp: list_all_iff)

lemma parseHexInt_text [simp, codec]: "parseHexInt (to_base 16 n) = Some (int n)"
  by (simp add: parseHexInt_hex hex_of_nat)

lemma parseHexInt_padded [simp, codec]:
  assumes "0 \<le> v"
  shows "parseHexInt (paddedHex v l) = Some v"
proof -
  have "is_hex (CHR ''0'')" by (simp add: is_hex_def)
  then have "list_all is_hex (pad_left (CHR ''0'') w (to_base 16 n))" for w n
    using hex_of_nat [of n] by (auto simp: pad_left_def list_all_iff)
  moreover have "pad_left (CHR ''0'') w (to_base 16 n) \<noteq> []" for w n by (simp add: pad_left_def)
  ultimately show ?thesis using assms by (simp add: paddedHex_def parseHexInt_hex)
qed

lemma bytes_len_bound: "n < 256 ^ bytes_len n"
proof (induction n rule: bytes_len.induct)
  case (1 n)
  show ?case
  proof (cases "n = 0")
    case True
    then show ?thesis by (simp add: bytes_len.simps)
  next
    case False
    then have "n div 256 < 256 ^ bytes_len (n div 256)" using 1 by simp
    then have "n < 256 ^ bytes_len (n div 256) * 256" by (simp add: div_less_iff_less_mult)
    then show ?thesis using False by (simp add: bytes_len.simps [of n] mult.commute)
  qed
qed

lemma fillBytes_inj:
  "m < 256 ^ l \<Longrightarrow> n < 256 ^ l \<Longrightarrow> fillBytes l m = fillBytes l n \<Longrightarrow> m = n"
proof (induction l arbitrary: m n)
  case 0
  then show ?case by simp
next
  case (Suc l)
  have lt: "m div 256 < 256 ^ l" "n div 256 < 256 ^ l"
    using Suc.prems by (simp_all add: div_less_iff_less_mult mult.commute)
  have d: "m div 256 = n div 256" by (rule Suc.IH [OF lt]) (use Suc.prems(3) in simp)
  have "(word_of_nat (m mod 256) :: byte) = word_of_nat (n mod 256)" using Suc.prems(3) by simp
  then have "unat (word_of_nat (m mod 256) :: byte) = unat (word_of_nat (n mod 256) :: byte)" by (rule arg_cong)
  then have "m mod 256 = n mod 256" by (simp add: unat_of_nat)
  with d have "m div 256 * 256 + m mod 256 = n div 256 * 256 + n mod 256" by (simp only:)
  then show ?case by (simp only: div_mult_mod_eq)
qed

lemma VerifyRSW_iff [simp]: "VerifyRSW (Some e) (Some c) \<longleftrightarrow> 0 \<le> e \<and> e = c"
proof (cases "0 \<le> e \<and> 0 \<le> c")
  case True
  define len where "len = (let l0 = bytes_len (nat e); l1 = (if bytes_len (nat c) > l0 then bytes_len (nat c) else l0)
     in if l1 = 0 then 1 else l1)"
  have le: "bytes_len (nat e) \<le> len" "bytes_len (nat c) \<le> len" by (auto simp: len_def Let_def)
  have lt: "nat e < 256 ^ len" "nat c < 256 ^ len"
    using bytes_len_bound [of "nat e"] bytes_len_bound [of "nat c"] le
    by (meson less_le_trans one_le_numeral power_increasing)+
  have "fillBytes len (nat e) = fillBytes len (nat c) \<longleftrightarrow> nat e = nat c"
    using fillBytes_inj [OF lt] by auto
  then have "fillBytes len (nat e) = fillBytes len (nat c) \<longleftrightarrow> e = c" using True by (simp add: eq_nat_nat_iff)
  then show ?thesis using True by (simp add: VerifyRSW_def len_def Let_def)
qed (auto simp: VerifyRSW_def)

lemma VerifyRSW_None [simp]: "\<not> VerifyRSW None c" "\<not> VerifyRSW e None"
  by (auto simp: VerifyRSW_def split: option.splits)

lemma setBytes_nonneg [simp]: "0 \<le> setBytes bs"
proof -
  have "0 \<le> a \<Longrightarrow> 0 \<le> foldl (\<lambda>a b. a * 256 + int (unat b)) a bs" for a
    by (induction bs arbitrary: a) auto
  then show ?thesis by (simp add: setBytes_def)
qed

section \<open>Lemmas: the trapdoor\<close>

lemma crt_mod_q: "crt p q i ap aq mod q = aq mod q"
  by (simp add: crt_def Let_def)

lemma crt_mod_p:
  assumes "q * i mod p = 1 mod p"
  shows "crt p q i ap aq mod p = ap mod p"
proof -
  have "q * (((ap - aq) mod p * i) mod p) mod p = (q * i) * (ap - aq) mod p"
    by (simp add: mod_simps mult.assoc mult.commute [of i])
  also have "\<dots> = (q * i mod p) * (ap - aq) mod p" by (simp add: mod_mult_left_eq)
  also have "\<dots> = (ap - aq) mod p" using assms by (simp add: mod_mult_left_eq)
  finally have "(aq + q * (((ap - aq) mod p * i) mod p)) mod p = (aq + (ap - aq)) mod p"
    by (rule mod_add_cong [OF refl])
  then show ?thesis by (simp add: crt_def Let_def)
qed

lemma crt_range:
  assumes "0 < p" "0 < q" "0 \<le> aq" "aq < q"
  shows "0 \<le> crt p q i ap aq \<and> crt p q i ap aq < p * q"
proof -
  define d where "d = (ap - aq) mod p * i mod p"
  have d: "0 \<le> d" "d \<le> p - 1" using assms(1) by (auto simp: d_def)
  have "q * d \<le> q * (p - 1)" using d assms(2) by (intro mult_left_mono) auto
  then have "aq + q * d < q + q * (p - 1)" using assms(4) by linarith
  also have "\<dots> = p * q" by (simp add: algebra_simps)
  finally show ?thesis using d assms by (simp add: crt_def d_def [symmetric] Let_def)
qed

lemma solve_loop_power: "0 < m \<Longrightarrow> solve_loop n m (a mod m) = a ^ (2 ^ n) mod m"
proof (induction n arbitrary: a)
  case 0
  then show ?case by simp
next
  case (Suc n)
  have "solve_loop (Suc n) m (a mod m) = solve_loop n m ((a * a) mod m)"
    using Suc.prems by (simp add: mod_mult_eq)
  also have "\<dots> = (a * a) ^ (2 ^ n) mod m" using Suc by simp
  also have "(a * a) ^ (2 ^ n) = a ^ (2 ^ Suc n)" by (simp add: power_mult power2_eq_square)
  finally show ?case .
qed

lemma SolveRSW_power [simp]: "0 < m \<Longrightarrow> SolveRSW m x t = Inr (x ^ (2 ^ nat t) mod m)"
  using solve_loop_power [of m "nat t" x] by (simp add: SolveRSW_def)

text \<open>
  What the constructor establishes. \<open>trapdoor_sound p g t\<close> excludes the one case in which the
  reduced exponent does not compute the power: the factor divides the generator and \<open>p - 1\<close>
  divides \<open>2 ^ t\<close>, so that a zero base meets a zero exponent.
\<close>

definition trapdoor_sound :: "int \<Rightarrow> int \<Rightarrow> int \<Rightarrow> bool" where
  "trapdoor_sound p g t \<longleftrightarrow> \<not> (p dvd g \<and> (p - 1) dvd 2 ^ nat t)"

definition minter_ok :: "rsw_minter \<Rightarrow> bool" where
  "minter_ok m \<longleftrightarrow>
     is_prime (rp m) \<and> is_prime (rq m) \<and> rp m \<noteq> rq m \<and> rN m = rp m * rq m \<and> 1 \<le> rIterations m
     \<and> rpm1 m = rp m - 1 \<and> rqm1 m = rq m - 1
     \<and> rgp m = rG m mod rp m \<and> rgq m = rG m mod rq m
     \<and> rhp m = rgp m ^ nat (2 ^ nat (rIterations m) mod rpm1 m) mod rp m
     \<and> rhq m = rgq m ^ nat (2 ^ nat (rIterations m) mod rqm1 m) mod rq m
     \<and> rq m * rqInvP m mod rp m = 1 mod rp m
     \<and> rH m = crt (rp m) (rq m) (rqInvP m) (rhp m) (rhq m)"

lemma keypair_Validate_Inr:
  assumes "keypair_Validate pp ko = Inr u"
  obtains k n p q where "ko = Some k" "kN k = Some n" "kP k = Some p" "kQ k = Some q"
    "n = p * q" "p \<noteq> q" "pp p" "pp q" "1024 \<le> kBits k" "bitLen n = kBits k"
  using assms by (auto simp: keypair_Validate_def split: option.splits if_splits prod.splits)

lemma half_power:
  assumes "is_prime p"
  shows "trapdoor_sound p g t \<Longrightarrow>
    (g mod p) ^ nat (2 ^ nat t mod (p - 1)) mod p = (g mod p) ^ (2 ^ nat t) mod p"
proof -
  have p: "1 < p" using is_prime_gt_1 [OF assms] .
  assume ok: "trapdoor_sound p g t"
  let ?e = "2 ^ nat t :: nat"
  have e: "nat (2 ^ nat t mod (p - 1)) = ?e mod nat (p - 1)"
    using p by (simp add: nat_mod_distrib nat_power_eq)
  show ?thesis
  proof (cases "p dvd g")
    case True
    then have z: "g mod p = 0" by simp
    have "\<not> (p - 1) dvd 2 ^ nat t" using ok True by (simp add: trapdoor_sound_def)
    then have "(2 :: int) ^ nat t mod (p - 1) \<noteq> 0" by (simp add: dvd_eq_mod_eq_0)
    then have "0 < 2 ^ nat t mod (p - 1)"
      using p by (simp add: order_less_le)
    then have "nat (2 ^ nat t mod (p - 1)) \<noteq> 0" by simp
    then show ?thesis using z by (simp add: power_0_left)
  next
    case False
    then have "\<not> p dvd g mod p" by (simp add: dvd_mod_iff)
    then show ?thesis
      using power_mod_order [OF assms, of "g mod p" ?e] p e by simp
  qed
qed

text \<open>One residue of a minted pair: \<open>y\<close> is \<open>x\<close> squared \<open>t\<close> times.\<close>

lemma residue_power:
  assumes "h mod p = g ^ e mod (p :: int)"
  shows "(g ^ r mod p) ^ e mod p = h ^ r mod p"
proof -
  have "(g ^ r mod p) ^ e mod p = (g ^ e mod p) ^ r mod p"
    by (simp add: power_mod mult.commute flip: power_mult)
  also have "\<dots> = (h mod p) ^ r mod p" using assms by simp
  finally show ?thesis by (simp add: power_mod)
qed

lemma Mint_correct:
  assumes ok: "minter_ok m" and ts: "trapdoor_sound (rp m) (rG m) (rIterations m)" "trapdoor_sound (rq m) (rG m) (rIterations m)"
    and mint: "Mint m random = (Inr minted, rest)"
  shows "SolveRSW (mintN minted) (mintX minted) (mintIterations minted) = Inr (mintExpectedY minted)
    \<and> 0 \<le> mintX minted \<and> mintX minted < mintN minted \<and> 0 \<le> mintExpectedY minted \<and> mintExpectedY minted < mintN minted"
proof -
  let ?p = "rp m" and ?q = "rq m" and ?e = "2 ^ nat (rIterations m) :: nat"
  from ok have pr: "is_prime ?p" "is_prime ?q" "?p \<noteq> ?q" and n: "rN m = ?p * ?q"
    and inv: "?q * rqInvP m mod ?p = 1 mod ?p"
    by (simp_all add: minter_ok_def)
  from ok pr ts have hp: "rhp m mod ?p = rgp m ^ ?e mod ?p" and hq: "rhq m mod ?q = rgq m ^ ?e mod ?q"
    by (simp_all add: minter_ok_def half_power)
  have gt: "0 < ?p" "0 < ?q" using is_prime_gt_1 pr(1,2) by fastforce+
  obtain i j where x: "mintX minted = crt ?p ?q (rqInvP m) (rgp m ^ i mod ?p) (rgq m ^ j mod ?q)"
    and y: "mintExpectedY minted = crt ?p ?q (rqInvP m) (rhp m ^ i mod ?p) (rhq m ^ j mod ?q)"
    and rest: "mintN minted = rN m" "mintIterations minted = rIterations m"
    using mint by (auto simp: Mint_def Let_def split: sum.splits prod.splits)
  have xr: "0 \<le> mintX minted \<and> mintX minted < ?p * ?q" unfolding x using gt by (intro crt_range) auto
  have yr: "0 \<le> mintExpectedY minted \<and> mintExpectedY minted < ?p * ?q"
    unfolding y using gt by (intro crt_range) auto
  let ?s = "mintX minted ^ ?e mod (?p * ?q)"
  have "?s mod ?p = (mintX minted mod ?p) ^ ?e mod ?p" by (simp add: mod_mod_cancel power_mod)
  also have "\<dots> = rhp m ^ i mod ?p" unfolding x crt_mod_p [OF inv] using residue_power [OF hp] by (simp add: power_mod)
  also have "\<dots> = mintExpectedY minted mod ?p" unfolding y crt_mod_p [OF inv] by simp
  finally have mp: "?s mod ?p = mintExpectedY minted mod ?p" .
  have "?s mod ?q = (mintX minted mod ?q) ^ ?e mod ?q" by (simp add: mod_mod_cancel power_mod)
  also have "\<dots> = rhq m ^ j mod ?q" unfolding x crt_mod_q using residue_power [OF hq] by (simp add: power_mod)
  also have "\<dots> = mintExpectedY minted mod ?q" unfolding y crt_mod_q by simp
  finally have mq: "?s mod ?q = mintExpectedY minted mod ?q" .
  have sr: "0 \<le> ?s \<and> ?s < ?p * ?q" using gt by simp
  have "?s = mintExpectedY minted"
    by (rule crt_unique [of ?p ?q]) (use distinct_primes_coprime [OF pr] mp mq yr sr in simp_all)
  then show ?thesis using xr yr rest n gt by simp
qed

lemma nat_bits_power: "nat_bits (2 ^ n) = Suc n"
  by (induction n) (simp_all add: nat_bits.simps)

lemma bitLen_power: "bitLen (2 ^ n) = int (Suc n)"
  by (simp only: bitLen_def power_abs abs_numeral nat_power_eq zero_le_numeral nat_numeral nat_bits_power)

lemma nat_bits_bound: "0 < n \<Longrightarrow> 2 ^ (nat_bits n - 1) \<le> n \<and> n < 2 ^ nat_bits n"
proof (induction n rule: nat_bits.induct)
  case (1 n)
  show ?case
  proof (cases "n div 2 = 0")
    case True
    with 1 have "n = 1" by simp
    then show ?thesis by (simp add: nat_bits.simps)
  next
    case False
    then have ih: "2 ^ (nat_bits (n div 2) - 1) \<le> n div 2" "n div 2 < 2 ^ nat_bits (n div 2)" and b: "0 < nat_bits (n div 2)"
      using 1 by (simp_all add: nat_bits.simps [of "n div 2"])
    have "2 ^ nat_bits (n div 2) = 2 * (2 :: nat) ^ (nat_bits (n div 2) - 1)"
      using b by (simp flip: power_Suc)
    moreover have "n div 2 * 2 \<le> n" "n < n div 2 * 2 + 2" by linarith+
    ultimately have "2 ^ nat_bits (n div 2) \<le> n" "n < 2 * 2 ^ nat_bits (n div 2)" using ih by linarith+
    moreover have "nat_bits n = Suc (nat_bits (n div 2))" using False by (simp add: nat_bits.simps [of n])
    ultimately show ?thesis by simp
  qed
qed

lemma bitLen_lower: "1024 \<le> bitLen n \<Longrightarrow> 0 < n \<Longrightarrow> 2 ^ 1023 \<le> n"
proof -
  assume a: "1024 \<le> bitLen n" "0 < n"
  then have "2 ^ (nat_bits (nat n) - 1) \<le> nat n" using nat_bits_bound [of "nat n"] by simp
  moreover have "(2 :: nat) ^ 1023 \<le> 2 ^ (nat_bits (nat n) - 1)"
    using a by (intro power_increasing) (auto simp: bitLen_def)
  ultimately have "2 ^ 1023 \<le> nat n" by (rule order_trans [rotated])
  then have "int (2 ^ 1023) \<le> int (nat n)" by (simp only: of_nat_le_iff)
  then show ?thesis using a by simp
qed

lemma bitLen_upper: "2 ^ 1023 \<le> n \<Longrightarrow> 1024 \<le> bitLen n"
proof (rule ccontr)
  assume a: "2 ^ 1023 \<le> n" "\<not> 1024 \<le> bitLen n"
  then have pos: "0 < nat n" using zero_less_power [of "2 :: int" 1023] by linarith
  have "nat n < 2 ^ nat_bits (nat n)" using nat_bits_bound [OF pos] by simp
  also have "\<dots> \<le> 2 ^ 1023" using a pos by (intro power_increasing) (auto simp: bitLen_def)
  finally have "int (nat n) < int (2 ^ 1023)" by (simp only: of_nat_less_iff)
  then show False using a(1) pos by simp
qed

lemma randomIntRange_bounds:
  assumes "3 < n" "randomIntRange random n w = (Inr g, rest)"
  shows "2 \<le> g \<and> g \<le> n - 2"
proof -
  obtain raw where g: "g = setBytes raw mod \<bar>n - 3\<bar> + 2"
    using assms by (auto simp: randomIntRange_def Let_def split: sum.splits prod.splits if_splits)
  have "0 \<le> setBytes raw mod \<bar>n - 3\<bar>" "setBytes raw mod \<bar>n - 3\<bar> < \<bar>n - 3\<bar>" using assms(1) by simp_all
  then show ?thesis using g assms(1) by linarith
qed

lemma NewRSWMinter_ok:
  assumes pp: "\<And>n. pp n \<Longrightarrow> is_prime n"
    and new: "NewRSWMinter pp ko t random gen = (Inr m, random')"
  shows "minter_ok m \<and> 2 ^ 1023 \<le> rN m \<and> rIterations m = t
    \<and> (case gen of Some g \<Rightarrow> rG m = g | None \<Rightarrow> 2 \<le> rG m \<and> rG m \<le> rN m - 2)"
proof -
  from new obtain u where v: "keypair_Validate pp ko = Inr u"
    by (auto simp: NewRSWMinter_def split: sum.splits)
  then obtain k n p q where k: "ko = Some k" "kN k = Some n" "kP k = Some p" "kQ k = Some q"
    and n: "n = p * q" "p \<noteq> q" "pp p" "pp q" "1024 \<le> kBits k" "bitLen n = kBits k"
    by (rule keypair_Validate_Inr)
  have t: "1 \<le> t" using new v by (simp add: NewRSWMinter_def split: if_splits)
  have pr: "is_prime p" "is_prime q" using pp n by auto
  have gt: "1 < p" "1 < q" using pr is_prime_gt_1 by auto
  have N: "2 ^ 1023 \<le> n" using n gt by (intro bitLen_lower) auto
  have N3: "3 < n"
  proof -
    have "(2 :: int) ^ 2 \<le> 2 ^ 1023" by (rule power_increasing) auto
    then show ?thesis using N by simp
  qed
  obtain rnd where rnd: "random = Some rnd" using new v t by (cases random) (auto simp: NewRSWMinter_def)
  obtain sel rest where sel: "(case gen of Some g \<Rightarrow> (Inr g, rnd)
      | None \<Rightarrow> randomIntRange rnd n ((kBits k + 7) div 8)) = (sel, rest)" by (rule prod.exhaust)
  note run = new [unfolded NewRSWMinter_def v, simplified k rnd sel option.sel Let_def sum.case prod.case]
  obtain g where g: "sel = Inr g" using run t by (cases sel) simp_all
  obtain i where m: "m = \<lparr>rN = n, rIterations = t, rG = g,
        rH = crt p q i ((g mod p) ^ nat (2 ^ nat t mod (p - 1)) mod p) ((g mod q) ^ nat (2 ^ nat t mod (q - 1)) mod q),
        rModulusBytes = (kBits k + 7) div 8, rp = p, rq = q, rpm1 = p - 1, rqm1 = q - 1,
        rhp = (g mod p) ^ nat (2 ^ nat t mod (p - 1)) mod p, rhq = (g mod q) ^ nat (2 ^ nat t mod (q - 1)) mod q,
        rgp = g mod p, rgq = g mod q, rqInvP = i\<rparr>"
    and i: "mod_inverse (q mod p) p = Some i"
    using run t g by (cases "mod_inverse (q mod p) p") (simp, simp, blast)
  have "q * i mod p = 1 mod p"
    using mod_inverse_Some [OF i] gt by (simp add: mod_mult_left_eq)
  then have "minter_ok m" unfolding minter_ok_def m rsw_minter.simps using pr n(1,2) t by (intro conjI) simp_all
  moreover have "case gen of Some g' \<Rightarrow> g = g' | None \<Rightarrow> 2 \<le> g \<and> g \<le> n - 2"
    using g sel randomIntRange_bounds [OF N3] by (cases gen) auto
  moreover have "rp m = p" "rq m = q" "rN m = n" "rG m = g" "rIterations m = t" by (simp_all add: m)
  ultimately show ?thesis using N by (simp only: simp_thms)
qed

section \<open>Properties\<close>

text \<open>
  Byte-wise comparison is equality: \<open>VerifyRSW\<close>, which compares the two numbers
  as big-endian byte strings of the longer one's length, accepts exactly when both are present,
  equal and not negative.
\<close>
lemma VerifyRSW_is_equality:
  "VerifyRSW expected claimed = (\<exists>v. expected = Some v \<and> claimed = Some v \<and> 0 \<le> v)"
  by (cases expected; cases claimed) auto

lemma verifyRSWHex_padded:
  assumes "0 \<le> y"
  shows "verifyRSWHex (paddedHex y l) s \<longleftrightarrow> parseHexInt s = Some y"
  using assms by (auto simp: verifyRSWHex_def split: option.splits)

text \<open>
  Property C18. The time lock is honest: for every minter that \<open>NewRSWMinter\<close> builds from a
  validated key and every puzzle that \<open>Mint\<close> derives from it through the trapdoor, performing the
  advertised number of squarings from \<open>x\<close> modulo \<open>N\<close> gives the recorded answer, and the server's
  hexadecimal comparison accepts exactly the texts that denote that number. The primality test is
  assumed to accept primes only; \<open>trapdoor_sound\<close> excludes a factor that divides the generator
  while \<open>p - 1\<close> divides \<open>2 ^ t\<close>.
\<close>
theorem rsw_puzzle_solvable:
  assumes "\<And>n. probablyPrime n \<Longrightarrow> is_prime n"
    and "NewRSWMinter probablyPrime ko t random gen = (Inr m, random')"
    and "trapdoor_sound (rp m) (rG m) t" and "trapdoor_sound (rq m) (rG m) t"
    and "Mint m raw = (Inr minted, raw')"
  shows "\<exists>y. SolveRSW (mintN minted) (mintX minted) (mintIterations minted) = Inr y
    \<and> 0 \<le> y \<and> y < mintN minted
    \<and> (\<forall>len claimed. verifyRSWHex (paddedHex (mintExpectedY minted) len) claimed = (parseHexInt claimed = Some y))"
proof -
  have ok: "minter_ok m" "rIterations m = t" using NewRSWMinter_ok [OF assms(1,2)] by auto
  show ?thesis using Mint_correct [OF ok(1) _ _ assms(5)] assms(3,4) ok(2) by (auto simp: verifyRSWHex_padded)
qed

lemma big_prime_exists: "\<exists>q. is_prime q \<and> int n < q"
proof -
  have "\<exists>d > 1. d dvd fact n + (1 :: nat) \<and> (\<forall>e. e dvd d \<longrightarrow> e = 1 \<or> e = d)"
  proof -
    define d where "d = (LEAST d. 1 < d \<and> d dvd fact n + (1 :: nat))"
    have "1 < fact n + (1 :: nat) \<and> fact n + 1 dvd fact n + (1 :: nat)" using fact_gt_zero [of n] by simp
    then have d: "1 < d" "d dvd fact n + 1" unfolding d_def by (metis (mono_tags, lifting) LeastI)+
    have "e = 1 \<or> e = d" if "e dvd d" for e
    proof (rule ccontr)
      assume a: "\<not> (e = 1 \<or> e = d)"
      have "e \<noteq> 0" using that d(1) by (metis dvd_0_left_iff not_less0)
      then have "1 < e" using a by linarith
      moreover have "e dvd fact n + 1" using that d(2) by (rule dvd_trans)
      moreover have "e < d" using a that d(1) by (metis dvd_imp_le gr_implies_not0 le_neq_implies_less not_gr_zero)
      ultimately show False unfolding d_def by (metis (mono_tags, lifting) not_less_Least)
    qed
    then show ?thesis using d by blast
  qed
  then obtain d :: nat where d: "1 < d" "d dvd fact n + 1" "\<And>e. e dvd d \<Longrightarrow> e = 1 \<or> e = d" by blast
  have "n < d"
  proof (rule ccontr)
    assume "\<not> n < d"
    then have "d dvd fact n" using d(1) by (intro dvd_fact) auto
    then have "d dvd fact n + 1 - fact n" by (intro dvd_diff_nat d(2))
    then show False using d(1) by simp
  qed
  moreover have "is_prime (int d)"
    unfolding is_prime_def
  proof (intro conjI allI impI)
    fix e :: int assume e: "0 < e \<and> e dvd int d"
    then have "nat e dvd d" by (metis int_dvd_int_iff int_nat_eq less_imp_le)
    then show "e = 1 \<or> e = int d" using d(3) [of "nat e"] e by auto
  qed (use d in simp)
  ultimately show ?thesis by (intro exI [of _ "int d"]) simp
qed

lemma is_prime_7: "is_prime 7"
proof -
  have "d = 1 \<or> d = 7" if "0 < d" "d dvd 7" for d :: int
  proof -
    have "d \<le> 7" using that by (auto dest: zdvd_imp_le)
    then have "d \<in> {1, 2, 3, 4, 5, 6, 7}" using that(1) by auto
    then show ?thesis using that(2) by auto
  qed
  then show ?thesis by (auto simp: is_prime_def)
qed

theorem rsw_puzzle_solvable_witness:
  "\<exists>q m minted y. is_prime q
    \<and> NewRSWMinter is_prime (Some \<lparr>kN = Some (7 * q), kP = Some 7, kQ = Some q, kBits = bitLen (7 * q)\<rparr>) 1 (Some []) (Some 2)
      = (Inr m, Some [])
    \<and> Mint m (replicate 32 1) = (Inr minted, [])
    \<and> SolveRSW (mintN minted) (mintX minted) (mintIterations minted) = Inr y
    \<and> verifyRSWHex (paddedHex (mintExpectedY minted) 128) (to_base 16 (nat y))"
proof -
  obtain q where q: "is_prime q" "int (2 ^ 1023) < q" using big_prime_exists by blast
  have q2: "(2 :: int) ^ 1023 < q" using q(2) by simp
  have "(2 :: int) ^ 3 \<le> 2 ^ 1023" by (rule power_increasing) auto
  then have q7: "7 < q" using q2 by simp
  let ?ko = "Some \<lparr>kN = Some (7 * q), kP = Some 7, kQ = Some q, kBits = bitLen (7 * q)\<rparr>"
  have bits: "1024 \<le> bitLen (7 * q)" using q2 q7 by (intro bitLen_upper) linarith
  have v: "keypair_Validate is_prime ?ko = Inr ()"
    using q q7 bits is_prime_7 by (simp add: keypair_Validate_def)
  have "coprime (q mod 7) 7"
    using distinct_primes_coprime [OF q(1) is_prime_7] q7 by simp
  then obtain i where i: "mod_inverse (q mod 7) 7 = Some i" using mod_inverse_coprime by blast
  obtain m where m: "NewRSWMinter is_prime ?ko 1 (Some []) (Some 2) = (Inr m, Some [])" "rp m = 7" "rq m = q" "rG m = 2"
    using v i by (simp add: NewRSWMinter_def Let_def)
  obtain minted where mt: "Mint m (replicate 32 1) = (Inr minted, [])"
    by (simp add: Mint_def readFull_enough Let_def)
  have ts: "trapdoor_sound (rp m) (rG m) 1" "trapdoor_sound (rq m) (rG m) 1"
    using m q7 by (auto simp: trapdoor_sound_def dest: zdvd_imp_le)
  obtain y where y: "SolveRSW (mintN minted) (mintX minted) (mintIterations minted) = Inr y" "0 \<le> y"
    "\<forall>len claimed. verifyRSWHex (paddedHex (mintExpectedY minted) len) claimed = (parseHexInt claimed = Some y)"
    using rsw_puzzle_solvable [OF _ m(1) ts mt] by blast
  then show ?thesis using q m mt
    by (intro exI [of _ q] exI [of _ m] exI [of _ minted] exI [of _ y]) simp
qed

end
