(* ===== verification/Json.thy ===== *)
theory Json
  imports Go_Text
begin

text \<open>
  Package \<open>encoding/json\<close> as far as the program uses it, on byte strings: the scanner (which
  texts are valid, where a value ends, with the nesting limit of 10000), the raw texts of the
  elements of an array and of the members of an object, string literals in both directions
  (\<open>quote\<close> with and without HTML escaping, \<open>unquote\<close>), and the typed decoding of
  integers, strings, booleans and structs with Go's rules: \<open>null\<close> leaves a scalar unchanged,
  keys match up to case folding, unknown keys are skipped, a later duplicate wins. A
  \<open>json.RawMessage\<close> is the text of the value.
\<close>

section \<open>Scanner\<close>

definition json_ws :: "char \<Rightarrow> bool" where
  "json_ws c \<longleftrightarrow> c = CHR '' '' \<or> c = CHR 0x09 \<or> c = CHR 0x0A \<or> c = CHR 0x0D"

definition skip_ws :: "string \<Rightarrow> string" where
  "skip_ws s = dropWhile json_ws s"

definition is_digit :: "char \<Rightarrow> bool" where
  "is_digit c \<longleftrightarrow> 48 \<le> (of_char c :: nat) \<and> (of_char c :: nat) \<le> 57"

definition hex_digit :: "char \<Rightarrow> bool" where
  "hex_digit c \<longleftrightarrow> (let n = (of_char c :: nat) in
     48 \<le> n \<and> n \<le> 57 \<or> 65 \<le> n \<and> n \<le> 70 \<or> 97 \<le> n \<and> n \<le> 102)"

text \<open>The rest after the closing quote, given the text after the opening one.\<close>

fun scan_str :: "string \<Rightarrow> string option" where
  "scan_str [] = None"
| "scan_str (c # s) =
     (if c = CHR 0x22 then Some s
      else if c = CHR 0x5C then
        (case s of
           [] \<Rightarrow> None
         | e # t \<Rightarrow>
             if e = CHR ''u'' then
               (case t of
                  h1 # h2 # h3 # h4 # u \<Rightarrow>
                    if hex_digit h1 \<and> hex_digit h2 \<and> hex_digit h3 \<and> hex_digit h4 then scan_str u else None
                | _ \<Rightarrow> None)
             else if e \<in> {CHR ''b'', CHR ''f'', CHR ''n'', CHR ''r'', CHR ''t'', CHR 0x5C, CHR ''/'', CHR 0x22}
               then scan_str t
             else None)
      else if (of_char c :: nat) < 32 then None
      else scan_str s)"

definition scan_exp :: "string \<Rightarrow> string option" where
  "scan_exp s =
     (case s of
        c # t \<Rightarrow>
          if c = CHR ''e'' \<or> c = CHR ''E'' then
            (let u = (case t of x # y \<Rightarrow> if x = CHR ''+'' \<or> x = CHR ''-'' then y else t | [] \<Rightarrow> t)
             in case u of
                  d # v \<Rightarrow> if is_digit d then Some (dropWhile is_digit v) else None
                | [] \<Rightarrow> None)
          else Some s
      | [] \<Rightarrow> Some s)"

definition scan_frac :: "string \<Rightarrow> string option" where
  "scan_frac s =
     (case s of
        c # t \<Rightarrow>
          if c = CHR ''.'' then
            (case t of
               d # u \<Rightarrow> if is_digit d then scan_exp (dropWhile is_digit u) else None
             | [] \<Rightarrow> None)
          else scan_exp s
      | [] \<Rightarrow> scan_exp s)"

definition scan_number :: "string \<Rightarrow> string option" where
  "scan_number s =
     (let t = (case s of c # u \<Rightarrow> if c = CHR ''-'' then u else s | [] \<Rightarrow> s)
      in case t of
           [] \<Rightarrow> None
         | c # u \<Rightarrow>
             if c = CHR ''0'' then scan_frac u
             else if is_digit c then scan_frac (dropWhile is_digit u)
             else None)"

definition scan_lit :: "string \<Rightarrow> string \<Rightarrow> string option" where
  "scan_lit l s = (if take (length l) s = l then Some (drop (length l) s) else None)"

definition scan_scalar :: "string \<Rightarrow> string option" where
  "scan_scalar s =
     (case s of
        [] \<Rightarrow> None
      | c # t \<Rightarrow>
          if c = CHR 0x22 then scan_str t
          else if c = CHR ''-'' \<or> is_digit c then scan_number s
          else if c = CHR ''t'' then scan_lit ''true'' s
          else if c = CHR ''f'' then scan_lit ''false'' s
          else if c = CHR ''n'' then scan_lit ''null'' s
          else None)"

text \<open>The text of a value that starts at \<open>s\<close> and leaves \<open>rest\<close>.\<close>

definition consumed :: "string \<Rightarrow> string \<Rightarrow> string" where
  "consumed s rest = take (length s - length rest) s"

text \<open>
  The elements of an array and the members of an object, given a scanner \<open>f\<close> for the values
  in them; the first argument bounds the number of entries (each takes at least one byte).
\<close>

fun scan_elems :: "nat \<Rightarrow> (string \<Rightarrow> string option) \<Rightarrow> string \<Rightarrow> (string list \<times> string) option" where
  "scan_elems 0 f s = None"
| "scan_elems (Suc n) f s =
     (case f s of
        None \<Rightarrow> None
      | Some r \<Rightarrow>
          (case skip_ws r of
             [] \<Rightarrow> None
           | c # t \<Rightarrow>
               if c = CHR '']'' then Some ([consumed s r], t)
               else if c = CHR '','' then
                 (case scan_elems n f (skip_ws t) of
                    None \<Rightarrow> None | Some (vs, u) \<Rightarrow> Some (consumed s r # vs, u))
               else None))"

definition scan_array :: "(string \<Rightarrow> string option) \<Rightarrow> string \<Rightarrow> (string list \<times> string) option" where
  "scan_array f s =
     (case skip_ws s of
        [] \<Rightarrow> None
      | c # t \<Rightarrow> if c = CHR '']'' then Some ([], t) else scan_elems (length s) f (skip_ws s))"

fun scan_members :: "nat \<Rightarrow> (string \<Rightarrow> string option) \<Rightarrow> string \<Rightarrow> ((string \<times> string) list \<times> string) option" where
  "scan_members 0 f s = None"
| "scan_members (Suc n) f s =
     (case s of
        [] \<Rightarrow> None
      | q # k \<Rightarrow>
          if q \<noteq> CHR 0x22 then None
          else (case scan_str k of
             None \<Rightarrow> None
           | Some r \<Rightarrow>
               (case skip_ws r of
                  [] \<Rightarrow> None
                | c # t \<Rightarrow>
                    if c \<noteq> CHR '':'' then None
                    else let v = skip_ws t
                      in (case f v of
                           None \<Rightarrow> None
                         | Some r' \<Rightarrow>
                             (case skip_ws r' of
                                [] \<Rightarrow> None
                              | d # u \<Rightarrow>
                                  if d = CHR ''}'' then Some ([(consumed s r, consumed v r')], u)
                                  else if d = CHR '','' then
                                    (case scan_members n f (skip_ws u) of
                                       None \<Rightarrow> None
                                     | Some (ms, w) \<Rightarrow> Some ((consumed s r, consumed v r') # ms, w))
                                  else None)))))"

definition scan_object :: "(string \<Rightarrow> string option) \<Rightarrow> string \<Rightarrow> ((string \<times> string) list \<times> string) option" where
  "scan_object f s =
     (case skip_ws s of
        [] \<Rightarrow> None
      | c # t \<Rightarrow> if c = CHR ''}'' then Some ([], t) else scan_members (length s) f (skip_ws s))"

fun scan_value :: "nat \<Rightarrow> string \<Rightarrow> string option" where
  "scan_value 0 s = scan_scalar s"
| "scan_value (Suc d) s =
     (case s of
        [] \<Rightarrow> None
      | c # t \<Rightarrow>
          if c = CHR ''{'' then map_option snd (scan_object (scan_value d) t)
          else if c = CHR ''['' then map_option snd (scan_array (scan_value d) t)
          else scan_scalar s)"

definition json_depth :: nat where
  "json_depth = 9999"

text \<open>The text of the value in a valid document; the raw parts of an array or object text.\<close>

definition json_document :: "string \<Rightarrow> string option" where
  "json_document s =
     (let t = skip_ws s
      in case scan_value (Suc json_depth) t of
           None \<Rightarrow> None
         | Some r \<Rightarrow> if skip_ws r = [] then Some (consumed t r) else None)"

definition json_elements :: "string \<Rightarrow> string list option" where
  "json_elements raw =
     (case raw of
        [] \<Rightarrow> None
      | c # t \<Rightarrow> if c = CHR ''['' then map_option fst (scan_array (scan_value json_depth) t) else None)"

section \<open>String literals\<close>

definition code_hex :: "nat \<Rightarrow> nat" where
  "code_hex n = digit_val (char_of n)"

definition hex4 :: "nat list \<Rightarrow> nat" where
  "hex4 s = code_hex (s ! 0) * 4096 + code_hex (s ! 1) * 256 + code_hex (s ! 2) * 16 + code_hex (s ! 3)"

definition simple_escape :: "nat \<Rightarrow> nat" where
  "simple_escape e =
     (if e = 98 then 8 else if e = 102 then 12 else if e = 110 then 10 else if e = 114 then 13
      else if e = 116 then 9 else e)"

definition is_surrogate :: "nat \<Rightarrow> bool" where
  "is_surrogate r \<longleftrightarrow> 55296 \<le> r \<and> r < 57344"

text \<open>
  The body of a scanned literal to its bytes. A \<open>\u\<close> escape of a high surrogate joins the
  low one that follows it; any other surrogate and any ill-formed UTF-8 byte becomes U+FFFD.
\<close>

lemma decode_rune_shrink: "s \<noteq> [] \<Longrightarrow> length s - snd (decode_rune s) < length s"
  using decode_rune_width [of s] by (cases s) auto

function unquote_codes :: "nat list \<Rightarrow> nat list" where
  "unquote_codes s =
     (if s = [] then []
      else if hd s = 92 \<and> 6 \<le> length s \<and> s ! 1 = 117 then
        (let r = hex4 (drop 2 s)
         in if is_surrogate r then
              (let t = drop 6 s;
                   r2 = (if 6 \<le> length t \<and> t ! 0 = 92 \<and> t ! 1 = 117 then hex4 (drop 2 t) else 0)
               in if r < 56320 \<and> 56320 \<le> r2 \<and> r2 < 57344
                  then encode_rune ((r - 55296) * 1024 + (r2 - 56320) + 65536) @ unquote_codes (drop 12 s)
                  else encode_rune rune_error @ unquote_codes (drop 6 s))
            else encode_rune r @ unquote_codes (drop 6 s))
      else if hd s = 92 \<and> 2 \<le> length s then simple_escape (s ! 1) # unquote_codes (drop 2 s)
      else encode_rune (fst (decode_rune s)) @ unquote_codes (drop (snd (decode_rune s)) s))"
  by pat_completeness auto
termination
  by (relation "measure length") (auto simp: decode_rune_shrink simp del: One_nat_def)

declare unquote_codes.simps [simp del]

definition unquote :: "string \<Rightarrow> string" where
  "unquote body = map char_of (unquote_codes (codes body))"

text \<open>One ASCII byte and one multi-byte rune as \<open>appendString\<close> writes them.\<close>

definition quote_ascii :: "bool \<Rightarrow> nat \<Rightarrow> nat list" where
  "quote_ascii esc c =
     (if c = 92 \<or> c = 34 then [92, c]
      else if c = 8 then [92, 98] else if c = 12 then [92, 102] else if c = 10 then [92, 110]
      else if c = 13 then [92, 114] else if c = 9 then [92, 116]
      else if c < 32 \<or> esc \<and> (c = 60 \<or> c = 62 \<or> c = 38)
        then [92, 117, 48, 48, of_char (digit_char (c div 16)), of_char (digit_char (c mod 16))]
      else [c])"

function quote_codes :: "bool \<Rightarrow> nat list \<Rightarrow> nat list" where
  "quote_codes esc s =
     (if s = [] then []
      else if hd s < 128 then quote_ascii esc (hd s) @ quote_codes esc (tl s)
      else (let (r, n) = decode_rune s
            in (if n = 1 then [92, 117, 102, 102, 102, 100]
                else if r = 8232 then [92, 117, 50, 48, 50, 56]
                else if r = 8233 then [92, 117, 50, 48, 50, 57]
                else take n s)
               @ quote_codes esc (drop (snd (decode_rune s)) s)))"
  by pat_completeness auto
termination
  by (relation "measure (length \<circ> snd)") (auto simp: decode_rune_shrink)

declare quote_codes.simps [simp del]

definition quote_body :: "bool \<Rightarrow> string \<Rightarrow> string" where
  "quote_body esc s = map char_of (quote_codes esc (codes s))"

definition json_quote :: "bool \<Rightarrow> string \<Rightarrow> string" where
  "json_quote esc s = CHR 0x22 # quote_body esc s @ [CHR 0x22]"

text \<open>What a string becomes on the way through a literal: ill-formed bytes are U+FFFD.\<close>

definition repair_codes :: "nat list \<Rightarrow> nat list" where
  "repair_codes s = concat (map encode_rune (runes_of s))"

definition repair :: "string \<Rightarrow> string" where
  "repair s = map char_of (repair_codes (codes s))"

section \<open>Typed decoding\<close>

definition json_null :: "string \<Rightarrow> bool" where
  "json_null raw \<longleftrightarrow> raw = ''null''"

definition string_lit :: "string \<Rightarrow> string option" where
  "string_lit raw =
     (if raw \<noteq> [] \<and> hd raw = CHR 0x22 then Some (unquote (butlast (tl raw))) else None)"

definition json_members :: "string \<Rightarrow> (string \<times> string) list option" where
  "json_members raw =
     (case raw of
        [] \<Rightarrow> None
      | c # t \<Rightarrow>
          if c = CHR ''{''
          then map_option (\<lambda>(ms, _). map (\<lambda>(k, v). (unquote (butlast (tl k)), v)) ms)
                 (scan_object (scan_value json_depth) t)
          else None)"

text \<open>\<open>strconv.ParseInt\<close> in base 10 of a scanned number, within \<open>[lo, hi]\<close>.\<close>

definition parse_int :: "int \<Rightarrow> int \<Rightarrow> string \<Rightarrow> int option" where
  "parse_int lo hi lit =
     (let (neg, ds) = (case lit of c # t \<Rightarrow> if c = CHR ''-'' then (True, t) else (False, lit) | [] \<Rightarrow> (False, []))
      in if ds = [] \<or> \<not> list_all is_digit ds then None
         else let v = (if neg then - int (of_base 10 ds) else int (of_base 10 ds))
              in if lo \<le> v \<and> v \<le> hi then Some v else None)"

definition dec_int :: "int \<Rightarrow> int \<Rightarrow> string \<Rightarrow> int \<Rightarrow> int option" where
  "dec_int lo hi raw old = (if json_null raw then Some old else parse_int lo hi raw)"

definition dec_int64 :: "string \<Rightarrow> int \<Rightarrow> int option" where
  "dec_int64 = dec_int (- (2 ^ 63)) (2 ^ 63 - 1)"

definition dec_int32 :: "string \<Rightarrow> i32 \<Rightarrow> i32 option" where
  "dec_int32 raw old = map_option word_of_int (dec_int (- (2 ^ 31)) (2 ^ 31 - 1) raw (sint old))"

definition dec_string :: "string \<Rightarrow> string \<Rightarrow> string option" where
  "dec_string raw old = (if json_null raw then Some old else string_lit raw)"

definition dec_bool :: "string \<Rightarrow> bool \<Rightarrow> bool option" where
  "dec_bool raw old =
     (if json_null raw then Some old else if raw = ''true'' then Some True
      else if raw = ''false'' then Some False else None)"

text \<open>A \<open>json.RawMessage\<close> takes any value, \<open>null\<close> included.\<close>

definition dec_raw :: "string \<Rightarrow> string \<Rightarrow> string option" where
  "dec_raw raw old = Some raw"

text \<open>Slices: \<open>null\<close> gives nil (\<open>None\<close>), any other array a non-nil slice of fresh elements.\<close>

fun map_dec :: "(string \<Rightarrow> 'a \<Rightarrow> 'a option) \<Rightarrow> 'a \<Rightarrow> string list \<Rightarrow> 'a list option" where
  "map_dec f zero [] = Some []"
| "map_dec f zero (r # rs) =
     (case f r zero of None \<Rightarrow> None
      | Some x \<Rightarrow> (case map_dec f zero rs of None \<Rightarrow> None | Some xs \<Rightarrow> Some (x # xs)))"

definition dec_slice :: "(string \<Rightarrow> 'a \<Rightarrow> 'a option) \<Rightarrow> 'a \<Rightarrow> string \<Rightarrow> 'a list option option" where
  "dec_slice f zero raw =
     (if json_null raw then Some None
      else (case json_elements raw of
              None \<Rightarrow> None
            | Some rs \<Rightarrow> map_option Some (map_dec f zero rs)))"

text \<open>
  Keys match a field name up to simple case folding: ASCII letters fold to upper case, and the
  two other runes that fold to an ASCII letter are U+017F and U+212A.
\<close>

definition fold_rune :: "nat \<Rightarrow> nat" where
  "fold_rune r =
     (if 97 \<le> r \<and> r \<le> 122 then r - 32 else if r = 383 then 83 else if r = 8490 then 75 else r)"

definition fold_name :: "string \<Rightarrow> nat list" where
  "fold_name k = map fold_rune (runes_of (codes k))"

type_synonym 'r fields = "(string \<times> (string \<Rightarrow> 'r \<Rightarrow> 'r option)) list"

fun field_setter :: "'r fields \<Rightarrow> string \<Rightarrow> (string \<Rightarrow> 'r \<Rightarrow> 'r option) option" where
  "field_setter [] k = None"
| "field_setter ((n, f) # fs) k = (if fold_name n = fold_name k then Some f else field_setter fs k)"

fun set_fields :: "'r fields \<Rightarrow> (string \<times> string) list \<Rightarrow> 'r \<Rightarrow> 'r option" where
  "set_fields fs [] r = Some r"
| "set_fields fs ((k, v) # ms) r =
     (case field_setter fs k of
        None \<Rightarrow> set_fields fs ms r
      | Some f \<Rightarrow> (case f v r of None \<Rightarrow> None | Some r' \<Rightarrow> set_fields fs ms r'))"

definition dec_struct :: "'r fields \<Rightarrow> string \<Rightarrow> 'r \<Rightarrow> 'r option" where
  "dec_struct fs raw old =
     (if json_null raw then Some old
      else (case json_members raw of None \<Rightarrow> None | Some ms \<Rightarrow> set_fields fs ms old))"

text \<open>\<open>json.Unmarshal(data, \&v)\<close> for a decoder of the type of \<open>v\<close>; \<open>None\<close> is an error.\<close>

definition unmarshal :: "(string \<Rightarrow> 'r \<Rightarrow> 'r option) \<Rightarrow> string \<Rightarrow> 'r \<Rightarrow> 'r option" where
  "unmarshal f data old = (case json_document data of None \<Rightarrow> None | Some raw \<Rightarrow> f raw old)"

section \<open>Encoding\<close>

fun join :: "char \<Rightarrow> string list \<Rightarrow> string" where
  "join c [] = []"
| "join c [s] = s"
| "join c (s # t # ts) = s @ c # join c (t # ts)"

definition enc_array :: "string list \<Rightarrow> string" where
  "enc_array ts = CHR ''['' # join (CHR '','') ts @ '']''"

definition enc_object :: "(string \<times> string) list \<Rightarrow> string" where
  "enc_object ms = CHR ''{'' # join (CHR '','') (map (\<lambda>(k, v). json_quote True k @ CHR '':'' # v) ms) @ ''}''"

definition enc_string :: "string \<Rightarrow> string" where
  "enc_string = json_quote True"

definition enc_bool :: "bool \<Rightarrow> string" where
  "enc_bool b = (if b then ''true'' else ''false'')"

section \<open>Lemmas: scanning printed values\<close>

text \<open>What may follow a value inside a document without extending it.\<close>

definition delim :: "string \<Rightarrow> bool" where
  "delim rest \<longleftrightarrow> rest = [] \<or> hd rest \<in> {CHR '','', CHR '']'', CHR ''}''}"

definition value_text :: "nat \<Rightarrow> string \<Rightarrow> bool" where
  "value_text d t \<longleftrightarrow> t \<noteq> [] \<and> \<not> json_ws (hd t) \<and> hd t \<noteq> CHR '']'' \<and>
     (\<forall>rest. delim rest \<longrightarrow> scan_value d (t @ rest) = Some rest)"

lemma delim_simps [simp]: "delim []" "delim (CHR '','' # t)" "delim (CHR '']'' # t)" "delim (CHR ''}'' # t)"
  by (simp_all add: delim_def)

lemma json_ws_simps [simp]:
  "\<not> json_ws (CHR '','')" "\<not> json_ws (CHR '']'')" "\<not> json_ws (CHR ''}'')" "\<not> json_ws (CHR ''{'')" "\<not> json_ws (CHR ''['')"
  "\<not> json_ws (CHR '':'')" "\<not> json_ws (CHR 0x22)"
  by (simp_all add: json_ws_def)

lemma skip_ws_Cons [simp]: "\<not> json_ws c \<Longrightarrow> skip_ws (c # t) = c # t" "skip_ws [] = []"
  by (simp_all add: skip_ws_def)

lemma skip_ws_id: "s \<noteq> [] \<Longrightarrow> \<not> json_ws (hd s) \<Longrightarrow> skip_ws s = s"
  by (cases s) auto

lemma consumed_append [simp]: "consumed (t @ rest) rest = t"
  by (simp add: consumed_def)

lemma value_text_scan: "value_text d t \<Longrightarrow> delim rest \<Longrightarrow> scan_value d (t @ rest) = Some rest"
  by (simp add: value_text_def)

lemma value_text_skip: "value_text d t \<Longrightarrow> skip_ws (t @ rest) = t @ rest"
  by (cases t) (auto simp: value_text_def)

lemma join_Cons: "join c (t # ts) = t @ (if ts = [] then [] else c # join c ts)"
  by (cases ts) auto

lemma length_join: "ts \<noteq> [] \<Longrightarrow> \<forall>t \<in> set ts. t \<noteq> [] \<Longrightarrow> length ts \<le> length (join c ts)"
  by (induction ts rule: list_nonempty_induct) (auto simp: join_Cons Suc_le_eq)

lemma scan_elems_join:
  assumes "ts \<noteq> []" "\<forall>t \<in> set ts. value_text d t" "length ts \<le> n"
  shows "scan_elems n (scan_value d) (join (CHR '','') ts @ CHR '']'' # rest) = Some (ts, rest)"
  using assms
proof (induction ts arbitrary: n rule: list_nonempty_induct)
  case (single t)
  then obtain m where "n = Suc m" by (cases n) auto
  then show ?case using single value_text_scan [of d t "CHR '']'' # rest"] by simp
next
  case (cons t ts)
  then obtain m where m: "n = Suc m" "length ts \<le> m" by (cases n) auto
  let ?tail = "join (CHR '','') ts @ CHR '']'' # rest"
  obtain u us where u: "ts = u # us" using cons.hyps by (cases ts) auto
  have "value_text d u" using cons.prems u by simp
  then have sk: "skip_ws ?tail = ?tail" using value_text_skip [of d u] by (simp add: u join_Cons)
  have ih: "scan_elems m (scan_value d) ?tail = Some (ts, rest)" using cons m by simp
  have "scan_value d (t @ CHR '','' # ?tail) = Some (CHR '','' # ?tail)"
    using cons.prems by (intro value_text_scan) simp_all
  then show ?case using m cons.hyps sk ih by (simp add: join_Cons)
qed

lemma scan_array_enc:
  assumes "\<forall>t \<in> set ts. value_text d t"
  shows "scan_array (scan_value d) (join (CHR '','') ts @ CHR '']'' # rest) = Some (ts, rest)"
proof (cases ts)
  case Nil
  then show ?thesis by (simp add: scan_array_def)
next
  case (Cons u us)
  let ?s = "join (CHR '','') ts @ CHR '']'' # rest"
  have vt: "value_text d u" using assms Cons by simp
  then have sk: "skip_ws ?s = ?s" using value_text_skip [of d u] by (simp add: Cons join_Cons)
  obtain c w where c: "?s = c # w" "c \<noteq> CHR '']''"
    using vt by (cases u) (auto simp: value_text_def Cons join_Cons)
  have "length ts \<le> length (join (CHR '','') ts)"
    using assms Cons by (intro length_join) (auto simp: value_text_def)
  then have "length ts \<le> length ?s" by simp
  then have "scan_elems (length ?s) (scan_value d) ?s = Some (ts, rest)"
    using assms Cons by (intro scan_elems_join) auto
  then show ?thesis unfolding scan_array_def sk using c by simp
qed

lemma value_text_array:
  assumes "\<forall>t \<in> set ts. value_text d t"
  shows "value_text (Suc d) (enc_array ts)"
  using scan_array_enc [OF assms] by (simp add: value_text_def enc_array_def)

lemma json_elements_enc:
  assumes "\<forall>t \<in> set ts. value_text json_depth t"
  shows "json_elements (enc_array ts) = Some ts"
  using scan_array_enc [OF assms, of "[]"] by (simp add: json_elements_def enc_array_def)

lemma scan_members_join:
  assumes "ms \<noteq> []" "\<forall>(k, v) \<in> set ms. value_text d v \<and> (\<forall>u. scan_str (k @ CHR 0x22 # u) = Some u)"
    and "length ms \<le> n"
  shows "scan_members n (scan_value d)
      (join (CHR '','') (map (\<lambda>(k, v). CHR 0x22 # k @ CHR 0x22 # CHR '':'' # v) ms) @ CHR ''}'' # rest)
    = Some (map (\<lambda>(k, v). (CHR 0x22 # k @ [CHR 0x22], v)) ms, rest)"
  using assms
proof (induction ms arbitrary: n rule: list_nonempty_induct)
  case (single m)
  obtain k v where m: "m = (k, v)" by force
  then obtain n' where n: "n = Suc n'" using single by (cases n) auto
  have v: "value_text d v" and k: "scan_str (k @ CHR 0x22 # u) = Some u" for u using single m by auto
  have c: "consumed (CHR 0x22 # k @ CHR 0x22 # u) u = CHR 0x22 # k @ [CHR 0x22]" for u
    using consumed_append [of "CHR 0x22 # k @ [CHR 0x22]" u] by simp
  show ?case
    using m n k v c value_text_skip [OF v] value_text_scan [OF v, of "CHR ''}'' # rest"] by simp
next
  case (cons m ms)
  obtain k v where m: "m = (k, v)" by force
  then obtain n' where n: "n = Suc n'" "length ms \<le> n'" using cons.prems by (cases n) auto
  have v: "value_text d v" and k: "scan_str (k @ CHR 0x22 # u) = Some u" for u using cons.prems m by auto
  have c: "consumed (CHR 0x22 # k @ CHR 0x22 # u) u = CHR 0x22 # k @ [CHR 0x22]" for u
    using consumed_append [of "CHR 0x22 # k @ [CHR 0x22]" u] by simp
  let ?tail = "join (CHR '','') (map (\<lambda>(k, v). CHR 0x22 # k @ CHR 0x22 # CHR '':'' # v) ms) @ CHR ''}'' # rest"
  have ih: "scan_members n' (scan_value d) ?tail = Some (map (\<lambda>(k, v). (CHR 0x22 # k @ [CHR 0x22], v)) ms, rest)"
    using cons n by simp
  obtain w where w: "?tail = CHR 0x22 # w" using cons.hyps by (cases ms) (auto simp: join_Cons split: prod.splits)
  have sk: "skip_ws ?tail = ?tail" unfolding w by simp
  have sv: "scan_value d (v @ CHR '','' # ?tail) = Some (CHR '','' # ?tail)" by (intro value_text_scan v) simp
  show ?case
    using m n k c value_text_skip [OF v] sv sk ih cons.hyps by (simp add: join_Cons)
qed

lemma scan_object_enc:
  assumes "\<forall>(k, v) \<in> set ms. value_text d v \<and> (\<forall>u. scan_str (k @ CHR 0x22 # u) = Some u)"
  shows "scan_object (scan_value d)
      (join (CHR '','') (map (\<lambda>(k, v). CHR 0x22 # k @ CHR 0x22 # CHR '':'' # v) ms) @ CHR ''}'' # rest)
    = Some (map (\<lambda>(k, v). (CHR 0x22 # k @ [CHR 0x22], v)) ms, rest)"
proof (cases ms)
  case Nil
  then show ?thesis by (simp add: scan_object_def)
next
  case (Cons m ms')
  let ?j = "join (CHR '','') (map (\<lambda>(k, v). CHR 0x22 # k @ CHR 0x22 # CHR '':'' # v) ms)"
  obtain w where w: "?j @ CHR ''}'' # rest = CHR 0x22 # w" using Cons by (cases m) (simp add: join_Cons)
  have "\<forall>t \<in> set (map (\<lambda>(k, v). CHR 0x22 # k @ CHR 0x22 # CHR '':'' # v) ms). t \<noteq> []" by auto
  then have "length ms \<le> length ?j"
    using length_join [of "map (\<lambda>(k, v). CHR 0x22 # k @ CHR 0x22 # CHR '':'' # v) ms" "CHR '',''"] Cons
    by (simp del: list.map)
  then have len: "length ms \<le> length (?j @ CHR ''}'' # rest)" by simp
  show ?thesis
    using scan_members_join [OF _ assms len, of rest] Cons unfolding scan_object_def w by simp
qed

section \<open>Lemmas: string literals\<close>

lemma scan_str_plain: "c \<noteq> CHR 0x22 \<Longrightarrow> c \<noteq> CHR 0x5C \<Longrightarrow> 32 \<le> (of_char c :: nat) \<Longrightarrow> scan_str (c # s) = scan_str s"
  by simp

lemma char_of_eq_iff: "n < 256 \<Longrightarrow> char_of (n :: nat) = c \<longleftrightarrow> n = of_char c"
  by (metis char_of_char mod_less of_char_mod_256 of_char_of)

lemma char_of_codes:
  "char_of (92 :: nat) = CHR 0x5C" "char_of (34 :: nat) = CHR 0x22" "char_of (98 :: nat) = CHR ''b''"
  "char_of (102 :: nat) = CHR ''f''" "char_of (110 :: nat) = CHR ''n''" "char_of (114 :: nat) = CHR ''r''"
  "char_of (116 :: nat) = CHR ''t''" "char_of (117 :: nat) = CHR ''u''" "char_of (48 :: nat) = CHR ''0''"
  "char_of (50 :: nat) = CHR ''2''" "char_of (53 :: nat) = CHR ''5''" "char_of (54 :: nat) = CHR ''6''"
  "char_of (56 :: nat) = CHR ''8''" "char_of (57 :: nat) = CHR ''9''" "char_of (100 :: nat) = CHR ''d''"
  by (simp_all add: char_of_eq_iff)

lemma scan_str_high: "\<forall>x \<in> set xs. 128 \<le> x \<and> x < (256 :: nat) \<Longrightarrow> scan_str (map char_of xs @ s) = scan_str s"
proof (induction xs)
  case (Cons x xs)
  then have x: "(of_char (char_of x :: char) :: nat) = x" "128 \<le> x" "x < 256" by simp_all
  then have "char_of x \<noteq> CHR 0x22" "char_of x \<noteq> CHR 0x5C" by (auto simp: char_of_eq_iff)
  then show ?case using Cons x by simp
qed simp

lemma hex_digit_char: "n < 16 \<Longrightarrow> hex_digit (digit_char n)"
proof -
  have "list_all (\<lambda>n. hex_digit (digit_char n)) [0..<16]"
    by (simp add: hex_digit_def digit_char_def digit_chars_def upt_rec Let_def)
  then show "n < 16 \<Longrightarrow> hex_digit (digit_char n)" by (auto simp: list_all_iff)
qed

lemma scan_quote_ascii:
  assumes "c < 128"
  shows "scan_str (map char_of (quote_ascii esc c) @ s) = scan_str s"
proof -
  consider "c \<in> {92, 34, 8, 12, 10, 13, 9}"
    | "c \<notin> {92, 34, 8, 12, 10, 13, 9}" "c < 32 \<or> esc \<and> (c = 60 \<or> c = 62 \<or> c = 38)"
    | "c \<notin> {92, 34, 8, 12, 10, 13, 9}" "32 \<le> c" "\<not> (esc \<and> (c = 60 \<or> c = 62 \<or> c = 38))"
    using linorder_not_le [of 32 c] by blast
  then show ?thesis
  proof cases
    case 1
    then show ?thesis by (elim insertE emptyE) (simp_all add: quote_ascii_def char_of_codes)
  next
    case 2
    have "hex_digit (digit_char (c div 16))" "hex_digit (digit_char (c mod 16))"
      using assms by (auto intro!: hex_digit_char simp: div_less_iff_less_mult)
    moreover have "hex_digit (CHR ''0'')" by (simp add: hex_digit_def)
    ultimately show ?thesis using 2 by (simp add: quote_ascii_def char_of_codes)
  next
    case 3
    then have "char_of c \<noteq> CHR 0x22" "char_of c \<noteq> CHR 0x5C" using assms by (auto simp: char_of_eq_iff)
    moreover have "quote_ascii esc c = [c]" using 3 by (simp add: quote_ascii_def)
    ultimately show ?thesis using 3 assms by simp
  qed
qed

text \<open>A multi-byte rune is decoded from its own bytes alone, all of them above ASCII.\<close>

lemma decode_rune_multi:
  assumes "decode_rune s = (r, n)" "n \<noteq> 1" "s \<noteq> []"
  shows "2 \<le> n \<and> n \<le> length s \<and> decode_rune (take n s @ t) = (r, n) \<and> (\<forall>x \<in> set (take n s). 128 \<le> x)"
proof -
  obtain a s1 where s1: "s = a # s1" using assms(3) by (cases s) auto
  have wide: "\<not> a < 128" using assms(1,2) s1 by (auto simp: decode_rune_ascii)
  have nz: "n \<noteq> 0" using decode_rune_width [OF assms(3)] assms(1) by auto
  then obtain b s2 where s2: "s1 = b # s2"
    using assms(1,2) s1 wide by (cases s1) (auto simp: decode_rune_def split: if_splits)
  consider "194 \<le> a \<and> a \<le> 223" | "224 \<le> a \<and> a \<le> 239" | "240 \<le> a \<and> a \<le> 244"
    using assms(1,2) s1 wide by (fastforce simp: decode_rune_def split: if_splits)
  then show ?thesis
  proof cases
    case 1
    then show ?thesis using assms(1,2) s1 s2 wide by (auto simp: decode_rune_def is_cont_def split: if_splits)
  next
    case 2
    then obtain c s3 where s3: "s2 = c # s3"
      using assms(1,2) s1 s2 wide by (cases s2) (auto simp: decode_rune_def split: if_splits)
    show ?thesis using 2 assms(1,2) s1 s2 s3 wide
      by (auto simp: decode_rune_def is_cont_def second_ok_def numeral_3_eq_3 split: if_splits)
  next
    case 3
    then obtain c d s4 where s4: "s2 = c # d # s4"
      using assms(1,2) s1 s2 wide by (cases s2; cases "tl s2") (auto simp: decode_rune_def split: if_splits)
    have dr: "decode_rune (a # b # c # d # u) =
        (if second_ok a b \<and> is_cont c \<and> is_cont d
         then ((a - 240) * 262144 + (b - 128) * 4096 + (c - 128) * 64 + (d - 128), 4) else (rune_error, 1))" for u
      using 3 by (simp add: decode_rune_def)
    have ok: "second_ok a b \<and> is_cont c \<and> is_cont d"
      using assms(1,2) s1 s2 s4 dr [of s4] by (simp split: if_splits)
    then have hi: "128 \<le> b" "128 \<le> c" "128 \<le> d" by (auto simp: second_ok_def is_cont_def split: if_splits)
    have n: "n = 4" "r = (a - 240) * 262144 + (b - 128) * 4096 + (c - 128) * 64 + (d - 128)"
      using assms(1) s1 s2 s4 dr [of s4] ok by simp_all
    have "take n s = [a, b, c, d]" by (simp add: n s1 s2 s4)
    then show ?thesis using wide hi n dr [of t] ok s1 s2 s4 by simp
  qed
qed

lemma codes_less [simp]: "x \<in> set (codes s) \<Longrightarrow> x < 256"
  by (auto simp: codes_def)

lemma scan_quote_codes:
  "\<forall>x \<in> set s. x < 256 \<Longrightarrow> scan_str (map char_of (quote_codes esc s) @ u) = scan_str u"
proof (induction esc s rule: quote_codes.induct)
  case (1 esc s)
  show ?case
  proof (cases "s = []")
    case True
    then show ?thesis by (simp add: quote_codes.simps)
  next
    case False
    show ?thesis
    proof (cases "hd s < 128")
      case True
      then have "scan_str (map char_of (quote_codes esc (tl s)) @ u) = scan_str u"
        using 1 False by (cases s) auto
      then show ?thesis using True False by (simp add: quote_codes.simps [of esc s] scan_quote_ascii)
    next
      case hi: False
      obtain r n where d: "decode_rune s = (r, n)" by force
      have "\<forall>x \<in> set (drop n s). x < 256" using 1(3) by (auto dest: in_set_dropD)
      then have ih: "scan_str (map char_of (quote_codes esc (drop n s)) @ u) = scan_str u"
        using 1(2) [OF False hi d [symmetric] refl] d by simp
      have q: "quote_codes esc s = (if n = 1 then [92, 117, 102, 102, 102, 100]
          else if r = 8232 then [92, 117, 50, 48, 50, 56] else if r = 8233 then [92, 117, 50, 48, 50, 57]
          else take n s) @ quote_codes esc (drop n s)"
        using False hi d by (simp add: quote_codes.simps [of esc s])
      have h: "hex_digit (CHR ''f'')" "hex_digit (CHR ''d'')" "hex_digit (CHR ''2'')" "hex_digit (CHR ''0'')"
        "hex_digit (CHR ''8'')" "hex_digit (CHR ''9'')" "hex_digit (CHR ''5'')"
        by (simp_all add: hex_digit_def)
      have "n \<noteq> 1 \<Longrightarrow> \<forall>x \<in> set (take n s). 128 \<le> x \<and> x < 256"
        using decode_rune_multi [OF d _ False] 1(3) by (auto dest: in_set_takeD)
      then show ?thesis using ih h by (cases "n = 1") (simp_all add: q char_of_codes scan_str_high)
    qed
  qed
qed

lemma scan_quote_body: "scan_str (quote_body esc s @ CHR 0x22 # u) = Some u"
  by (simp add: quote_body_def scan_quote_codes)

lemma value_text_quote [simp]: "value_text d (json_quote esc s)"
proof -
  have "scan_value d (json_quote esc s @ u) = Some u" for u
    by (cases d) (simp_all add: json_quote_def scan_scalar_def scan_quote_body)
  then show ?thesis by (simp add: value_text_def json_quote_def)
qed

lemma code_hex_codes: "n < 16 \<Longrightarrow> code_hex (of_char (digit_char n)) = n"
  by (simp add: code_hex_def)

lemma code_hex_simps: "code_hex 48 = 0" "code_hex 50 = 2" "code_hex 56 = 8" "code_hex 57 = 9" "code_hex 100 = 13" "code_hex 102 = 15"
  by (simp_all add: code_hex_def digit_val_def)

lemma hex4_simps: "hex4 (a # b # c # d # t) = code_hex a * 4096 + code_hex b * 256 + code_hex c * 16 + code_hex d"
  by (simp add: hex4_def numeral_2_eq_2 numeral_3_eq_3)

lemma unquote_u:
  "\<not> is_surrogate (hex4 [a, b, c, d]) \<Longrightarrow>
    unquote_codes (92 # 117 # a # b # c # d # t) = encode_rune (hex4 [a, b, c, d]) @ unquote_codes t"
  by (simp add: unquote_codes.simps [of "92 # 117 # a # b # c # d # t"] hex4_simps Let_def)

lemma unquote_simple:
  "e \<noteq> 117 \<Longrightarrow> unquote_codes (92 # e # t) = simple_escape e # unquote_codes t"
  by (simp add: unquote_codes.simps [of "92 # e # t"])

lemma unquote_rune:
  "s \<noteq> [] \<Longrightarrow> hd s \<noteq> 92 \<Longrightarrow>
    unquote_codes s = encode_rune (fst (decode_rune s)) @ unquote_codes (drop (snd (decode_rune s)) s)"
  by (simp add: unquote_codes.simps [of s])

lemma unquote_quote_ascii:
  assumes "c < 128"
  shows "unquote_codes (quote_ascii esc c @ t) = c # unquote_codes t"
proof -
  consider "c \<in> {92, 34, 8, 12, 10, 13, 9}"
    | "c \<notin> {92, 34, 8, 12, 10, 13, 9}" "c < 32 \<or> esc \<and> (c = 60 \<or> c = 62 \<or> c = 38)"
    | "c \<notin> {92, 34, 8, 12, 10, 13, 9}" "32 \<le> c" "\<not> (esc \<and> (c = 60 \<or> c = 62 \<or> c = 38))"
    using linorder_not_le [of 32 c] by blast
  then show ?thesis
  proof cases
    case 1
    then show ?thesis by (elim insertE emptyE) (simp_all add: quote_ascii_def unquote_simple simple_escape_def)
  next
    case 2
    have lt: "c div 16 < 16" "c mod 16 < 16" using assms by (simp_all add: div_less_iff_less_mult)
    have v: "hex4 [48, 48, of_char (digit_char (c div 16)), of_char (digit_char (c mod 16))] = c"
      using code_hex_codes [OF lt(1)] code_hex_codes [OF lt(2)] by (simp add: hex4_simps code_hex_simps)
    have ns: "\<not> is_surrogate c" using assms by (simp add: is_surrogate_def)
    have q: "quote_ascii esc c = [92, 117, 48, 48, of_char (digit_char (c div 16)), of_char (digit_char (c mod 16))]"
      using 2 by (simp add: quote_ascii_def)
    show ?thesis unfolding q using unquote_u [of 48 48 "of_char (digit_char (c div 16))" "of_char (digit_char (c mod 16))" t] v ns assms
      by (simp add: encode_rune_def)
  next
    case 3
    have "quote_ascii esc c = [c]" using 3 by (simp add: quote_ascii_def)
    then show ?thesis using 3 assms by (simp add: unquote_rune decode_rune_ascii encode_rune_def)
  qed
qed

lemma decode_rune_single: "128 \<le> hd s \<Longrightarrow> decode_rune s = (r, 1) \<Longrightarrow> s \<noteq> [] \<Longrightarrow> r = rune_error"
  by (cases s) (auto simp: decode_rune_def split: if_splits list.splits)

lemma repair_codes_step:
  "s \<noteq> [] \<Longrightarrow> repair_codes s = encode_rune (fst (decode_rune s)) @ repair_codes (drop (snd (decode_rune s)) s)"
  by (simp add: repair_codes_def runes_of.simps [of s])

lemma unquote_quote_codes: "unquote_codes (quote_codes esc s) = repair_codes s"
proof (induction esc s rule: quote_codes.induct)
  case (1 esc s)
  show ?case
  proof (cases "s = []")
    case True
    then show ?thesis by (simp add: quote_codes.simps unquote_codes.simps repair_codes_def)
  next
    case False
    show ?thesis
    proof (cases "hd s < 128")
      case True
      then obtain c t where c: "s = c # t" "c < 128" using False by (cases s) auto
      then have "repair_codes s = c # repair_codes t"
        by (simp add: repair_codes_step decode_rune_ascii encode_rune_def)
      then show ?thesis using 1(1) [OF False True] c
        by (simp add: quote_codes.simps [of esc "c # t"] unquote_quote_ascii)
    next
      case hi: False
      obtain r n where d: "decode_rune s = (r, n)" by force
      have ih: "unquote_codes (quote_codes esc (drop n s)) = repair_codes (drop n s)"
        using 1(2) [OF False hi d [symmetric] refl] d by simp
      have q: "quote_codes esc s = (if n = 1 then [92, 117, 102, 102, 102, 100]
          else if r = 8232 then [92, 117, 50, 48, 50, 56] else if r = 8233 then [92, 117, 50, 48, 50, 57]
          else take n s) @ quote_codes esc (drop n s)"
        using False hi d by (simp add: quote_codes.simps [of esc s])
      have rep: "repair_codes s = encode_rune r @ repair_codes (drop n s)" using repair_codes_step [OF False] d by simp
      consider "n = 1" | "n \<noteq> 1" "r = 8232" | "n \<noteq> 1" "r = 8233" | "n \<noteq> 1" "r \<noteq> 8232" "r \<noteq> 8233" by blast
      then show ?thesis
      proof cases
        case 1
        then have "r = rune_error" using decode_rune_single [of s r] d hi False by simp
        then show ?thesis using 1 ih rep
          by (simp add: q unquote_u hex4_simps code_hex_simps is_surrogate_def rune_error_def)
      next
        case 2
        then show ?thesis using ih rep by (simp add: q unquote_u hex4_simps code_hex_simps is_surrogate_def)
      next
        case 3
        then show ?thesis using ih rep by (simp add: q unquote_u hex4_simps code_hex_simps is_surrogate_def)
      next
        case 4
        let ?t = "quote_codes esc (drop n s)"
        from decode_rune_multi [OF d 4(1) False, of ?t]
        have m: "2 \<le> n" "n \<le> length s" "decode_rune (take n s @ ?t) = (r, n)" "\<forall>x \<in> set (take n s). 128 \<le> x" by auto
        then have "hd (take n s @ ?t) \<in> set (take n s)" using False by (cases s; cases n) auto
        then have "hd (take n s @ ?t) \<noteq> 92" using m(4) by force
        moreover have "take n s @ ?t \<noteq> []" using m False by auto
        ultimately have "unquote_codes (take n s @ ?t) = encode_rune r @ unquote_codes ?t"
          using m by (subst unquote_rune) simp_all
        then show ?thesis using 4 ih rep by (simp add: q)
      qed
    qed
  qed
qed

lemma quote_ascii_less: "c < 128 \<Longrightarrow> x \<in> set (quote_ascii esc c) \<Longrightarrow> x < 256"
  by (auto simp: quote_ascii_def split: if_splits)

lemma quote_codes_less: "\<forall>x \<in> set s. x < 256 \<Longrightarrow> x \<in> set (quote_codes esc s) \<Longrightarrow> x < 256"
proof (induction esc s rule: quote_codes.induct)
  case (1 esc s)
  show ?case
  proof (cases "s = []")
    case True
    then show ?thesis using 1(4) by (simp add: quote_codes.simps)
  next
    case False
    then have t: "\<forall>x \<in> set (tl s). x < 256" "\<forall>x \<in> set (drop n s). x < 256" "\<forall>x \<in> set (take n s). x < 256" for n
      using 1(3) by (auto dest: in_set_dropD in_set_takeD list.set_sel(2))
    show ?thesis
    proof (cases "hd s < 128")
      case True
      then show ?thesis using 1(1) [OF False True t(1)] 1(4) False quote_ascii_less [OF True]
        by (auto simp: quote_codes.simps [of esc s])
    next
      case hi: False
      obtain r n where d: "decode_rune s = (r, n)" by force
      show ?thesis using 1(2) [OF False hi d [symmetric] refl] 1(4) d t False hi
        by (auto simp: quote_codes.simps [of esc s] split: if_splits)
    qed
  qed
qed

lemma codes_char_of: "\<forall>x \<in> set xs. x < 256 \<Longrightarrow> codes (map char_of xs) = xs"
  by (induction xs) auto

lemma unquote_quote [simp, codec]: "unquote (quote_body esc s) = repair s"
  using quote_codes_less [of "codes s"]
  by (simp add: unquote_def quote_body_def repair_def codes_char_of unquote_quote_codes)

lemma repair_codes_ascii: "\<forall>x \<in> set s. x < 128 \<Longrightarrow> repair_codes s = s"
  by (induction s) (simp_all add: repair_codes_def encode_rune_def)

lemma repair_ascii [simp]: "ascii s \<Longrightarrow> repair s = s"
proof -
  assume "ascii s"
  then have "\<forall>x \<in> set (codes s). x < 128" by (auto simp: ascii_def codes_def list_all_iff)
  then have "repair_codes (codes s) = codes s" by (rule repair_codes_ascii)
  then show ?thesis by (simp add: repair_def codes_def comp_def)
qed

lemma string_lit_quote [simp, codec]: "string_lit (json_quote esc s) = Some (repair s)"
  by (simp add: string_lit_def json_quote_def)

section \<open>Lemmas: documents\<close>

lemma scan_object_quote:
  assumes "\<forall>(k, v) \<in> set ms. value_text d v"
  shows "scan_object (scan_value d) (join (CHR '','') (map (\<lambda>(k, v). json_quote True k @ CHR '':'' # v) ms) @ CHR ''}'' # rest)
    = Some (map (\<lambda>(k, v). (json_quote True k, v)) ms, rest)"
proof -
  let ?qs = "map (\<lambda>(k, v). (quote_body True k, v)) ms"
  have "\<forall>(k, v) \<in> set ?qs. value_text d v \<and> (\<forall>u. scan_str (k @ CHR 0x22 # u) = Some u)"
    using assms by (auto simp: scan_quote_body)
  from scan_object_enc [OF this, of rest] show ?thesis
    by (simp add: json_quote_def case_prod_unfold comp_def)
qed

lemma value_text_object:
  assumes "\<forall>(k, v) \<in> set ms. value_text d v"
  shows "value_text (Suc d) (enc_object ms)"
  using scan_object_quote [OF assms] by (simp add: value_text_def enc_object_def)

lemma json_members_enc:
  assumes "\<forall>(k, v) \<in> set ms. value_text json_depth v"
  shows "json_members (enc_object ms) = Some (map (\<lambda>(k, v). (repair k, v)) ms)"
proof -
  have "unquote (butlast (tl (json_quote True k))) = repair k" for k by (simp add: json_quote_def)
  then show ?thesis using scan_object_quote [OF assms, of "[]"]
    by (simp add: json_members_def enc_object_def case_prod_unfold)
qed

lemma json_document_value_text: "value_text (Suc json_depth) t \<Longrightarrow> json_document t = Some t"
  using value_text_scan [of "Suc json_depth" t "[]"] value_text_skip [of "Suc json_depth" t "[]"] consumed_append [of t "[]"]
  by (simp add: json_document_def)

lemma value_text_mono: "value_text 0 t \<Longrightarrow> hd t \<noteq> CHR ''{'' \<Longrightarrow> hd t \<noteq> CHR ''['' \<Longrightarrow> value_text d t"
  by (cases d; cases t) (auto simp: value_text_def)

text \<open>A deeper limit accepts what a smaller one does.\<close>

lemma scan_elems_mono:
  assumes "\<And>s r. f s = Some r \<Longrightarrow> g s = Some r"
  shows "scan_elems n f s = Some x \<Longrightarrow> scan_elems n g s = Some x"
proof (induction n arbitrary: s x)
  case (Suc n)
  from Suc.prems obtain r where r: "f s = Some r" by (auto split: option.splits)
  then show ?case using Suc.prems assms [OF r] Suc.IH by (auto split: list.splits option.splits if_splits)
qed simp

lemma scan_members_mono:
  assumes "\<And>s r. f s = Some r \<Longrightarrow> g s = Some r"
  shows "scan_members n f s = Some x \<Longrightarrow> scan_members n g s = Some x"
proof (induction n arbitrary: s x)
  case (Suc n)
  from Suc.prems obtain q k r c t where k: "s = q # k" "q = CHR 0x22" "scan_str k = Some r" "skip_ws r = c # t" "c = CHR '':''"
    by (auto split: list.splits option.splits if_splits)
  with Suc.prems obtain r' where r': "f (skip_ws t) = Some r'" by (auto simp: Let_def split: option.splits)
  then show ?case using Suc.prems k assms [OF r'] Suc.IH by (auto simp: Let_def split: list.splits option.splits if_splits)
qed simp

lemma scan_value_Suc: "scan_value d s = Some r \<Longrightarrow> scan_value (Suc d) s = Some r"
proof (induction d arbitrary: s r)
  case 0
  then show ?case by (cases s) (auto simp: scan_scalar_def is_digit_def scan_lit_def)
next
  case (Suc d)
  have e: "scan_elems n (scan_value d) u = Some x \<Longrightarrow> scan_elems n (scan_value (Suc d)) u = Some x" for n u x
    by (rule scan_elems_mono [OF Suc.IH])
  have m: "scan_members n (scan_value d) u = Some x \<Longrightarrow> scan_members n (scan_value (Suc d)) u = Some x" for n u x
    by (rule scan_members_mono [OF Suc.IH])
  have a: "scan_array (scan_value d) u = Some x \<Longrightarrow> scan_array (scan_value (Suc d)) u = Some x" for u x
    using e [of "length u" "skip_ws u" x] by (auto simp: scan_array_def split: list.splits)
  have ob: "scan_object (scan_value d) u = Some x \<Longrightarrow> scan_object (scan_value (Suc d)) u = Some x" for u x
    using m [of "length u" "skip_ws u" x] by (auto simp: scan_object_def split: list.splits)
  obtain c t where s: "s = c # t" using Suc.prems by (cases s) auto
  show ?case
    using Suc.prems a ob unfolding s by (auto simp del: scan_value.simps simp: scan_value.simps(2) [of d] scan_value.simps(2) [of "Suc d"] split: if_splits)
qed

lemma value_text_le: "value_text d t \<Longrightarrow> d \<le> e \<Longrightarrow> value_text e t"
proof (induction e)
  case (Suc e)
  then show ?case using scan_value_Suc by (cases "d = Suc e") (auto simp: value_text_def)
qed simp

text \<open>Numbers and literals.\<close>

lemma digit_char_10: "n < 10 \<Longrightarrow> is_digit (digit_char n)"
proof -
  have "list_all (\<lambda>n. is_digit (digit_char n)) [0..<10]"
    by (simp add: is_digit_def digit_char_def digit_chars_def upt_rec)
  then show "n < 10 \<Longrightarrow> is_digit (digit_char n)" by (auto simp: list_all_iff)
qed

lemma to_base_10_digits: "list_all is_digit (to_base 10 n)"
  using set_to_base [of 10 n] digit_char_10 by (auto simp: list_all_iff)

lemma hd_to_base_10: "hd (to_base 10 n) = CHR ''0'' \<longleftrightarrow> n = 0"
proof (induction n rule: less_induct)
  case (less n)
  show ?case
  proof (cases "n < 10")
    case True
    have "list_all (\<lambda>n. digit_char n = CHR ''0'' \<longleftrightarrow> n = 0) [0..<10]"
      by (simp add: digit_char_def digit_chars_def upt_rec)
    then have "digit_char n = CHR ''0'' \<longleftrightarrow> n = 0" using True by (auto simp: list_all_iff)
    then show ?thesis using True by (simp add: to_base.simps [of 10 n])
  next
    case False
    then have "hd (to_base 10 n) = hd (to_base 10 (n div 10))" by (simp add: to_base.simps [of 10 n])
    then show ?thesis using less.IH [of "n div 10"] False by simp
  qed
qed

lemma is_digit_punct [simp]: "\<not> is_digit (CHR '','')" "\<not> is_digit (CHR '']'')" "\<not> is_digit (CHR ''}'')" "\<not> is_digit (CHR ''-'')"
  "\<not> is_digit (CHR 0x22)" "\<not> is_digit (CHR ''t'')" "\<not> is_digit (CHR ''f'')" "\<not> is_digit (CHR ''n'')"
  "\<not> is_digit (CHR ''{'')" "\<not> is_digit (CHR ''['')"
  by (simp_all add: is_digit_def)

lemma delim_not_digit: "delim rest \<Longrightarrow> dropWhile is_digit rest = rest"
  by (cases rest) (auto simp: delim_def)

lemma delim_scan_frac: "delim rest \<Longrightarrow> scan_frac rest = Some rest"
  by (cases rest) (auto simp: delim_def scan_frac_def scan_exp_def)

lemma is_digit_not: "is_digit c \<Longrightarrow> c \<noteq> CHR ''-'' \<and> c \<noteq> CHR 0x22 \<and> c \<noteq> CHR ''{'' \<and> c \<noteq> CHR ''['' \<and> c \<noteq> CHR '']'' \<and> \<not> json_ws c"
  by (auto simp: is_digit_def json_ws_def)

lemma scan_number_nat: "delim rest \<Longrightarrow> scan_number (to_base 10 n @ rest) = Some rest"
proof -
  assume d: "delim rest"
  obtain c t where ct: "to_base 10 n = c # t" by (cases "to_base 10 n") auto
  have dig: "is_digit c" "list_all is_digit t" using to_base_10_digits [of n] ct by auto
  show ?thesis
  proof (cases "n = 0")
    case True
    then have "c # t = ''0''" using ct by (simp add: to_base.simps digit_char_def digit_chars_def)
    then show ?thesis using ct d by (simp add: scan_number_def delim_scan_frac)
  next
    case False
    then have "c \<noteq> CHR ''0''" using hd_to_base_10 [of n] ct by simp
    moreover have "dropWhile is_digit (t @ rest) = rest"
      using dig delim_not_digit [OF d] by (simp add: dropWhile_append2 list_all_iff)
    ultimately show ?thesis using ct d dig is_digit_not [OF dig(1)] by (simp add: scan_number_def delim_scan_frac)
  qed
qed

lemma value_text_itoa [simp]: "value_text d (itoa i)"
proof (rule value_text_mono)
  obtain c t where ct: "to_base 10 (nat i) = c # t" "is_digit c"
    using to_base_10_digits [of "nat i"] by (cases "to_base 10 (nat i)") auto
  show "value_text 0 (itoa i)"
  proof (cases "i < 0")
    case True
    have "scan_number (CHR ''-'' # to_base 10 (nat (- i)) @ rest) = scan_number (to_base 10 (nat (- i)) @ rest)" for rest
      using to_base_10_digits [of "nat (- i)"] by (cases "to_base 10 (nat (- i))") (auto simp: scan_number_def)
    then show ?thesis using True scan_number_nat
      by (simp add: value_text_def itoa_def scan_scalar_def json_ws_def)
  next
    case False
    have "scan_number (c # t @ rest) = Some rest" if "delim rest" for rest
      using scan_number_nat [OF that, of "nat i"] ct by simp
    then show ?thesis using False ct is_digit_not [OF ct(2)] by (simp add: value_text_def itoa_def scan_scalar_def)
  qed
  show "hd (itoa i) \<noteq> CHR ''{''" "hd (itoa i) \<noteq> CHR ''[''"
    using ct is_digit_not [OF ct(2)] by (auto simp: itoa_def)
qed

lemma value_text_lits [simp]: "value_text d ''null''" "value_text d ''true''" "value_text d ''false''"
  by (rule value_text_mono; simp add: value_text_def scan_scalar_def scan_lit_def json_ws_def)+

lemma value_text_enc [simp]: "value_text d (enc_string s)" "value_text d (enc_bool b)"
  by (simp_all add: enc_string_def enc_bool_def)

section \<open>Lemmas: typed decoding\<close>

lemma json_null_simps [simp]:
  "json_null ''null''" "\<not> json_null (itoa i)" "\<not> json_null (enc_string s)" "\<not> json_null (enc_bool b)"
  "\<not> json_null (enc_array ts)" "\<not> json_null (enc_object ms)" "\<not> json_null (CHR 0x22 # t)"
proof -
  obtain c t where ct: "itoa i = c # t" "c = CHR ''-'' \<or> is_digit c"
    using to_base_10_digits [of "nat i"] by (cases "i < 0"; cases "to_base 10 (nat i)") (simp_all add: itoa_def)
  then show "\<not> json_null (itoa i)" by (auto simp: json_null_def)
qed (simp_all add: json_null_def enc_string_def json_quote_def enc_bool_def enc_array_def enc_object_def)

lemma parse_int_itoa [simp, codec]: "lo \<le> i \<Longrightarrow> i \<le> hi \<Longrightarrow> parse_int lo hi (itoa i) = Some i"
proof -
  assume a: "lo \<le> i" "i \<le> hi"
  obtain c t where ct: "to_base 10 (nat i) = c # t" "is_digit c" "list_all is_digit t"
    using to_base_10_digits [of "nat i"] by (cases "to_base 10 (nat i)") auto
  then show ?thesis using a to_base_10_digits is_digit_not [OF ct(2)] of_to_base [of 10 "nat i"]
    by (cases "i < 0") (auto simp: parse_int_def itoa_def)
qed

lemma itoa_inj: "itoa i = itoa j \<Longrightarrow> i = j"
proof -
  assume "itoa i = itoa j"
  then have "parse_int (min i j) (max i j) (itoa i) = parse_int (min i j) (max i j) (itoa j)" by simp
  then show ?thesis by simp
qed

lemma dec_int_itoa [simp, codec]: "lo \<le> i \<Longrightarrow> i \<le> hi \<Longrightarrow> dec_int lo hi (itoa i) old = Some i"
  by (simp add: dec_int_def)

lemma dec_int64_itoa [simp, codec]: "- (2 ^ 63) \<le> i \<Longrightarrow> i < 2 ^ 63 \<Longrightarrow> dec_int64 (itoa i) old = Some i"
  by (simp add: dec_int64_def)

lemma dec_int32_itoa [simp, codec]: "dec_int32 (itoa (sint w)) old = Some w"
  using sint_greater_eq [of w] sint_less [of w] by (simp add: dec_int32_def)

lemma dec_string_enc [simp, codec]: "dec_string (enc_string s) old = Some (repair s)"
  by (simp add: dec_string_def) (simp add: enc_string_def)

lemma dec_bool_enc [simp, codec]: "dec_bool (enc_bool b) old = Some b"
  by (simp add: dec_bool_def) (simp add: enc_bool_def)

lemma map_dec_map: "(\<And>x. x \<in> set xs \<Longrightarrow> f (g x) zero = Some (h x)) \<Longrightarrow> map_dec f zero (map g xs) = Some (map h xs)"
  by (induction xs) auto

lemma dec_slice_enc:
  assumes "\<And>x. x \<in> set xs \<Longrightarrow> value_text json_depth (g x)" "\<And>x. x \<in> set xs \<Longrightarrow> f (g x) zero = Some (h x)"
  shows "dec_slice f zero (enc_array (map g xs)) = Some (Some (map h xs))"
  using assms by (simp add: dec_slice_def json_elements_enc map_dec_map)

lemma dec_struct_enc:
  assumes "\<forall>(k, v) \<in> set ms. value_text json_depth v"
  shows "dec_struct fs (enc_object ms) old = set_fields fs (map (\<lambda>(k, v). (repair k, v)) ms) old"
  by (simp add: dec_struct_def json_members_enc [OF assms])

lemma unmarshal_value_text: "value_text (Suc json_depth) t \<Longrightarrow> unmarshal f t old = f t old"
  by (simp add: unmarshal_def json_document_value_text)

lemma unmarshal_struct_enc:
  assumes "\<forall>(k, v) \<in> set ms. value_text json_depth v"
  shows "unmarshal (dec_struct fs) (enc_object ms) old = set_fields fs (map (\<lambda>(k, v). (repair k, v)) ms) old"
  by (simp add: unmarshal_value_text value_text_object [OF assms] dec_struct_enc [OF assms])

lemma fold_rune_ascii: "r < 128 \<Longrightarrow> fold_rune r = (if 97 \<le> r \<and> r \<le> 122 then r - 32 else r)"
  by (simp add: fold_rune_def)

lemma set_fields_append: "set_fields fs (xs @ ys) r = (case set_fields fs xs r of None \<Rightarrow> None | Some r' \<Rightarrow> set_fields fs ys r')"
  by (induction fs xs r rule: set_fields.induct) (auto split: option.splits)

end
