(* ===== verification/Float64.thy ===== *)
theory Float64
  imports Json
begin

text \<open>
  The \<open>float64\<close> values that pass through the program: a JSON number becomes the nearest
  double (ties to even), is compared with an \<open>int32\<close>, and is printed again, as an integer
  where it is one and by \<open>strconv.FormatFloat(f, 'g', -1, 64)\<close> otherwise. A finite value is
  sign, mantissa and exponent, \<open>mant * 2 ^ expo\<close>, with the mantissa in \<open>[2 ^ 52, 2 ^ 53)\<close>
  or the exponent \<open>-1074\<close>. The conversion of an out-of-range value to \<open>int64\<close> is that of amd64.
\<close>

datatype f64 = F64 (neg: bool) (mant: nat) (expo: int)

definition f64_zero :: f64 where
  "f64_zero = F64 False 0 (- 1074)"

fun bit_len :: "nat \<Rightarrow> nat" where
  "bit_len n = (if n = 0 then 0 else Suc (bit_len (n div 2)))"

declare bit_len.simps [simp del]

definition div_even :: "nat \<Rightarrow> nat \<Rightarrow> nat" where
  "div_even a b =
     (let q = a div b; r = a mod b
      in if 2 * r < b \<or> 2 * r = b \<and> even q then q else q + 1)"

text \<open>\<open>num / den / 2 ^ e\<close>, rounded.\<close>

definition scale_even :: "nat \<Rightarrow> nat \<Rightarrow> int \<Rightarrow> nat" where
  "scale_even num den e =
     (if e < 0 then div_even (num * 2 ^ nat (- e)) den else div_even num (den * 2 ^ nat e))"

definition round_exp :: "nat \<Rightarrow> nat \<Rightarrow> int" where
  "round_exp num den =
     (let e = int (bit_len num) - int (bit_len den) - 53;
          big = (if e < 0 then 2 ^ 53 * den \<le> num * 2 ^ nat (- e) else 2 ^ 53 * (den * 2 ^ nat e) \<le> num)
      in max (- 1074) (if big then e + 1 else e))"

text \<open>The nearest double of \<open>num / den\<close>; \<open>None\<close> is \<open>strconv.ErrRange\<close>.\<close>

definition round_f64 :: "bool \<Rightarrow> nat \<Rightarrow> nat \<Rightarrow> f64 option" where
  "round_f64 sign num den =
     (if num = 0 then Some (F64 sign 0 (- 1074))
      else let e = round_exp num den; m = scale_even num den e;
               (m', e') = (if m = 2 ^ 53 then (2 ^ 52, e + 1) else (m, e))
           in if 971 < e' then None else Some (F64 sign m' e'))"

definition split_number :: "string \<Rightarrow> bool \<times> string \<times> string \<times> int" where
  "split_number lit =
     (let (sign, s) = (case lit of c # t \<Rightarrow> if c = CHR ''-'' then (True, t) else (False, lit) | [] \<Rightarrow> (False, []));
          ip = takeWhile is_digit s; s1 = dropWhile is_digit s;
          (fp, s2) = (case s1 of c # t \<Rightarrow> if c = CHR ''.'' then (takeWhile is_digit t, dropWhile is_digit t) else ([], s1)
                      | [] \<Rightarrow> ([], []));
          ex = (case s2 of
                  c # t \<Rightarrow>
                    (case t of
                       x # u \<Rightarrow> if x = CHR ''-'' then - int (of_base 10 u)
                                 else if x = CHR ''+'' then int (of_base 10 u) else int (of_base 10 t)
                     | [] \<Rightarrow> 0)
                | [] \<Rightarrow> 0)
      in (sign, ip, fp, ex))"

definition parse_f64 :: "string \<Rightarrow> f64 option" where
  "parse_f64 lit =
     (let (sign, ip, fp, ex) = split_number lit; n = of_base 10 (ip @ fp); e = ex - int (length fp)
      in if e < 0 then round_f64 sign n (10 ^ nat (- e)) else round_f64 sign (n * 10 ^ nat e) 1)"

definition is_number :: "string \<Rightarrow> bool" where
  "is_number raw \<longleftrightarrow> raw \<noteq> [] \<and> (hd raw = CHR ''-'' \<or> is_digit (hd raw))"

definition dec_f64 :: "string \<Rightarrow> f64 \<Rightarrow> f64 option" where
  "dec_f64 raw old = (if json_null raw then Some old else if is_number raw then parse_f64 raw else None)"

definition f64_of_int :: "int \<Rightarrow> f64" where
  "f64_of_int i = (case round_f64 (i < 0) (nat \<bar>i\<bar>) 1 of Some f \<Rightarrow> f | None \<Rightarrow> f64_zero)"

text \<open>\<open>==\<close> on canonical values; the two zeros are equal.\<close>

definition f64_eq :: "f64 \<Rightarrow> f64 \<Rightarrow> bool" where
  "f64_eq a b \<longleftrightarrow> mant a = 0 \<and> mant b = 0 \<or> a = b"

definition f64_trunc :: "f64 \<Rightarrow> int" where
  "f64_trunc f =
     (let v = (if expo f < 0 then int (mant f div 2 ^ nat (- expo f)) else int (mant f * 2 ^ nat (expo f)))
      in if neg f then - v else v)"

definition int64_of_f64 :: "f64 \<Rightarrow> int" where
  "int64_of_f64 f = (let v = f64_trunc f in if - (2 ^ 63) \<le> v \<and> v < 2 ^ 63 then v else - (2 ^ 63))"

section \<open>FormatFloat(f, 'g', -1, 64)\<close>

text \<open>Numerator and denominator of the absolute value, and the decimal point position.\<close>

definition f64_frac :: "f64 \<Rightarrow> nat \<times> nat" where
  "f64_frac f = (if expo f < 0 then (mant f, 2 ^ nat (- expo f)) else (mant f * 2 ^ nat (expo f), 1))"

fun dec_point_up :: "nat \<Rightarrow> nat \<Rightarrow> nat \<Rightarrow> nat" where
  "dec_point_up 0 num den = 0"
| "dec_point_up (Suc k) num den = (if num < den then 0 else Suc (dec_point_up k num (den * 10)))"

fun dec_point_down :: "nat \<Rightarrow> nat \<Rightarrow> nat \<Rightarrow> nat" where
  "dec_point_down 0 num den = 0"
| "dec_point_down (Suc k) num den = (if den \<le> num * 10 then 0 else Suc (dec_point_down k (num * 10) den))"

definition dec_point :: "nat \<Rightarrow> nat \<Rightarrow> int" where
  "dec_point num den = (if den \<le> num then int (dec_point_up 400 num den) else - int (dec_point_down 400 num den))"

text \<open>
  The shortest digits that read back as \<open>f\<close>: for each length the two neighbours of the exact
  value, the nearer one first. Seventeen digits always suffice.
\<close>

definition reads_as :: "f64 \<Rightarrow> nat \<Rightarrow> int \<Rightarrow> bool" where
  "reads_as f d e =
     ((if e < 0 then round_f64 (neg f) d (10 ^ nat (- e)) else round_f64 (neg f) (d * 10 ^ nat e) 1) = Some f)"

fun shortest_from :: "nat \<Rightarrow> nat \<Rightarrow> f64 \<Rightarrow> nat \<Rightarrow> nat \<Rightarrow> int \<Rightarrow> nat \<times> int" where
  "shortest_from 0 n f num den dp = (0, 0)"
| "shortest_from (Suc k) n f num den dp =
     (let e = dp - int n;
          a = (if e < 0 then num * 10 ^ nat (- e) else num); b = (if e < 0 then den else den * 10 ^ nat e);
          lo = a div b; r = a mod b;
          (c1, c2) = (if 2 * r < b \<or> 2 * r = b \<and> even lo then (lo, lo + 1) else (lo + 1, lo))
      in if reads_as f c1 e then (c1, e) else if reads_as f c2 e then (c2, e)
         else shortest_from k (n + 1) f num den dp)"

definition trim_zeros :: "string \<Rightarrow> string" where
  "trim_zeros s = rev (dropWhile (\<lambda>c. c = CHR ''0'') (rev s))"

definition shortest_digits :: "f64 \<Rightarrow> string \<times> int" where
  "shortest_digits f =
     (let (num, den) = f64_frac f; (d, e) = shortest_from 17 1 f num den (dec_point num den); s = to_base 10 d
      in (trim_zeros s, int (length s) + e))"

definition fmt_e :: "string \<Rightarrow> int \<Rightarrow> string" where
  "fmt_e ds dp =
     (let x = dp - 1; ax = nat \<bar>x\<bar>
      in take 1 ds @ (if length ds > 1 then CHR ''.'' # drop 1 ds else [])
         @ CHR ''e'' # (if x < 0 then CHR ''-'' else CHR ''+'') # pad_left (CHR ''0'') 2 (to_base 10 ax))"

definition fmt_f :: "string \<Rightarrow> int \<Rightarrow> string" where
  "fmt_f ds dp =
     (let ip = (if 0 < dp then take (nat dp) ds @ replicate (nat dp - length ds) (CHR ''0'') else ''0'');
          fp = (if 0 < dp then drop (nat dp) ds else replicate (nat (- dp)) (CHR ''0'') @ ds)
      in ip @ (if fp = [] then [] else CHR ''.'' # fp))"

definition format_float_g :: "f64 \<Rightarrow> string" where
  "format_float_g f =
     (let sign = (if neg f then ''-'' else [])
      in if mant f = 0 then sign @ ''0''
         else let (ds, dp) = shortest_digits f; x = dp - 1
              in sign @ (if x < - 4 \<or> 6 \<le> x then fmt_e ds dp else fmt_f ds dp))"

section \<open>Lemmas: small integers are exact\<close>

lemma bit_len_bounds: "0 < n \<Longrightarrow> 0 < bit_len n \<and> 2 ^ (bit_len n - 1) \<le> n \<and> n < 2 ^ bit_len n"
proof (induction n rule: bit_len.induct)
  case (1 n)
  show ?case
  proof (cases "n div 2 = 0")
    case True
    with 1 have "n = 1" by simp
    then show ?thesis by (simp add: bit_len.simps)
  next
    case False
    then have ih: "0 < bit_len (n div 2)" "2 ^ (bit_len (n div 2) - 1) \<le> n div 2" "n div 2 < 2 ^ bit_len (n div 2)"
      using 1 by simp_all
    have "2 ^ bit_len (n div 2) = 2 * (2 :: nat) ^ (bit_len (n div 2) - 1)"
      using ih(1) by (simp flip: power_Suc)
    moreover have "n div 2 * 2 \<le> n" "n < n div 2 * 2 + 2" by linarith+
    ultimately have "2 ^ bit_len (n div 2) \<le> n" "n < 2 * 2 ^ bit_len (n div 2)" using ih by linarith+
    moreover have "bit_len n = Suc (bit_len (n div 2))" using False by (simp add: bit_len.simps [of n])
    ultimately show ?thesis by simp
  qed
qed

lemma bit_len_le: "n < 2 ^ k \<Longrightarrow> bit_len n \<le> k"
proof (cases "n = 0")
  case False
  assume "n < 2 ^ k"
  moreover have "2 ^ (bit_len n - 1) \<le> n" "0 < bit_len n" using bit_len_bounds False by auto
  ultimately have "(2 :: nat) ^ (bit_len n - 1) < 2 ^ k" by linarith
  then have "bit_len n - 1 < k" by simp
  then show ?thesis by simp
qed (simp add: bit_len.simps)

lemma round_small:
  assumes "0 < n" "n < 2 ^ 53"
  shows "round_f64 s n 1 = Some (F64 s (n * 2 ^ (53 - bit_len n)) (int (bit_len n) - 53))"
proof -
  let ?b = "bit_len n"
  have b: "0 < ?b" "?b \<le> 53" "2 ^ (?b - 1) \<le> n" "n < 2 ^ ?b"
    using bit_len_bounds [OF assms(1)] bit_len_le [OF assms(2)] by auto
  have b1: "bit_len (Suc 0) = Suc 0" by (simp add: bit_len.simps)
  have p: "(2 :: nat) ^ (54 - ?b) * 2 ^ (?b - 1) = 2 ^ 53"
    using b by (simp flip: power_add)
  have big: "2 ^ 53 \<le> n * 2 ^ (54 - ?b)"
    using mult_le_mono1 [OF b(3), of "2 ^ (54 - ?b)"] p by (simp only: mult.commute)
  have n54: "nat (54 - int ?b) = 54 - ?b" using b by linarith
  have e: "round_exp n 1 = int ?b - 53"
    using big b by (simp add: round_exp_def b1 Let_def n54)
  have q: "(2 :: nat) ^ (53 - ?b) * 2 ^ ?b = 2 ^ 53" using b by (simp flip: power_add)
  have lt: "n * 2 ^ (53 - ?b) < 2 ^ 53"
    using mult_less_mono1 [OF b(4), of "2 ^ (53 - ?b)"] q by (simp only: mult.commute zero_less_numeral zero_less_power)
  have "scale_even n 1 (int ?b - 53) = n * 2 ^ (53 - ?b)"
    using b by (cases "?b = 53") (simp_all add: scale_even_def div_even_def nat_diff_distrib)
  then show ?thesis using e lt b assms by (simp add: round_f64_def Let_def)
qed

lemma trunc_small:
  assumes "0 < n" "n < 2 ^ 53"
  shows "f64_trunc (F64 s (n * 2 ^ (53 - bit_len n)) (int (bit_len n) - 53)) = (if s then - int n else int n)"
proof -
  have b: "bit_len n \<le> 53" using bit_len_le [OF assms(2)] .
  show ?thesis
  proof (cases "bit_len n = 53")
    case True
    then show ?thesis by (simp add: f64_trunc_def)
  next
    case False
    with b have "nat (53 - int (bit_len n)) = 53 - bit_len n" by linarith
    then show ?thesis using b False by (simp add: f64_trunc_def)
  qed
qed

lemma takeWhile_digits: "list_all is_digit s \<Longrightarrow> takeWhile is_digit s = s \<and> dropWhile is_digit s = []"
  by (induction s) auto

lemma split_digits:
  assumes "list_all is_digit s" "s \<noteq> []"
  shows "split_number s = (False, s, [], 0)" "split_number (CHR ''-'' # s) = (True, s, [], 0)"
proof -
  obtain c t where "s = c # t" "c \<noteq> CHR ''-''" using assms is_digit_not by (cases s) auto
  then show "split_number s = (False, s, [], 0)" "split_number (CHR ''-'' # s) = (True, s, [], 0)"
    using takeWhile_digits [OF assms(1)] by (simp_all add: split_number_def Let_def)
qed

lemma parse_f64_itoa: "parse_f64 (itoa i) = round_f64 (i < 0) (nat \<bar>i\<bar>) 1"
proof -
  have "split_number (itoa i) = (i < 0, to_base 10 (nat \<bar>i\<bar>), [], 0)"
    using split_digits [OF to_base_10_digits] by (simp add: itoa_def)
  then show ?thesis by (simp add: parse_f64_def)
qed

lemma dec_f64_itoa [simp]:
  assumes "\<bar>i\<bar> < 2 ^ 53"
  shows "dec_f64 (itoa i) old = Some (f64_of_int i)"
proof -
  have "is_number (itoa i)"
    using to_base_10_digits [of "nat i"] by (cases "to_base 10 (nat i)") (auto simp: is_number_def itoa_def)
  moreover have "round_f64 (i < 0) (nat \<bar>i\<bar>) 1 = Some (f64_of_int i)"
  proof (cases "i = 0")
    case False
    then have "round_f64 (i < 0) (nat \<bar>i\<bar>) 1 \<noteq> None" using assms by (subst round_small) (auto simp: nat_less_iff)
    then show ?thesis by (auto simp: f64_of_int_def)
  qed (simp add: f64_of_int_def round_f64_def)
  ultimately show ?thesis by (simp add: dec_f64_def parse_f64_itoa)
qed

lemma int64_of_f64_int [simp]:
  assumes "\<bar>i\<bar> < 2 ^ 53"
  shows "int64_of_f64 (f64_of_int i) = i"
proof (cases "i = 0")
  case False
  then have n: "0 < nat \<bar>i\<bar>" "nat \<bar>i\<bar> < 2 ^ 53" using assms by (auto simp: nat_less_iff)
  have "f64_trunc (f64_of_int i) = i"
    unfolding f64_of_int_def round_small [OF n] option.case trunc_small [OF n] by simp
  moreover have "- (2 ^ 63) \<le> i \<and> i < 2 ^ 63" using assms by (simp add: abs_less_iff)
  ultimately show ?thesis unfolding int64_of_f64_def Let_def by simp
qed (simp add: f64_of_int_def round_f64_def int64_of_f64_def f64_trunc_def)

lemma f64_of_int_inj:
  assumes "\<bar>i\<bar> < 2 ^ 53" "\<bar>j\<bar> < 2 ^ 53"
  shows "f64_eq (f64_of_int i) (f64_of_int j) \<longleftrightarrow> i = j"
proof -
  have z: "mant (f64_of_int k) = 0 \<longleftrightarrow> k = 0" if "\<bar>k\<bar> < 2 ^ 53" for k
  proof (cases "k = 0")
    case False
    then have n: "0 < nat \<bar>k\<bar>" "nat \<bar>k\<bar> < 2 ^ 53" using that by (auto simp: nat_less_iff)
    show ?thesis unfolding f64_of_int_def round_small [OF n] using False by simp
  qed (simp add: f64_of_int_def round_f64_def)
  show ?thesis
  proof (cases "i = j")
    case True
    show ?thesis unfolding True by (simp add: f64_eq_def)
  next
    case False
    then have "f64_of_int i \<noteq> f64_of_int j"
      using int64_of_f64_int [OF assms(1)] int64_of_f64_int [OF assms(2)] by metis
    then show ?thesis unfolding f64_eq_def z [OF assms(1)] z [OF assms(2)] using False by blast
  qed
qed

end
