(* ===== verification/Records.thy ===== *)
theory Records
  imports Prelude
begin

text \<open>
  The data that the components exchange: the instrumentation types of \<open>instrumentation.go\<close>
  and the store records of \<open>store.go\<close>. A Go \<open>int32\<close> is a \<open>32 word\<close> read with \<open>sint\<close>;
  the \<open>int64\<close> time stamps (Unix milliseconds) and durations are \<open>int\<close>, since no addition
  of the program comes near their range.
\<close>

record instr_options =
  BlockAutomatedBrowsers :: bool
  ObfuscationLevel :: int
  optTTL :: int

record instr_meta =
  mID :: string
  mExpectedVals :: "i32 list"
  mVars :: "string list"
  mBlock :: bool
  mExpires :: int

record instrumentation =
  iBlob :: string
  iMeta :: instr_meta

record challenge_record =
  cCount :: int
  cSize :: int
  cDifficulty :: int
  cScope :: string
  cExpires :: int
  cInstr :: "instr_meta option"

record token_record =
  tScope :: string
  tExpires :: int

end
