(* ===== verification/Instr.thy ===== *)
theory Instr
  imports Float64 Records Errors
begin

text \<open>
  The verification half of \<open>instrumentation.go\<close>: the JSON form of the secret metadata, the
  decoding of the client's report and the rules applied to it at redemption. A function that
  returns only an \<open>error\<close> returns a \<open>go_error option\<close>, \<open>None\<close> for nil.
\<close>

section \<open>Metadata\<close>

definition zero_meta :: instr_meta where
  "zero_meta = \<lparr>mID = [], mExpectedVals = [], mVars = [], mBlock = False, mExpires = 0\<rparr>"

text \<open>The copies of an empty slice are nil, which \<open>json.Marshal\<close> writes as \<open>null\<close>.\<close>

definition enc_list :: "string list \<Rightarrow> string" where
  "enc_list ts = (if ts = [] then ''null'' else enc_array ts)"

definition dec_list :: "(string \<Rightarrow> 'a \<Rightarrow> 'a option) \<Rightarrow> 'a \<Rightarrow> string \<Rightarrow> 'a list option" where
  "dec_list f zero raw = map_option (\<lambda>sl. case sl of None \<Rightarrow> [] | Some xs \<Rightarrow> xs) (dec_slice f zero raw)"

definition enc_meta :: "instr_meta \<Rightarrow> string" where
  "enc_meta m =
     enc_object
       ([(''id'', enc_string (mID m)),
         (''expectedVals'', enc_list (map (\<lambda>v. itoa (sint v)) (mExpectedVals m))),
         (''vars'', enc_list (map enc_string (mVars m))),
         (''blockAutomatedBrowsers'', enc_bool (mBlock m))]
        @ (if mExpires m = 0 then [] else [(''expires'', itoa (mExpires m))]))"

definition meta_fields :: "instr_meta fields" where
  "meta_fields =
     [(''id'', \<lambda>raw m. map_option (\<lambda>v. m\<lparr>mID := v\<rparr>) (dec_string raw (mID m))),
      (''expectedVals'', \<lambda>raw m. map_option (\<lambda>v. m\<lparr>mExpectedVals := v\<rparr>) (dec_list dec_int32 0 raw)),
      (''vars'', \<lambda>raw m. map_option (\<lambda>v. m\<lparr>mVars := v\<rparr>) (dec_list dec_string [] raw)),
      (''blockAutomatedBrowsers'', \<lambda>raw m. map_option (\<lambda>v. m\<lparr>mBlock := v\<rparr>) (dec_bool raw (mBlock m))),
      (''expires'', \<lambda>raw m. map_option (\<lambda>v. m\<lparr>mExpires := v\<rparr>) (dec_int64 raw (mExpires m)))]"

definition dec_meta :: "string \<Rightarrow> instr_meta \<Rightarrow> instr_meta option" where
  "dec_meta = dec_struct meta_fields"

section \<open>The client's report\<close>

record instr_result =
  rI :: string
  rState :: "(string \<rightharpoonup> string) option"
  rTS :: int

text \<open>\<open>map[string]json.RawMessage\<close>: \<open>null\<close> gives nil, members are added to what is there.\<close>

definition dec_state :: "string \<Rightarrow> (string \<rightharpoonup> string) option \<Rightarrow> (string \<rightharpoonup> string) option option" where
  "dec_state raw old =
     (if json_null raw then Some None
      else (case json_members raw of
              None \<Rightarrow> None
            | Some ms \<Rightarrow> Some (Some (foldl (\<lambda>m (k, v). m(k \<mapsto> v)) (case old of Some m \<Rightarrow> m | None \<Rightarrow> Map.empty) ms))))"

definition result_fields :: "instr_result fields" where
  "result_fields =
     [(''i'', \<lambda>raw r. map_option (\<lambda>v. r\<lparr>rI := v\<rparr>) (dec_string raw (rI r))),
      (''state'', \<lambda>raw r. map_option (\<lambda>v. r\<lparr>rState := v\<rparr>) (dec_state raw (rState r))),
      (''ts'', \<lambda>raw r. map_option (\<lambda>v. r\<lparr>rTS := v\<rparr>) (dec_int64 raw (rTS r)))]"

definition dec_result :: "string \<Rightarrow> instr_result \<Rightarrow> instr_result option" where
  "dec_result = dec_struct result_fields"

definition zero_result :: instr_result where
  "zero_result = \<lparr>rI = [], rState = None, rTS = 0\<rparr>"

fun check_vars :: "(string \<rightharpoonup> string) \<Rightarrow> string list \<Rightarrow> i32 list \<Rightarrow> go_error option" where
  "check_vars st (name # names) (v # vs) =
     (case st name of
        None \<Rightarrow> Some (failInstr ReasonInstrFailedChallenge)
      | Some raw \<Rightarrow>
          (case unmarshal dec_f64 raw f64_zero of
             None \<Rightarrow> Some (failInstr ReasonInstrFailedChallenge)
           | Some actual \<Rightarrow>
               if \<not> f64_eq actual (f64_of_int (sint v)) then Some (failInstr ReasonInstrFailedChallenge)
               else check_vars st names vs))"
| "check_vars st _ _ = None"

definition VerifyInstrumentationResult :: "instr_meta option \<Rightarrow> string \<Rightarrow> go_error option" where
  "VerifyInstrumentationResult meta result =
     (case meta of
        None \<Rightarrow> Some (failInstr ReasonInstrMissingMeta)
      | Some m \<Rightarrow>
          if mID m = [] then Some (failInstr ReasonInstrMissingMeta)
          else if trim_space result = [] \<or> hd (trim_space result) \<noteq> CHR ''{''
            then Some (failInstr ReasonInstrMissingOutput)
          else (case unmarshal dec_result result zero_result of
                  None \<Rightarrow> Some (failInstr ReasonInstrMissingOutput)
                | Some payload \<Rightarrow>
                    if rI payload \<noteq> mID m then Some (failInstr ReasonInstrIDMismatch)
                    else (case rState payload of
                            None \<Rightarrow> Some (failInstr ReasonInstrInvalidState)
                          | Some st \<Rightarrow>
                              if mVars m = [] \<or> length (mVars m) \<noteq> length (mExpectedVals m)
                                then Some (failInstr ReasonInstrInvalidMeta)
                              else check_vars st (mVars m) (mExpectedVals m))))"

definition checkInstrumentation :: "instr_meta option \<Rightarrow> int \<Rightarrow> string \<Rightarrow> bool \<Rightarrow> bool \<Rightarrow> go_error option" where
  "checkInstrumentation meta now result blocked timeout =
     (case meta of
        None \<Rightarrow> Some (failInstr ReasonInstrCorrupted)
      | Some m \<Rightarrow>
          if mExpires m \<noteq> 0 \<and> mExpires m < now then Some (failInstr ReasonInstrExpired)
          else if blocked then (if mBlock m then Some (failInstr ReasonInstrAutomated) else None)
          else if timeout then Some (failInstr ReasonInstrTimeout)
          else if trim_space result \<noteq> [] \<and> trim_space result \<noteq> ''null'' \<and> trim_space result \<noteq> ''false''
            then VerifyInstrumentationResult meta result
          else Some (failInstr ReasonInstrMissing))"

section \<open>Lemmas\<close>

lemma dec_list_enc:
  assumes "\<And>x. x \<in> set xs \<Longrightarrow> value_text json_depth (g x)" "\<And>x. x \<in> set xs \<Longrightarrow> f (g x) zero = Some (h x)"
  shows "dec_list f zero (enc_list (map g xs)) = Some (map h xs)"
  using dec_slice_enc [of xs g f zero h] assms by (simp add: dec_list_def enc_list_def dec_slice_def)

lemma value_text_enc_list:
  assumes "\<And>x. x \<in> set xs \<Longrightarrow> value_text d (g x)"
  shows "value_text (Suc d) (enc_list (map g xs))"
  using assms by (simp add: enc_list_def value_text_array)

lemma depth_Suc: "json_depth = Suc 9998" "json_depth = Suc (Suc 9997)" "json_depth = Suc (Suc (Suc 9996))"
  by (simp_all add: json_depth_def)

text \<open>The expiry of a record fits the wire type.\<close>

definition meta_wire :: "instr_meta \<Rightarrow> bool" where
  "meta_wire m \<longleftrightarrow> - (2 ^ 63) \<le> mExpires m \<and> mExpires m < 2 ^ 63 \<and> ascii (mID m) \<and> list_all ascii (mVars m)"

lemma value_text_meta: "value_text (Suc (Suc d)) (enc_meta m)"
  unfolding enc_meta_def by (rule value_text_object) (auto intro!: value_text_enc_list)

lemma dec_meta_enc [simp, codec]:
  assumes "meta_wire m"
  shows "dec_meta (enc_meta m) zero_meta = Some m"
proof -
  have ids: "map repair (mVars m) = mVars m" "repair (mID m) = mID m"
    using assms by (simp_all add: meta_wire_def list_all_iff map_idI)
  have vals: "dec_list dec_int32 0 (enc_list (map (\<lambda>v. itoa (sint v)) (mExpectedVals m))) = Some (mExpectedVals m)"
    using dec_list_enc [of "mExpectedVals m" "\<lambda>v. itoa (sint v)" dec_int32 0 id] by simp
  have vars: "dec_list dec_string [] (enc_list (map enc_string (mVars m))) = Some (mVars m)"
    using dec_list_enc [of "mVars m" enc_string dec_string "[]" repair] ids by simp
  have vt: "value_text json_depth (enc_list (map (\<lambda>v. itoa (sint v)) (mExpectedVals m)))"
    "value_text json_depth (enc_list (map enc_string (mVars m)))"
    unfolding depth_Suc(1) by (rule value_text_enc_list; simp)+
  show ?thesis
    using assms vals vars ids vt unfolding dec_meta_def enc_meta_def
    by (subst dec_struct_enc) (auto simp: meta_fields_def fold_name_def fold_rune_ascii zero_meta_def meta_wire_def)
qed

lemma trim_space_braces: "trim_space (CHR ''{'' # t @ [CHR ''}'']) = CHR ''{'' # t @ [CHR ''}'']"
  by (rule trim_space_plain) (simp_all add: space_rune_def)

lemma trim_space_enc_object: "trim_space (enc_object ms) = enc_object ms"
  unfolding enc_object_def by (rule trim_space_braces)

lemma enc_object_ne: "enc_object ms \<noteq> []" "hd (enc_object ms) = CHR ''{''"
  by (simp_all add: enc_object_def)

lemma f64_eq_refl [simp]: "f64_eq a a"
  by (simp add: f64_eq_def)

lemma sint_small: "\<bar>sint (v :: i32)\<bar> < 2 ^ 53"
  using sint_greater_eq [of v] sint_less [of v] by (simp add: abs_less_iff)

lemma check_vars_None:
  "length names = length vs \<Longrightarrow> check_vars st names vs = None \<longleftrightarrow>
    (\<forall>i < length names. \<exists>raw f. st (names ! i) = Some raw \<and> unmarshal dec_f64 raw f64_zero = Some f
       \<and> f64_eq f (f64_of_int (sint (vs ! i))))"
proof (induction st names vs rule: check_vars.induct)
  case (1 st name names v vs)
  let ?Q = "\<lambda>i. \<exists>raw f. st ((name # names) ! i) = Some raw \<and> unmarshal dec_f64 raw f64_zero = Some f
       \<and> f64_eq f (f64_of_int (sint ((v # vs) ! i)))"
  have split: "(\<forall>i < length (name # names). ?Q i) \<longleftrightarrow> ?Q 0 \<and> (\<forall>i < length names. ?Q (Suc i))"
    by (simp only: length_Cons all_less_Suc_split)
  show ?case
  proof (cases "?Q 0")
    case False
    then have "check_vars st (name # names) (v # vs) \<noteq> None" by (auto split: option.splits)
    then show ?thesis using split False by blast
  next
    case True
    then obtain raw f where q: "st name = Some raw" "unmarshal dec_f64 raw f64_zero = Some f"
      "f64_eq f (f64_of_int (sint v))" by auto
    then have "check_vars st (name # names) (v # vs) = check_vars st names vs" by simp
    moreover have "check_vars st names vs = None \<longleftrightarrow> (\<forall>i < length names. ?Q (Suc i))"
      using 1(1) [OF q(1,2)] q(3) 1(2) by simp
    ultimately show ?thesis using split True by simp
  qed
qed auto

text \<open>The report a client posts after running the script: the state of its four variables.\<close>

definition widget_report :: "string \<Rightarrow> string list \<Rightarrow> int list \<Rightarrow> int \<Rightarrow> string" where
  "widget_report ident vars ws ts =
     enc_object [(''i'', enc_string ident), (''state'', enc_object (zip vars (map itoa ws))), (''ts'', itoa ts)]"

lemma foldl_map_update:
  "foldl (\<lambda>m (k, v). m(k \<mapsto> v)) m0 kvs = m0 ++ map_of (rev kvs)"
  by (induction kvs arbitrary: m0) (auto simp: map_add_def fun_eq_iff split: option.splits)

lemma map_of_rev_zip:
  assumes "distinct ks" "length ks = length vs" "i < length ks"
  shows "map_of (rev (zip ks vs)) (ks ! i) = Some (vs ! i)"
proof -
  have "distinct (map fst (rev (zip ks vs)))" using assms by (simp add: rev_map [symmetric])
  moreover have "(ks ! i, vs ! i) \<in> set (rev (zip ks vs))" using assms by (auto simp: in_set_zip)
  ultimately show ?thesis by (simp add: map_of_is_SomeI)
qed

lemma dec_report:
  assumes "ascii ident" "list_all ascii vars" "distinct vars" "length ws = length vars" "- (2 ^ 63) \<le> ts" "ts < 2 ^ 63"
  shows "\<exists>payload st. unmarshal dec_result (widget_report ident vars ws ts) zero_result = Some payload
    \<and> rI payload = ident \<and> rState payload = Some st \<and> (\<forall>i < length vars. st (vars ! i) = Some (itoa (ws ! i)))"
proof -
  let ?kvs = "zip vars (map itoa ws)"
  have vs: "\<forall>(k, v) \<in> set ?kvs. value_text d v" for d by (auto dest!: set_zip_rightD)
  have vt: "value_text (Suc d) (enc_object ?kvs)" for d using vs by (rule value_text_object)
  then have all: "\<forall>(k, v) \<in> set [(''i'', enc_string ident), (''state'', enc_object ?kvs), (''ts'', itoa ts)]. value_text json_depth v"
    using vt [of 9998] by (simp add: json_depth_def)
  have rep: "map (\<lambda>(k, v). (repair k, v)) ?kvs = ?kvs"
    using assms(2) by (intro map_idI) (auto simp: list_all_iff dest!: set_zip_leftD)
  define st where "st = foldl (\<lambda>m (k, v). m(k \<mapsto> v)) Map.empty ?kvs"
  have st: "dec_state (enc_object ?kvs) None = Some (Some st)"
    by (simp add: dec_state_def json_members_enc [OF vs] rep st_def)
  have "unmarshal dec_result (widget_report ident vars ws ts) zero_result
      = Some \<lparr>rI = ident, rState = Some st, rTS = ts\<rparr>"
    unfolding widget_report_def
    apply (subst unmarshal_value_text [OF value_text_object [OF all]])
    apply (subst dec_result_def, subst dec_struct_enc [OF all])
    using assms st by (simp add: result_fields_def fold_name_def fold_rune_ascii zero_result_def)
  moreover have "st (vars ! i) = Some (itoa (ws ! i))" if "i < length vars" for i
    using map_of_rev_zip [OF assms(3) _ that, of "map itoa ws"] that assms(4) by (simp add: st_def foldl_map_update)
  ultimately show ?thesis by auto
qed

lemma f64_of_itoa: "\<bar>w\<bar> < 2 ^ 53 \<Longrightarrow> unmarshal dec_f64 (itoa w) f64_zero = Some (f64_of_int w)"
  by (simp add: unmarshal_value_text)

lemma widget_report_iff:
  assumes "ascii (mID m)" "mID m \<noteq> []" "list_all ascii (mVars m)" "distinct (mVars m)" "mVars m \<noteq> []"
    and "length (mExpectedVals m) = length (mVars m)" "length ws = length (mVars m)"
    and "list_all (\<lambda>w. \<bar>w\<bar> < 2 ^ 53) ws" "- (2 ^ 63) \<le> ts" "ts < 2 ^ 63"
  shows "VerifyInstrumentationResult (Some m) (widget_report (mID m) (mVars m) ws ts) = None
    \<longleftrightarrow> ws = map sint (mExpectedVals m)"
proof -
  let ?r = "widget_report (mID m) (mVars m) ws ts"
  obtain payload st where p: "unmarshal dec_result ?r zero_result = Some payload" "rI payload = mID m"
    "rState payload = Some st" "\<forall>i < length (mVars m). st (mVars m ! i) = Some (itoa (ws ! i))"
    using dec_report [OF assms(1,3,4,7,9,10)] by auto
  have t: "trim_space ?r = ?r" "?r \<noteq> []" "hd ?r = CHR ''{''"
    by (simp_all add: widget_report_def trim_space_enc_object enc_object_ne)
  have "VerifyInstrumentationResult (Some m) ?r = check_vars st (mVars m) (mExpectedVals m)"
    using assms p t by (simp add: VerifyInstrumentationResult_def)
  moreover have "check_vars st (mVars m) (mExpectedVals m) = None \<longleftrightarrow> (\<forall>i < length (mVars m). ws ! i = sint (mExpectedVals m ! i))"
    unfolding check_vars_None [OF assms(6) [symmetric]]
  proof (intro all_cong1 imp_cong refl)
    fix i assume i: "i < length (mVars m)"
    then have w: "\<bar>ws ! i\<bar> < 2 ^ 53" using assms(7,8) by (simp add: list_all_length)
    show "(\<exists>raw f. st (mVars m ! i) = Some raw \<and> unmarshal dec_f64 raw f64_zero = Some f
        \<and> f64_eq f (f64_of_int (sint (mExpectedVals m ! i)))) \<longleftrightarrow> ws ! i = sint (mExpectedVals m ! i)"
      using p(4) i f64_of_itoa [OF w] f64_of_int_inj [OF w sint_small] by simp
  qed
  moreover have "(\<forall>i < length (mVars m). ws ! i = sint (mExpectedVals m ! i)) \<longleftrightarrow> ws = map sint (mExpectedVals m)"
    using assms(6,7) by (auto simp: list_eq_iff_nth_eq)
  ultimately show ?thesis by simp
qed

section \<open>Properties\<close>

text \<open>
  Property C39. What the redemption rule accepts: metadata that has not expired and either a
  client that reports itself blocked where the challenge tolerates automation, or one that
  neither is blocked nor timed out and whose report verifies. Nothing else passes.
\<close>
theorem checkInstrumentation_accepts:
  "checkInstrumentation meta now result blocked timeout = None \<longleftrightarrow>
     (case meta of None \<Rightarrow> False
      | Some m \<Rightarrow> (if mExpires m = 0 then True else now \<le> mExpires m)
          \<and> (if blocked then \<not> mBlock m else \<not> timeout \<and> VerifyInstrumentationResult (Some m) result = None))"
proof -
  have "VerifyInstrumentationResult (Some m) result \<noteq> None"
    if "trim_space result = [] \<or> trim_space result = ''null'' \<or> trim_space result = ''false''" for m
    using that by (auto simp: VerifyInstrumentationResult_def)
  then show ?thesis by (cases meta) (auto simp: checkInstrumentation_def not_less)
qed

text \<open>
  Property C40. The report of a client is accepted exactly when it is right: for well-formed
  metadata with distinct variables, a report that assigns integers to the variables verifies if
  and only if they are the values the server computed.
\<close>
theorem widget_report_accepted_iff:
  assumes "ascii (mID m)" "mID m \<noteq> []" "list_all ascii (mVars m)" "distinct (mVars m)" "mVars m \<noteq> []"
    and "length (mExpectedVals m) = length (mVars m)" "length ws = length (mVars m)"
    and "list_all (\<lambda>w. \<bar>w\<bar> < 2 ^ 53) ws" "- (2 ^ 63) \<le> ts" "ts < 2 ^ 63"
  shows "VerifyInstrumentationResult (Some m) (widget_report (mID m) (mVars m) ws ts) = None
    \<longleftrightarrow> ws = map sint (mExpectedVals m)"
  by (rule widget_report_iff [OF assms])

theorem widget_report_accepted_iff_witness:
  "VerifyInstrumentationResult (Some \<lparr>mID = ''id'', mExpectedVals = [100007, - 5], mVars = [''a'', ''b''], mBlock = True, mExpires = 0\<rparr>)
     (widget_report ''id'' [''a'', ''b''] [100007, - 5] 17) = None
   \<and> VerifyInstrumentationResult (Some \<lparr>mID = ''id'', mExpectedVals = [100007, - 5], mVars = [''a'', ''b''], mBlock = True, mExpires = 0\<rparr>)
     (widget_report ''id'' [''a'', ''b''] [100007, 5] 17) \<noteq> None"
  using widget_report_accepted_iff [of "\<lparr>mID = ''id'', mExpectedVals = [100007, - 5], mVars = [''a'', ''b''], mBlock = True, mExpires = 0\<rparr>" "[100007, - 5]" 17]
    widget_report_accepted_iff [of "\<lparr>mID = ''id'', mExpectedVals = [100007, - 5], mVars = [''a'', ''b''], mBlock = True, mExpires = 0\<rparr>" "[100007, 5]" 17]
  by simp

end
