(* ===== verification/Wire.thy ===== *)
theory Wire
  imports Instr
begin

text \<open>
  The values of \<open>cap.go\<close> that travel as JSON: challenges in both formats, the claims of a
  signed token and the envelope of expected solutions, each with the encoding that
  \<open>json.Marshal\<close> gives it and the decoding of \<open>json.Unmarshal\<close>, and their round trips. A
  caller's \<open>Extra\<close> map is the list of its keys in order, each with the JSON text of its value.
\<close>

section \<open>Protocols\<close>

definition ProtocolSHA256PoW :: string where
  "ProtocolSHA256PoW = ''sha256-pow''"

definition ProtocolRSW :: string where
  "ProtocolRSW = ''rsw''"

definition ProtocolInstrumentation :: string where
  "ProtocolInstrumentation = ''instrumentation''"

lemmas protocol_defs = ProtocolSHA256PoW_def ProtocolRSW_def ProtocolInstrumentation_def

section \<open>Challenges\<close>

datatype payload =
    PoWPayload string string
  | RSWPayload string string int
  | InstrumentationPayload string
  | RawPayload string

record challenge_entry =
  eProtocol :: string
  ePayload :: payload

record challenge =
  chFormat :: int
  chToken :: string
  chExpires :: int
  chScope :: string
  chCount :: int
  chSize :: int
  chDifficulty :: int
  chInstrumentation :: string
  chChallenges :: "challenge_entry list"

definition zero_challenge :: challenge where
  "zero_challenge = \<lparr>chFormat = 0, chToken = [], chExpires = 0, chScope = [], chCount = 0, chSize = 0,
     chDifficulty = 0, chInstrumentation = [], chChallenges = []\<rparr>"

text \<open>
  \<open>json.Compact\<close> with HTML escaping, which a raw message goes through: white space outside
  literals is dropped; \<open><\<close>, \<open>>\<close>, \<open>&\<close>, U+2028 and U+2029 are escaped.
\<close>

fun compact :: "bool \<Rightarrow> bool \<Rightarrow> string \<Rightarrow> string" where
  "compact lit esc [] = []"
| "compact lit esc (c # s) =
     (let out = (if c = CHR ''<'' then CHR 0x5C # ''u003c'' else if c = CHR ''>'' then CHR 0x5C # ''u003e''
                 else if c = CHR 0x26 then CHR 0x5C # ''u0026'' else [c])
      in if \<not> lit \<and> json_ws c then compact lit False s
         else if c = CHR 0xE2 \<and> take 2 s = [CHR 0x80, CHR 0xA8]
           then CHR 0x5C # ''u2028'' @ compact lit False (drop 2 s)
         else if c = CHR 0xE2 \<and> take 2 s = [CHR 0x80, CHR 0xA9]
           then CHR 0x5C # ''u2029'' @ compact lit False (drop 2 s)
         else out @ compact (if c = CHR 0x22 \<and> \<not> esc then \<not> lit else lit) (lit \<and> c = CHR 0x5C \<and> \<not> esc) s)"

fun enc_payload :: "payload \<Rightarrow> go_error + string" where
  "enc_payload (PoWPayload salt target) = Inr (enc_object [(''salt'', enc_string salt), (''target'', enc_string target)])"
| "enc_payload (RSWPayload n x t) = Inr (enc_object [(''N'', enc_string n), (''x'', enc_string x), (''t'', itoa t)])"
| "enc_payload (InstrumentationPayload blob) = Inr (enc_object [(''blob'', enc_string blob)])"
| "enc_payload (RawPayload raw) =
     (if raw = [] then Inr ''null''
      else if json_document raw = None then Inl (EOther ''json: error calling MarshalJSON for type json.RawMessage'')
      else Inr (compact False False raw))"

fun map_result :: "('a \<Rightarrow> go_error + 'b) \<Rightarrow> 'a list \<Rightarrow> go_error + 'b list" where
  "map_result f [] = Inr []"
| "map_result f (x # xs) =
     (case f x of Inl e \<Rightarrow> Inl e
      | Inr y \<Rightarrow> (case map_result f xs of Inl e \<Rightarrow> Inl e | Inr ys \<Rightarrow> Inr (y # ys)))"

definition enc_entry :: "challenge_entry \<Rightarrow> go_error + string" where
  "enc_entry e =
     (case enc_payload (ePayload e) of Inl err \<Rightarrow> Inl err
      | Inr p \<Rightarrow> Inr (enc_object [(''protocol'', enc_string (eProtocol e)), (''payload'', p)]))"

definition challenge_MarshalJSON :: "challenge \<Rightarrow> go_error + string" where
  "challenge_MarshalJSON ch =
     (if chFormat ch = 2 then
        (case map_result enc_entry (chChallenges ch) of
           Inl err \<Rightarrow> Inl err
         | Inr es \<Rightarrow>
             Inr (enc_object [(''token'', enc_string (chToken ch)), (''format'', itoa 2),
                              (''challenges'', enc_array es), (''expires'', itoa (chExpires ch))]))
      else
        Inr (enc_object
          ([(''challenge'', enc_object [(''c'', itoa (chCount ch)), (''s'', itoa (chSize ch)), (''d'', itoa (chDifficulty ch))]),
            (''token'', enc_string (chToken ch)), (''expires'', itoa (chExpires ch))]
           @ (if chInstrumentation ch = [] then [] else [(''instrumentation'', enc_string (chInstrumentation ch))]))))"

definition dec_pow :: "string \<Rightarrow> string \<times> string \<Rightarrow> (string \<times> string) option" where
  "dec_pow = dec_struct
     [(''salt'', \<lambda>raw (a, b). map_option (\<lambda>v. (v, b)) (dec_string raw a)),
      (''target'', \<lambda>raw (a, b). map_option (\<lambda>v. (a, v)) (dec_string raw b))]"

definition dec_rsw :: "string \<Rightarrow> string \<times> string \<times> int \<Rightarrow> (string \<times> string \<times> int) option" where
  "dec_rsw = dec_struct
     [(''N'', \<lambda>raw (n, x, t). map_option (\<lambda>v. (v, x, t)) (dec_string raw n)),
      (''x'', \<lambda>raw (n, x, t). map_option (\<lambda>v. (n, v, t)) (dec_string raw x)),
      (''t'', \<lambda>raw (n, x, t). map_option (\<lambda>v. (n, x, v)) (dec_int64 raw t))]"

definition dec_blob :: "string \<Rightarrow> string \<Rightarrow> string option" where
  "dec_blob = dec_struct [(''blob'', \<lambda>raw b. dec_string raw b)]"

definition dec_raw_entry :: "string \<Rightarrow> string \<times> string \<Rightarrow> (string \<times> string) option" where
  "dec_raw_entry = dec_struct
     [(''protocol'', \<lambda>raw (a, b). map_option (\<lambda>v. (v, b)) (dec_string raw a)),
      (''payload'', \<lambda>raw (a, b). map_option (\<lambda>v. (a, v)) (dec_raw raw b))]"

definition json_err :: go_error where
  "json_err = EOther ''json: cannot unmarshal''"

definition dec_entry :: "string \<times> string \<Rightarrow> go_error + challenge_entry" where
  "dec_entry entry =
     (let (proto, raw) = entry;
          done = (\<lambda>r. case r of None \<Rightarrow> Inl json_err | Some p \<Rightarrow> Inr \<lparr>eProtocol = proto, ePayload = p\<rparr>)
      in if proto = ProtocolSHA256PoW
           then done (map_option (\<lambda>(s, t). PoWPayload s t) (unmarshal dec_pow raw ([], [])))
         else if proto = ProtocolRSW
           then done (map_option (\<lambda>(n, x, t). RSWPayload n x t) (unmarshal dec_rsw raw ([], [], 0)))
         else if proto = ProtocolInstrumentation
           then done (map_option InstrumentationPayload (unmarshal dec_blob raw []))
         else done (Some (RawPayload raw)))"

definition dec_counts :: "string \<Rightarrow> challenge \<Rightarrow> challenge option" where
  "dec_counts = dec_struct
     [(''c'', \<lambda>raw ch. map_option (\<lambda>v. ch\<lparr>chCount := v\<rparr>) (dec_int64 raw (chCount ch))),
      (''s'', \<lambda>raw ch. map_option (\<lambda>v. ch\<lparr>chSize := v\<rparr>) (dec_int64 raw (chSize ch))),
      (''d'', \<lambda>raw ch. map_option (\<lambda>v. ch\<lparr>chDifficulty := v\<rparr>) (dec_int64 raw (chDifficulty ch)))]"

definition dec_format1 :: "string \<Rightarrow> challenge \<Rightarrow> challenge option" where
  "dec_format1 = dec_struct
     [(''challenge'', \<lambda>raw ch. dec_counts raw ch),
      (''token'', \<lambda>raw ch. map_option (\<lambda>v. ch\<lparr>chToken := v\<rparr>) (dec_string raw (chToken ch))),
      (''expires'', \<lambda>raw ch. map_option (\<lambda>v. ch\<lparr>chExpires := v\<rparr>) (dec_int64 raw (chExpires ch))),
      (''instrumentation'', \<lambda>raw ch. map_option (\<lambda>v. ch\<lparr>chInstrumentation := v\<rparr>) (dec_string raw (chInstrumentation ch)))]"

definition dec_format2 :: "string \<Rightarrow> string \<times> int \<times> (string \<times> string) list \<Rightarrow> (string \<times> int \<times> (string \<times> string) list) option" where
  "dec_format2 = dec_struct
     [(''token'', \<lambda>raw (a, b, c). map_option (\<lambda>v. (v, b, c)) (dec_string raw a)),
      (''expires'', \<lambda>raw (a, b, c). map_option (\<lambda>v. (a, v, c)) (dec_int64 raw b)),
      (''challenges'', \<lambda>raw (a, b, c). map_option (\<lambda>v. (a, b, v)) (dec_list dec_raw_entry ([], []) raw))]"

definition challenge_UnmarshalJSON :: "string \<Rightarrow> go_error + challenge" where
  "challenge_UnmarshalJSON data =
     (case unmarshal (dec_struct [(''format'', \<lambda>raw (f :: int). dec_int64 raw f)]) data 0 of
        None \<Rightarrow> Inl json_err
      | Some format \<Rightarrow>
          if format = 2 then
            (case unmarshal dec_format2 data ([], 0, []) of
               None \<Rightarrow> Inl json_err
             | Some (token, expires, raws) \<Rightarrow>
                 (case map_result dec_entry raws of
                    Inl err \<Rightarrow> Inl err
                  | Inr es \<Rightarrow> Inr (zero_challenge\<lparr>chFormat := 2, chToken := token, chExpires := expires, chChallenges := es\<rparr>)))
          else
            (case unmarshal dec_format1 data zero_challenge of
               None \<Rightarrow> Inl json_err
             | Some ch \<Rightarrow> Inr (ch\<lparr>chFormat := 1\<rparr>)))"

section \<open>Token claims\<close>

record token_claims =
  tF :: int
  tN :: string
  tC :: int
  tS :: int
  tD :: int
  tExp :: int
  tIat :: int
  tSk :: string
  tX :: "(string \<times> string) list"
  tEi :: string
  tEv :: string

definition zero_claims :: token_claims where
  "zero_claims = \<lparr>tF = 0, tN = [], tC = 0, tS = 0, tD = 0, tExp = 0, tIat = 0, tSk = [], tX = [], tEi = [], tEv = []\<rparr>"

definition omit_int :: "string \<Rightarrow> int \<Rightarrow> (string \<times> string) list" where
  "omit_int k v = (if v = 0 then [] else [(k, itoa v)])"

definition omit_string :: "string \<Rightarrow> string \<Rightarrow> (string \<times> string) list" where
  "omit_string k v = (if v = [] then [] else [(k, enc_string v)])"

definition omit_map :: "string \<Rightarrow> (string \<times> string) list \<Rightarrow> (string \<times> string) list" where
  "omit_map k ms = (if ms = [] then [] else [(k, enc_object ms)])"

definition enc_claims :: "token_claims \<Rightarrow> string" where
  "enc_claims c =
     enc_object
       (omit_int ''f'' (tF c) @ [(''n'', enc_string (tN c))] @ omit_int ''c'' (tC c) @ omit_int ''s'' (tS c)
        @ omit_int ''d'' (tD c) @ [(''exp'', itoa (tExp c)), (''iat'', itoa (tIat c))] @ omit_string ''sk'' (tSk c)
        @ omit_map ''x'' (tX c) @ omit_string ''ei'' (tEi c) @ omit_string ''ev'' (tEv c))"

text \<open>A value decodes into an \<open>any\<close> unless a number in it is out of the range of a double.\<close>

fun any_ok :: "nat \<Rightarrow> string \<Rightarrow> bool" where
  "any_ok 0 raw = (is_number raw \<longrightarrow> parse_f64 raw \<noteq> None)"
| "any_ok (Suc d) raw =
     (case json_members raw of
        Some ms \<Rightarrow> list_all (\<lambda>(k, v). any_ok d v) ms
      | None \<Rightarrow>
          (case json_elements raw of
             Some vs \<Rightarrow> list_all (any_ok d) vs
           | None \<Rightarrow> is_number raw \<longrightarrow> parse_f64 raw \<noteq> None))"

definition dec_any_map :: "string \<Rightarrow> (string \<times> string) list \<Rightarrow> (string \<times> string) list option" where
  "dec_any_map raw old =
     (if json_null raw then Some []
      else (case json_members raw of
              None \<Rightarrow> None
            | Some ms \<Rightarrow> if list_all (\<lambda>(k, v). any_ok json_depth v) ms then Some (old @ ms) else None))"

definition claims_fields :: "token_claims fields" where
  "claims_fields =
     [(''f'', \<lambda>raw c. map_option (\<lambda>v. c\<lparr>tF := v\<rparr>) (dec_int64 raw (tF c))),
      (''n'', \<lambda>raw c. map_option (\<lambda>v. c\<lparr>tN := v\<rparr>) (dec_string raw (tN c))),
      (''c'', \<lambda>raw c. map_option (\<lambda>v. c\<lparr>tC := v\<rparr>) (dec_int64 raw (tC c))),
      (''s'', \<lambda>raw c. map_option (\<lambda>v. c\<lparr>tS := v\<rparr>) (dec_int64 raw (tS c))),
      (''d'', \<lambda>raw c. map_option (\<lambda>v. c\<lparr>tD := v\<rparr>) (dec_int64 raw (tD c))),
      (''exp'', \<lambda>raw c. map_option (\<lambda>v. c\<lparr>tExp := v\<rparr>) (dec_int64 raw (tExp c))),
      (''iat'', \<lambda>raw c. map_option (\<lambda>v. c\<lparr>tIat := v\<rparr>) (dec_int64 raw (tIat c))),
      (''sk'', \<lambda>raw c. map_option (\<lambda>v. c\<lparr>tSk := v\<rparr>) (dec_string raw (tSk c))),
      (''x'', \<lambda>raw c. map_option (\<lambda>v. c\<lparr>tX := v\<rparr>) (dec_any_map raw (tX c))),
      (''ei'', \<lambda>raw c. map_option (\<lambda>v. c\<lparr>tEi := v\<rparr>) (dec_string raw (tEi c))),
      (''ev'', \<lambda>raw c. map_option (\<lambda>v. c\<lparr>tEv := v\<rparr>) (dec_string raw (tEv c)))]"

definition dec_claims :: "string \<Rightarrow> token_claims \<Rightarrow> token_claims option" where
  "dec_claims = dec_struct claims_fields"

section \<open>Expected solutions\<close>

record expected_entry =
  xProtocol :: string
  xSalt :: string
  xTarget :: string
  xY :: string
  xInstrMeta :: "instr_meta option"

definition zero_expected :: expected_entry where
  "zero_expected = \<lparr>xProtocol = [], xSalt = [], xTarget = [], xY = [], xInstrMeta = None\<rparr>"

definition enc_expected :: "expected_entry \<Rightarrow> string" where
  "enc_expected e =
     enc_object
       ([(''protocol'', enc_string (xProtocol e))] @ omit_string ''salt'' (xSalt e) @ omit_string ''target'' (xTarget e)
        @ omit_string ''y'' (xY e)
        @ (case xInstrMeta e of None \<Rightarrow> [] | Some m \<Rightarrow> [(''instrMeta'', enc_meta m)]))"

definition enc_envelope :: "expected_entry list \<Rightarrow> string" where
  "enc_envelope es = enc_object [(''expected'', enc_list (map enc_expected es))]"

definition dec_meta_pointer :: "string \<Rightarrow> instr_meta option \<Rightarrow> instr_meta option option" where
  "dec_meta_pointer raw old =
     (if json_null raw then Some None
      else map_option Some (dec_meta raw (case old of Some m \<Rightarrow> m | None \<Rightarrow> zero_meta)))"

definition expected_fields :: "expected_entry fields" where
  "expected_fields =
     [(''protocol'', \<lambda>raw e. map_option (\<lambda>v. e\<lparr>xProtocol := v\<rparr>) (dec_string raw (xProtocol e))),
      (''salt'', \<lambda>raw e. map_option (\<lambda>v. e\<lparr>xSalt := v\<rparr>) (dec_string raw (xSalt e))),
      (''target'', \<lambda>raw e. map_option (\<lambda>v. e\<lparr>xTarget := v\<rparr>) (dec_string raw (xTarget e))),
      (''y'', \<lambda>raw e. map_option (\<lambda>v. e\<lparr>xY := v\<rparr>) (dec_string raw (xY e))),
      (''instrMeta'', \<lambda>raw e. map_option (\<lambda>v. e\<lparr>xInstrMeta := v\<rparr>) (dec_meta_pointer raw (xInstrMeta e)))]"

definition dec_expected :: "string \<Rightarrow> expected_entry \<Rightarrow> expected_entry option" where
  "dec_expected = dec_struct expected_fields"

definition dec_envelope :: "string \<Rightarrow> expected_entry list option \<Rightarrow> expected_entry list option option" where
  "dec_envelope = dec_struct [(''expected'', \<lambda>raw _. dec_slice dec_expected zero_expected raw)]"

section \<open>Solutions of a client\<close>

record solution =
  sNonce :: string
  sY :: string
  sInstr :: string
  sBlocked :: bool
  sTimeout :: bool

definition zero_solution :: solution where
  "zero_solution = \<lparr>sNonce = [], sY = [], sInstr = [], sBlocked = False, sTimeout = False\<rparr>"

definition dec_solution :: "string \<Rightarrow> solution \<Rightarrow> solution option" where
  "dec_solution = dec_struct
     [(''nonce'', \<lambda>raw s. map_option (\<lambda>v. s\<lparr>sNonce := v\<rparr>) (dec_raw raw (sNonce s))),
      (''y'', \<lambda>raw s. map_option (\<lambda>v. s\<lparr>sY := v\<rparr>) (dec_string raw (sY s))),
      (''instr'', \<lambda>raw s. map_option (\<lambda>v. s\<lparr>sInstr := v\<rparr>) (dec_raw raw (sInstr s))),
      (''blocked'', \<lambda>raw s. map_option (\<lambda>v. s\<lparr>sBlocked := v\<rparr>) (dec_bool raw (sBlocked s))),
      (''timeout'', \<lambda>raw s. map_option (\<lambda>v. s\<lparr>sTimeout := v\<rparr>) (dec_bool raw (sTimeout s)))]"

section \<open>Lemmas: claims\<close>

abbreviation repair_keys :: "(string \<times> string) list \<Rightarrow> (string \<times> string) list" where
  "repair_keys ms \<equiv> map (\<lambda>(k, v). (repair k, v)) ms"

definition int64 :: "int \<Rightarrow> bool" where
  "int64 i \<longleftrightarrow> - (2 ^ 63) \<le> i \<and> i < 2 ^ 63"

lemma dec_int64_wire: "int64 v \<Longrightarrow> dec_int64 (itoa v) old = Some v"
  by (simp add: int64_def)

lemma set_omit_int:
  assumes "field_setter fs k = Some f" "ascii k" "v \<noteq> 0 \<Longrightarrow> f (itoa v) c = Some c'" "v = 0 \<Longrightarrow> c' = c"
  shows "set_fields fs (repair_keys (omit_int k v) @ ms) c = set_fields fs ms c'"
  using assms by (auto simp: omit_int_def)

lemma set_omit_string:
  assumes "field_setter fs k = Some f" "ascii k" "v \<noteq> [] \<Longrightarrow> f (enc_string v) c = Some c'" "v = [] \<Longrightarrow> c' = c"
  shows "set_fields fs (repair_keys (omit_string k v) @ ms) c = set_fields fs ms c'"
  using assms by (auto simp: omit_string_def)

lemma set_one:
  assumes "field_setter fs k = Some f" "ascii k" "f t c = Some c'"
  shows "set_fields fs (repair_keys [(k, t)] @ ms) c = set_fields fs ms c'"
  using assms by auto

lemma repair_Nil [simp]: "repair [] = []"
  by simp

named_theorems steps

lemma claims_setters:
  "field_setter claims_fields ''f'' = Some (\<lambda>raw c. map_option (\<lambda>v. c\<lparr>tF := v\<rparr>) (dec_int64 raw (tF c)))"
  "field_setter claims_fields ''n'' = Some (\<lambda>raw c. map_option (\<lambda>v. c\<lparr>tN := v\<rparr>) (dec_string raw (tN c)))"
  "field_setter claims_fields ''c'' = Some (\<lambda>raw c. map_option (\<lambda>v. c\<lparr>tC := v\<rparr>) (dec_int64 raw (tC c)))"
  "field_setter claims_fields ''s'' = Some (\<lambda>raw c. map_option (\<lambda>v. c\<lparr>tS := v\<rparr>) (dec_int64 raw (tS c)))"
  "field_setter claims_fields ''d'' = Some (\<lambda>raw c. map_option (\<lambda>v. c\<lparr>tD := v\<rparr>) (dec_int64 raw (tD c)))"
  "field_setter claims_fields ''exp'' = Some (\<lambda>raw c. map_option (\<lambda>v. c\<lparr>tExp := v\<rparr>) (dec_int64 raw (tExp c)))"
  "field_setter claims_fields ''iat'' = Some (\<lambda>raw c. map_option (\<lambda>v. c\<lparr>tIat := v\<rparr>) (dec_int64 raw (tIat c)))"
  "field_setter claims_fields ''sk'' = Some (\<lambda>raw c. map_option (\<lambda>v. c\<lparr>tSk := v\<rparr>) (dec_string raw (tSk c)))"
  "field_setter claims_fields ''x'' = Some (\<lambda>raw c. map_option (\<lambda>v. c\<lparr>tX := v\<rparr>) (dec_any_map raw (tX c)))"
  "field_setter claims_fields ''ei'' = Some (\<lambda>raw c. map_option (\<lambda>v. c\<lparr>tEi := v\<rparr>) (dec_string raw (tEi c)))"
  "field_setter claims_fields ''ev'' = Some (\<lambda>raw c. map_option (\<lambda>v. c\<lparr>tEv := v\<rparr>) (dec_string raw (tEv c)))"
  by (simp_all add: claims_fields_def fold_name_def fold_rune_ascii)

text \<open>An \<open>Extra\<close> map whose keys are ASCII and whose values are JSON texts that decode.\<close>

definition extra_ok :: "(string \<times> string) list \<Rightarrow> bool" where
  "extra_ok x \<longleftrightarrow> list_all (\<lambda>(k, v). ascii k \<and> value_text 9000 v \<and> any_ok json_depth v) x"

lemma extra_ok_value_text:
  assumes "extra_ok x" "9000 \<le> d"
  shows "\<forall>(k, v) \<in> set x. value_text d v"
  using assms value_text_le [of 9000 _ d] by (auto simp: extra_ok_def list_all_iff)

lemma dec_any_map_enc:
  assumes "extra_ok x"
  shows "dec_any_map (enc_object x) [] = Some x"
proof -
  have "repair_keys x = x" using assms by (intro map_idI) (auto simp: extra_ok_def list_all_iff)
  then show ?thesis
    using assms json_members_enc [OF extra_ok_value_text [OF assms, of json_depth]]
    by (auto simp: dec_any_map_def json_depth_def extra_ok_def list_all_iff)
qed

lemma tX_same: "tX c = v \<Longrightarrow> c\<lparr>tX := v\<rparr> = c"
  by simp

lemma claims_steps [steps]:
  "int64 v \<Longrightarrow> tF c = 0 \<Longrightarrow>
     set_fields claims_fields (repair_keys (omit_int ''f'' v) @ ms) c = set_fields claims_fields ms (c\<lparr>tF := v\<rparr>)"
  "set_fields claims_fields ((''n'', enc_string s) # ms) c = set_fields claims_fields ms (c\<lparr>tN := repair s\<rparr>)"
  "int64 v \<Longrightarrow> tC c = 0 \<Longrightarrow>
     set_fields claims_fields (repair_keys (omit_int ''c'' v) @ ms) c = set_fields claims_fields ms (c\<lparr>tC := v\<rparr>)"
  "int64 v \<Longrightarrow> tS c = 0 \<Longrightarrow>
     set_fields claims_fields (repair_keys (omit_int ''s'' v) @ ms) c = set_fields claims_fields ms (c\<lparr>tS := v\<rparr>)"
  "int64 v \<Longrightarrow> tD c = 0 \<Longrightarrow>
     set_fields claims_fields (repair_keys (omit_int ''d'' v) @ ms) c = set_fields claims_fields ms (c\<lparr>tD := v\<rparr>)"
  "int64 v \<Longrightarrow>
     set_fields claims_fields ((''exp'', itoa v) # ms) c = set_fields claims_fields ms (c\<lparr>tExp := v\<rparr>)"
  "int64 v \<Longrightarrow>
     set_fields claims_fields ((''iat'', itoa v) # ms) c = set_fields claims_fields ms (c\<lparr>tIat := v\<rparr>)"
  "tSk c = [] \<Longrightarrow>
     set_fields claims_fields (repair_keys (omit_string ''sk'' s) @ ms) c = set_fields claims_fields ms (c\<lparr>tSk := repair s\<rparr>)"
  "extra_ok x \<Longrightarrow> tX c = [] \<Longrightarrow>
     set_fields claims_fields (repair_keys (omit_map ''x'' x) @ ms) c
       = set_fields claims_fields ms (c\<lparr>tX := x\<rparr>)"
  "tEi c = [] \<Longrightarrow>
     set_fields claims_fields (repair_keys (omit_string ''ei'' s) @ ms) c = set_fields claims_fields ms (c\<lparr>tEi := repair s\<rparr>)"
  "tEv c = [] \<Longrightarrow>
     set_fields claims_fields (repair_keys (omit_string ''ev'' s) @ ms) c = set_fields claims_fields ms (c\<lparr>tEv := repair s\<rparr>)"
  by ((rule set_omit_int set_omit_string set_one, rule claims_setters; simp add: dec_int64_wire)
      | (simp add: claims_setters dec_any_map_enc tX_same omit_map_def dec_int64_wire))+

definition claims_wire :: "token_claims \<Rightarrow> bool" where
  "claims_wire c \<longleftrightarrow> int64 (tF c) \<and> int64 (tC c) \<and> int64 (tS c) \<and> int64 (tD c) \<and> int64 (tExp c) \<and> int64 (tIat c)
     \<and> ascii (tN c) \<and> ascii (tEi c) \<and> ascii (tEv c) \<and> extra_ok (tX c)"

lemma value_text_omit:
  "\<forall>(k, v) \<in> set (omit_int k' i). value_text d v" "\<forall>(k, v) \<in> set (omit_string k' s). value_text d v"
  by (simp_all add: omit_int_def omit_string_def)

lemma value_text_omit_map:
  assumes "extra_ok x" "9001 \<le> d"
  shows "\<forall>(k, v) \<in> set (omit_map k' x). value_text d v"
proof -
  obtain d' where d: "d = Suc d'" "9000 \<le> d'" using assms(2) by (cases d) auto
  have "value_text d (enc_object x)"
    unfolding d(1) by (rule value_text_object [OF extra_ok_value_text [OF assms(1) d(2)]])
  then show ?thesis by (simp add: omit_map_def)
qed

text \<open>The members that \<open>enc_claims\<close> prints.\<close>

definition claims_members :: "token_claims \<Rightarrow> (string \<times> string) list" where
  "claims_members c =
     omit_int ''f'' (tF c) @ [(''n'', enc_string (tN c))] @ omit_int ''c'' (tC c) @ omit_int ''s'' (tS c)
        @ omit_int ''d'' (tD c) @ [(''exp'', itoa (tExp c)), (''iat'', itoa (tIat c))] @ omit_string ''sk'' (tSk c)
        @ omit_map ''x'' (tX c) @ omit_string ''ei'' (tEi c) @ omit_string ''ev'' (tEv c)"

lemma enc_claims_members: "enc_claims c = enc_object (claims_members c)"
  by (simp add: enc_claims_def claims_members_def)

lemma claims_members_text:
  assumes "extra_ok (tX c)" "9001 \<le> d"
  shows "\<forall>(k, v) \<in> set (claims_members c). value_text d v"
  using value_text_omit [of _ _ d] value_text_omit_map [OF assms] by (simp add: claims_members_def ball_Un)

lemma dec_claims_enc:
  assumes "claims_wire c"
  shows "unmarshal dec_claims (enc_claims c) zero_claims = Some (c\<lparr>tSk := repair (tSk c)\<rparr>)"
proof -
  have w: "int64 (tF c)" "int64 (tC c)" "int64 (tS c)" "int64 (tD c)" "int64 (tExp c)" "int64 (tIat c)"
    "ascii (tN c)" "ascii (tEi c)" "ascii (tEv c)" "extra_ok (tX c)"
    using assms by (simp_all add: claims_wire_def)
  have "unmarshal dec_claims (enc_claims c) zero_claims = set_fields claims_fields (repair_keys (claims_members c)) zero_claims"
    unfolding enc_claims_members dec_claims_def
    by (rule unmarshal_struct_enc, rule claims_members_text [OF w(10)]) (simp add: json_depth_def)
  also have "\<dots> = set_fields claims_fields (repair_keys (claims_members c) @ []) zero_claims" by simp
  also have "\<dots> = Some (c\<lparr>tSk := repair (tSk c)\<rparr>)"
    using w by (simp add: claims_members_def zero_claims_def steps claims_setters dec_int64_wire del: append_Nil2)
  finally show ?thesis .
qed

section \<open>Lemmas: the envelope\<close>

definition expected_wire :: "expected_entry \<Rightarrow> bool" where
  "expected_wire e \<longleftrightarrow> ascii (xProtocol e) \<and> ascii (xSalt e) \<and> ascii (xTarget e) \<and> ascii (xY e)
     \<and> (case xInstrMeta e of None \<Rightarrow> True | Some m \<Rightarrow> meta_wire m)"

definition omit_meta :: "instr_meta option \<Rightarrow> (string \<times> string) list" where
  "omit_meta mo = (case mo of None \<Rightarrow> [] | Some m \<Rightarrow> [(''instrMeta'', enc_meta m)])"

definition expected_members :: "expected_entry \<Rightarrow> (string \<times> string) list" where
  "expected_members e =
     [(''protocol'', enc_string (xProtocol e))] @ omit_string ''salt'' (xSalt e) @ omit_string ''target'' (xTarget e)
        @ omit_string ''y'' (xY e) @ omit_meta (xInstrMeta e)"

lemma enc_expected_members: "enc_expected e = enc_object (expected_members e)"
  by (simp add: enc_expected_def expected_members_def omit_meta_def)

lemma expected_members_text: "\<forall>(k, v) \<in> set (expected_members e). value_text (Suc (Suc d)) v"
  using value_text_omit [of _ _ "Suc (Suc d)"] value_text_meta
  by (cases "xInstrMeta e") (simp_all add: expected_members_def omit_meta_def ball_Un)

lemma expected_setters:
  "field_setter expected_fields ''protocol'' = Some (\<lambda>raw e. map_option (\<lambda>v. e\<lparr>xProtocol := v\<rparr>) (dec_string raw (xProtocol e)))"
  "field_setter expected_fields ''salt'' = Some (\<lambda>raw e. map_option (\<lambda>v. e\<lparr>xSalt := v\<rparr>) (dec_string raw (xSalt e)))"
  "field_setter expected_fields ''target'' = Some (\<lambda>raw e. map_option (\<lambda>v. e\<lparr>xTarget := v\<rparr>) (dec_string raw (xTarget e)))"
  "field_setter expected_fields ''y'' = Some (\<lambda>raw e. map_option (\<lambda>v. e\<lparr>xY := v\<rparr>) (dec_string raw (xY e)))"
  "field_setter expected_fields ''instrMeta'' = Some (\<lambda>raw e. map_option (\<lambda>v. e\<lparr>xInstrMeta := v\<rparr>) (dec_meta_pointer raw (xInstrMeta e)))"
  by (simp_all add: expected_fields_def fold_name_def fold_rune_ascii)

lemma dec_meta_pointer_enc: "meta_wire m \<Longrightarrow> dec_meta_pointer (enc_meta m) None = Some (Some m)"
  by (simp add: dec_meta_pointer_def) (simp add: enc_meta_def)

lemma xInstrMeta_same: "xInstrMeta e = v \<Longrightarrow> e\<lparr>xInstrMeta := v\<rparr> = e"
  by simp

lemma expected_steps [steps]:
  "xSalt e = [] \<Longrightarrow>
     set_fields expected_fields (repair_keys (omit_string ''salt'' s) @ ms) e = set_fields expected_fields ms (e\<lparr>xSalt := repair s\<rparr>)"
  "xTarget e = [] \<Longrightarrow>
     set_fields expected_fields (repair_keys (omit_string ''target'' s) @ ms) e = set_fields expected_fields ms (e\<lparr>xTarget := repair s\<rparr>)"
  "xY e = [] \<Longrightarrow>
     set_fields expected_fields (repair_keys (omit_string ''y'' s) @ ms) e = set_fields expected_fields ms (e\<lparr>xY := repair s\<rparr>)"
  "(case mo of None \<Rightarrow> True | Some m \<Rightarrow> meta_wire m) \<Longrightarrow> xInstrMeta e = None \<Longrightarrow>
     set_fields expected_fields (repair_keys (omit_meta mo) @ ms) e = set_fields expected_fields ms (e\<lparr>xInstrMeta := mo\<rparr>)"
  by (rule set_omit_string, rule expected_setters; simp)+
    (cases mo; simp add: omit_meta_def expected_setters dec_meta_pointer_enc xInstrMeta_same)

lemma dec_expected_enc:
  assumes "expected_wire e"
  shows "dec_expected (enc_expected e) zero_expected = Some e"
proof -
  have w: "ascii (xProtocol e)" "ascii (xSalt e)" "ascii (xTarget e)" "ascii (xY e)"
    "case xInstrMeta e of None \<Rightarrow> True | Some m \<Rightarrow> meta_wire m"
    using assms by (simp_all add: expected_wire_def)
  have "\<forall>(k, v) \<in> set (expected_members e). value_text json_depth v"
    unfolding depth_Suc(2) by (rule expected_members_text)
  from dec_struct_enc [OF this, of expected_fields zero_expected]
  have "dec_expected (enc_expected e) zero_expected = set_fields expected_fields (repair_keys (expected_members e) @ []) zero_expected"
    by (simp add: dec_expected_def enc_expected_members)
  also have "\<dots> = Some e"
    using w by (simp add: expected_members_def zero_expected_def steps expected_setters del: append_Nil2)
  finally show ?thesis .
qed

lemma value_text_expected: "value_text (Suc (Suc (Suc d))) (enc_expected e)"
  unfolding enc_expected_members by (rule value_text_object [OF expected_members_text])

lemma dec_envelope_enc:
  assumes "list_all expected_wire es" "es \<noteq> []"
  shows "unmarshal dec_envelope (enc_envelope es) None = Some (Some es)"
proof -
  let ?t = "enc_list (map enc_expected es)"
  have vt: "value_text json_depth ?t"
    unfolding json_depth_def using value_text_enc_list [of es 9998 enc_expected] value_text_expected [of 9995] by simp
  have "dec_slice dec_expected zero_expected ?t = Some (Some (map (\<lambda>x. x) es))"
    using assms dec_slice_enc [of es enc_expected dec_expected zero_expected "\<lambda>x. x"] dec_expected_enc value_text_expected [of 9996]
    by (simp add: enc_list_def list_all_iff json_depth_def)
  then show ?thesis
    unfolding enc_envelope_def dec_envelope_def using vt
    by (subst unmarshal_struct_enc) (simp_all add: fold_name_def fold_rune_ascii)
qed

section \<open>Lemmas: challenges\<close>

text \<open>The entries that a server makes: the payload of each protocol, in ASCII.\<close>

fun payload_wire :: "string \<Rightarrow> payload \<Rightarrow> bool" where
  "payload_wire p (PoWPayload salt target) \<longleftrightarrow> p = ProtocolSHA256PoW \<and> ascii salt \<and> ascii target"
| "payload_wire p (RSWPayload n x t) \<longleftrightarrow> p = ProtocolRSW \<and> ascii n \<and> ascii x \<and> int64 t"
| "payload_wire p (InstrumentationPayload blob) \<longleftrightarrow> p = ProtocolInstrumentation \<and> ascii blob"
| "payload_wire p (RawPayload raw) \<longleftrightarrow> False"

definition entry_wire :: "challenge_entry \<Rightarrow> bool" where
  "entry_wire e \<longleftrightarrow> payload_wire (eProtocol e) (ePayload e)"

fun payload_text :: "payload \<Rightarrow> string" where
  "payload_text (PoWPayload salt target) = enc_object [(''salt'', enc_string salt), (''target'', enc_string target)]"
| "payload_text (RSWPayload n x t) = enc_object [(''N'', enc_string n), (''x'', enc_string x), (''t'', itoa t)]"
| "payload_text (InstrumentationPayload blob) = enc_object [(''blob'', enc_string blob)]"
| "payload_text (RawPayload raw) = ''null''"

definition entry_text :: "challenge_entry \<Rightarrow> string" where
  "entry_text e = enc_object [(''protocol'', enc_string (eProtocol e)), (''payload'', payload_text (ePayload e))]"

lemma protocols_differ [simp]:
  "ProtocolRSW \<noteq> ProtocolSHA256PoW" "ProtocolInstrumentation \<noteq> ProtocolSHA256PoW" "ProtocolInstrumentation \<noteq> ProtocolRSW"
  "ProtocolSHA256PoW \<noteq> ProtocolRSW" "ProtocolSHA256PoW \<noteq> ProtocolInstrumentation" "ProtocolRSW \<noteq> ProtocolInstrumentation"
  by (simp_all add: protocol_defs)

lemma protocols_ascii [simp]: "ascii ProtocolSHA256PoW" "ascii ProtocolRSW" "ascii ProtocolInstrumentation"
  by (simp_all add: protocol_defs)

lemma payload_wire_ascii: "payload_wire p pl \<Longrightarrow> ascii p"
  by (cases pl) auto

lemma enc_payload_text: "payload_wire p pl \<Longrightarrow> enc_payload pl = Inr (payload_text pl)"
  by (cases pl) auto

lemma value_text_payload: "value_text (Suc d) (payload_text pl)"
  by (cases pl) (auto intro!: value_text_object)

lemma value_text_entry: "value_text (Suc (Suc d)) (entry_text e)"
  unfolding entry_text_def using value_text_payload by (auto intro!: value_text_object)

lemma enc_entry_text: "entry_wire e \<Longrightarrow> enc_entry e = Inr (entry_text e)"
  by (simp add: enc_entry_def entry_wire_def entry_text_def enc_payload_text)

lemma map_result_Inr: "(\<And>x. x \<in> set xs \<Longrightarrow> f (g x) = Inr (h x)) \<Longrightarrow> map_result f (map g xs) = Inr (map h xs)"
  by (induction xs) auto

lemma dec_raw_entry_text:
  assumes "entry_wire e"
  shows "dec_raw_entry (entry_text e) ([], []) = Some (eProtocol e, payload_text (ePayload e))"
proof -
  have "ascii (eProtocol e)" using assms payload_wire_ascii by (simp add: entry_wire_def)
  moreover have "value_text json_depth (payload_text (ePayload e))" using value_text_payload [of 9998] by (simp add: json_depth_def)
  ultimately show ?thesis unfolding entry_text_def dec_raw_entry_def
    by (subst dec_struct_enc) (simp_all add: fold_name_def fold_rune_ascii dec_raw_def)
qed

lemma dec_entry_text:
  assumes "entry_wire e"
  shows "dec_entry (eProtocol e, payload_text (ePayload e)) = Inr e"
proof (cases "ePayload e")
  case (PoWPayload salt target)
  then have "payload_wire (eProtocol e) (PoWPayload salt target)" using assms by (simp add: entry_wire_def)
  then have "unmarshal dec_pow (payload_text (ePayload e)) ([], []) = Some (salt, target)"
    unfolding PoWPayload payload_text.simps dec_pow_def
    by (subst unmarshal_struct_enc) (simp_all add: fold_name_def fold_rune_ascii)
  then show ?thesis using assms PoWPayload by (cases e) (simp add: dec_entry_def entry_wire_def)
next
  case (RSWPayload n x t)
  then have "payload_wire (eProtocol e) (RSWPayload n x t)" using assms by (simp add: entry_wire_def)
  then have "unmarshal dec_rsw (payload_text (ePayload e)) ([], [], 0) = Some (n, x, t)"
    unfolding RSWPayload payload_text.simps dec_rsw_def
    by (subst unmarshal_struct_enc) (simp_all add: fold_name_def fold_rune_ascii dec_int64_wire)
  then show ?thesis using assms RSWPayload by (cases e) (simp add: dec_entry_def entry_wire_def)
next
  case (InstrumentationPayload blob)
  then have "payload_wire (eProtocol e) (InstrumentationPayload blob)" using assms by (simp add: entry_wire_def)
  then have "unmarshal dec_blob (payload_text (ePayload e)) [] = Some blob"
    unfolding InstrumentationPayload payload_text.simps dec_blob_def
    by (subst unmarshal_struct_enc) (simp_all add: fold_name_def fold_rune_ascii)
  then show ?thesis using assms InstrumentationPayload by (cases e) (simp add: dec_entry_def entry_wire_def)
next
  case (RawPayload raw)
  then show ?thesis using assms by (simp add: entry_wire_def)
qed

definition challenge_wire :: "challenge \<Rightarrow> bool" where
  "challenge_wire ch \<longleftrightarrow> ascii (chToken ch) \<and> int64 (chExpires ch) \<and>
     (if chFormat ch = 2
      then chCount ch = 0 \<and> chSize ch = 0 \<and> chDifficulty ch = 0 \<and> chInstrumentation ch = []
        \<and> list_all entry_wire (chChallenges ch)
      else chFormat ch = 1 \<and> int64 (chCount ch) \<and> int64 (chSize ch) \<and> int64 (chDifficulty ch)
        \<and> ascii (chInstrumentation ch) \<and> chChallenges ch = [])"

abbreviation probe_fields :: "int fields" where
  "probe_fields \<equiv> [(''format'', \<lambda>raw (f :: int). dec_int64 raw f)]"

lemma format2_roundtrip:
  assumes "challenge_wire ch" "chFormat ch = 2"
  shows "\<exists>text. challenge_MarshalJSON ch = Inr text \<and> challenge_UnmarshalJSON text = Inr (ch\<lparr>chScope := []\<rparr>)"
proof -
  let ?es = "map entry_text (chChallenges ch)"
  let ?ms = "[(''token'', enc_string (chToken ch)), (''format'', itoa 2), (''challenges'', enc_array ?es), (''expires'', itoa (chExpires ch))]"
  have w: "ascii (chToken ch)" "int64 (chExpires ch)" "list_all entry_wire (chChallenges ch)"
    "chCount ch = 0" "chSize ch = 0" "chDifficulty ch = 0" "chInstrumentation ch = []"
    using assms by (simp_all add: challenge_wire_def)
  have "map_result enc_entry (map (\<lambda>e. e) (chChallenges ch)) = Inr ?es"
    by (rule map_result_Inr) (use w(3) in \<open>simp add: enc_entry_text list_all_iff\<close>)
  then have m: "challenge_MarshalJSON ch = Inr (enc_object ?ms)"
    using assms(2) by (simp add: challenge_MarshalJSON_def)
  have "value_text json_depth (enc_array ?es)"
    unfolding depth_Suc(1) using value_text_entry [of 9996] by (intro value_text_array) simp
  then have vt: "\<forall>(k, v) \<in> set ?ms. value_text json_depth v" by simp
  have probe: "unmarshal (dec_struct probe_fields) (enc_object ?ms) 0 = Some 2"
    unfolding unmarshal_struct_enc [OF vt] by (simp add: fold_name_def fold_rune_ascii)
  have "dec_list dec_raw_entry ([], []) (enc_array ?es) = Some (map (\<lambda>e. (eProtocol e, payload_text (ePayload e))) (chChallenges ch))"
    unfolding dec_list_def
    by (subst dec_slice_enc [where h = "\<lambda>e. (eProtocol e, payload_text (ePayload e))"])
      (use w(3) value_text_entry [of 9997] in \<open>simp_all add: dec_raw_entry_text list_all_iff json_depth_def\<close>)
  then have raw: "unmarshal dec_format2 (enc_object ?ms) ([], 0, [])
      = Some (chToken ch, chExpires ch, map (\<lambda>e. (eProtocol e, payload_text (ePayload e))) (chChallenges ch))"
    unfolding dec_format2_def unmarshal_struct_enc [OF vt] using w
    by (simp add: fold_name_def fold_rune_ascii dec_int64_wire)
  have "map_result dec_entry (map (\<lambda>e. (eProtocol e, payload_text (ePayload e))) (chChallenges ch)) = Inr (map (\<lambda>e. e) (chChallenges ch))"
    by (rule map_result_Inr) (use w(3) in \<open>simp add: dec_entry_text list_all_iff\<close>)
  then have "challenge_UnmarshalJSON (enc_object ?ms) = Inr (ch\<lparr>chScope := []\<rparr>)"
    unfolding challenge_UnmarshalJSON_def probe using raw w assms(2) by (cases ch) (simp add: zero_challenge_def)
  then show ?thesis using m by blast
qed

lemma format1_roundtrip:
  assumes "challenge_wire ch" "chFormat ch \<noteq> 2"
  shows "\<exists>text. challenge_MarshalJSON ch = Inr text \<and> challenge_UnmarshalJSON text = Inr (ch\<lparr>chScope := []\<rparr>)"
proof -
  have w: "ascii (chToken ch)" "int64 (chExpires ch)" "chFormat ch = 1" "int64 (chCount ch)" "int64 (chSize ch)"
    "int64 (chDifficulty ch)" "ascii (chInstrumentation ch)" "chChallenges ch = []"
    using assms by (simp_all add: challenge_wire_def)
  let ?counts = "[(''c'', itoa (chCount ch)), (''s'', itoa (chSize ch)), (''d'', itoa (chDifficulty ch))]"
  let ?ms = "[(''challenge'', enc_object ?counts), (''token'', enc_string (chToken ch)), (''expires'', itoa (chExpires ch))]
      @ omit_string ''instrumentation'' (chInstrumentation ch)"
  have m: "challenge_MarshalJSON ch = Inr (enc_object ?ms)"
    using w(3) by (simp add: challenge_MarshalJSON_def omit_string_def)
  have "value_text json_depth (enc_object ?counts)"
    unfolding depth_Suc(1) by (rule value_text_object) simp
  then have vt: "\<forall>(k, v) \<in> set ?ms. value_text json_depth v" by (simp add: omit_string_def)
  have probe: "unmarshal (dec_struct probe_fields) (enc_object ?ms) 0 = Some 0"
    unfolding unmarshal_struct_enc [OF vt] by (simp add: fold_name_def fold_rune_ascii omit_string_def)
  have vc: "\<forall>(k, v) \<in> set ?counts. value_text json_depth v" by simp
  have counts: "dec_counts (enc_object ?counts) zero_challenge
      = Some (zero_challenge\<lparr>chCount := chCount ch, chSize := chSize ch, chDifficulty := chDifficulty ch\<rparr>)"
    unfolding dec_counts_def dec_struct_enc [OF vc] using w by (simp add: fold_name_def fold_rune_ascii dec_int64_wire)
  have "unmarshal dec_format1 (enc_object ?ms) zero_challenge
      = Some (zero_challenge\<lparr>chCount := chCount ch, chSize := chSize ch, chDifficulty := chDifficulty ch,
          chToken := chToken ch, chExpires := chExpires ch, chInstrumentation := chInstrumentation ch\<rparr>)"
    unfolding dec_format1_def unmarshal_struct_enc [OF vt] using w counts
    by (simp add: fold_name_def fold_rune_ascii dec_int64_wire omit_string_def zero_challenge_def)
  then have "challenge_UnmarshalJSON (enc_object ?ms) = Inr (ch\<lparr>chScope := []\<rparr>)"
    unfolding challenge_UnmarshalJSON_def probe using w by (cases ch) (simp add: zero_challenge_def)
  then show ?thesis using m by blast
qed

section \<open>Properties\<close>

text \<open>
  Property C38. A challenge survives the wire in both formats: the text that \<open>MarshalJSON\<close> emits
  for a challenge that the server makes is parsed by \<open>UnmarshalJSON\<close> into the same challenge,
  format, counts, entries and payload types included; only the scope, which is not sent, is lost.
\<close>
theorem challenge_json_roundtrip:
  assumes "challenge_wire ch"
  shows "\<exists>text. challenge_MarshalJSON ch = Inr text \<and> challenge_UnmarshalJSON text = Inr (ch\<lparr>chScope := []\<rparr>)"
  using format1_roundtrip [OF assms] format2_roundtrip [OF assms] by blast

theorem challenge_json_roundtrip_witness:
  "\<exists>text. challenge_MarshalJSON
      (zero_challenge\<lparr>chFormat := 2, chToken := ''a.b.c'', chExpires := 1700000000000, chScope := ''login'',
         chChallenges := [\<lparr>eProtocol = ProtocolSHA256PoW, ePayload = PoWPayload ''00ff'' ''000''\<rparr>,
                          \<lparr>eProtocol = ProtocolRSW, ePayload = RSWPayload ''0f'' ''02'' 75000\<rparr>]\<rparr>) = Inr text
    \<and> challenge_UnmarshalJSON text = Inr
      (zero_challenge\<lparr>chFormat := 2, chToken := ''a.b.c'', chExpires := 1700000000000,
         chChallenges := [\<lparr>eProtocol = ProtocolSHA256PoW, ePayload = PoWPayload ''00ff'' ''000''\<rparr>,
                          \<lparr>eProtocol = ProtocolRSW, ePayload = RSWPayload ''0f'' ''02'' 75000\<rparr>]\<rparr>)"
  using challenge_json_roundtrip [of "zero_challenge\<lparr>chFormat := 2, chToken := ''a.b.c'', chExpires := 1700000000000, chScope := ''login'',
         chChallenges := [\<lparr>eProtocol = ProtocolSHA256PoW, ePayload = PoWPayload ''00ff'' ''000''\<rparr>,
                          \<lparr>eProtocol = ProtocolRSW, ePayload = RSWPayload ''0f'' ''02'' 75000\<rparr>]\<rparr>"]
  by (simp add: challenge_wire_def entry_wire_def int64_def zero_challenge_def)

end
