(* ===== verification/Pow.thy ===== *)
theory Pow
  imports Prng Crypto Rsw Wire
begin

text \<open>
  The proof-of-work half of \<open>cap.go\<close>: how the solutions of a request are read and printed as
  JavaScript prints numbers, the check of a format-1 challenge, and the brute-force client. The
  search of \<open>SolvePoW\<close> has no bound in the code; it is a partial function, \<open>None\<close> when no
  nonce solves the puzzle (a nonce beyond \<open>int64\<close> is out of reach).
\<close>

section \<open>Reading solutions\<close>

text \<open>\<open>f < n\<close> for an integral constant \<open>n\<close>.\<close>

definition f64_less :: "f64 \<Rightarrow> int \<Rightarrow> bool" where
  "f64_less f n \<longleftrightarrow>
     (let m = (if neg f then - int (mant f) else int (mant f))
      in if expo f < 0 then m < n * 2 ^ nat (- expo f) else m * 2 ^ nat (expo f) < n)"

definition f64_negate :: "f64 \<Rightarrow> f64" where
  "f64_negate f = F64 (\<not> neg f) (mant f) (expo f)"

definition jsNumberString :: "f64 \<Rightarrow> string" where
  "jsNumberString f =
     (if f64_eq f (f64_of_int (int64_of_f64 f)) \<and> f64_less f (10 ^ 21) \<and> f64_less (f64_negate f) (10 ^ 21)
      then itoa (int64_of_f64 f) else format_float_g f)"

definition numberString :: "string \<Rightarrow> string option" where
  "numberString raw = map_option jsNumberString (unmarshal dec_f64 raw f64_zero)"

definition nonceString :: "string \<Rightarrow> string option" where
  "nonceString raw =
     (if raw = [] then None
      else if hd raw = CHR 0x22 then unmarshal dec_string raw []
      else numberString raw)"

definition dec_raws :: "string \<Rightarrow> string list \<Rightarrow> string list option" where
  "dec_raws raw old = dec_list dec_raw [] raw"

fun number_strings :: "string list \<Rightarrow> string list option" where
  "number_strings [] = Some []"
| "number_strings (v # vs) =
     (case numberString v of None \<Rightarrow> None
      | Some s \<Rightarrow> (case number_strings vs of None \<Rightarrow> None | Some ss \<Rightarrow> Some (s # ss)))"

definition parseFormat1Solutions :: "string \<Rightarrow> string list option" where
  "parseFormat1Solutions raw =
     (case unmarshal dec_raws raw [] of None \<Rightarrow> None | Some values \<Rightarrow> number_strings values)"

section \<open>Checking\<close>

definition powMatches :: "string \<Rightarrow> string \<Rightarrow> string \<Rightarrow> bool" where
  "powMatches salt nonce target = hashHasHexPrefix (sha256Sum (salt @ nonce)) target"

text \<open>The loop of \<open>verifyFormat1\<close> from index \<open>i\<close> over the solutions that are left.\<close>

fun verify_pairs :: "string \<Rightarrow> int \<Rightarrow> int \<Rightarrow> int \<Rightarrow> string list \<Rightarrow> go_error option" where
  "verify_pairs token i sz difficulty [] = None"
| "verify_pairs token i sz difficulty (s # ss) =
     (case format1Pair token (i + 1) sz difficulty of
        None \<Rightarrow> Some (EPanic ''slice bounds out of range'')
      | Some (salt, target) \<Rightarrow>
          if \<not> powMatches salt s target then Some (fail ReasonInvalidSolution)
          else verify_pairs token (i + 1) sz difficulty ss)"

definition verifyFormat1 :: "string \<Rightarrow> int \<Rightarrow> int \<Rightarrow> int \<Rightarrow> string list \<Rightarrow> go_error option" where
  "verifyFormat1 token count sz difficulty solutions =
     (if int (length solutions) \<noteq> count then Some (fail ReasonInvalidSolutions)
      else verify_pairs token 0 sz difficulty solutions)"

section \<open>Solving\<close>

partial_function (option) pow_search :: "string \<Rightarrow> string \<Rightarrow> int \<Rightarrow> int option" where
  "pow_search salt target nonce =
     (if powMatches salt (itoa nonce) target then Some nonce else pow_search salt target (nonce + 1))"

definition SolvePoW :: "string \<Rightarrow> string \<Rightarrow> int option" where
  "SolvePoW salt target = pow_search salt target 0"

text \<open>\<open>Format1Pairs\<close>: the pairs of indices \<open>1 .. Count\<close>; \<open>None\<close> is a panic on a negative length.\<close>

definition Format1Pairs :: "challenge \<Rightarrow> (string \<times> string) list option" where
  "Format1Pairs ch =
     (if chCount ch < 0 then None
      else map_opt (\<lambda>i. format1Pair (chToken ch) (int i + 1) (chSize ch) (chDifficulty ch)) [0..<nat (chCount ch)])"

text \<open>One format-2 entry to the JSON text of its solution, or an error; \<open>None\<close>: no return.\<close>

fun solve_entry :: "challenge_entry \<Rightarrow> (go_error + string) option" where
  "solve_entry e =
     (case ePayload e of
        PoWPayload salt target \<Rightarrow>
          (case SolvePoW salt target of None \<Rightarrow> None
           | Some n \<Rightarrow> Some (Inr (enc_object [(''nonce'', itoa n)])))
      | RSWPayload nHex xHex t \<Rightarrow>
          (case (parseHexInt nHex, parseHexInt xHex) of
             (Some n, Some x) \<Rightarrow>
               (case SolveRSW n x t of
                  Inl err \<Rightarrow> Some (Inl err)
                | Inr y \<Rightarrow> Some (Inr (enc_object [(''y'', enc_string (to_base 16 (nat y)))])))
           | _ \<Rightarrow> Some (Inl (EOther ''capgo: invalid rsw payload'')))
      | _ \<Rightarrow> Some (Inl (EOther (''capgo: cannot solve protocol '' @ eProtocol e @ '' in Go''))))"

fun solve_entries :: "challenge_entry list \<Rightarrow> (go_error + string list) option" where
  "solve_entries [] = Some (Inr [])"
| "solve_entries (e # es) =
     (case solve_entry e of
        None \<Rightarrow> None
      | Some (Inl err) \<Rightarrow> Some (Inl err)
      | Some (Inr s) \<Rightarrow>
          (case solve_entries es of
             None \<Rightarrow> None
           | Some (Inl err) \<Rightarrow> Some (Inl err)
           | Some (Inr ss) \<Rightarrow> Some (Inr (s # ss))))"

definition SolveChallenge :: "challenge \<Rightarrow> (go_error + string) option" where
  "SolveChallenge ch =
     (if chFormat ch = 2 then
        (case solve_entries (chChallenges ch) of
           None \<Rightarrow> None
         | Some (Inl err) \<Rightarrow> Some (Inl err)
         | Some (Inr ss) \<Rightarrow> Some (Inr (enc_array ss)))
      else
        (case Format1Pairs ch of
           None \<Rightarrow> Some (Inl (EPanic ''makeslice: len out of range''))
         | Some pairs \<Rightarrow>
             (case map_opt (\<lambda>(salt, target). SolvePoW salt target) pairs of
                None \<Rightarrow> None
              | Some nonces \<Rightarrow> Some (Inr (enc_array (map itoa nonces))))))"

section \<open>Lemmas: numbers\<close>

lemma f64_less_small:
  assumes "\<bar>i\<bar> < 2 ^ 53"
  shows "f64_less (f64_of_int i) (10 ^ 21)" "f64_less (f64_negate (f64_of_int i)) (10 ^ 21)"
proof -
  have "f64_less (F64 s m e) (10 ^ 21)" if "int m < 2 ^ 53" "e \<le> 0" for s m e
  proof -
    have "(1 :: int) \<le> 2 ^ nat (- e)" by simp
    then have "(10 :: int) ^ 21 * 1 \<le> 10 ^ 21 * 2 ^ nat (- e)" by (intro mult_left_mono) auto
    moreover have "(2 :: int) ^ 53 < 10 ^ 21 * 1" by simp
    ultimately have "int m < 10 ^ 21 * 2 ^ nat (- e)" "- int m < 10 ^ 21 * 2 ^ nat (- e)" using that(1) by linarith+
    moreover have "int m < 10 ^ 21" "- int m < 10 ^ 21" using that(1) by simp_all
    ultimately show ?thesis using that by (cases "e = 0"; cases s) (simp_all add: f64_less_def)
  qed
  moreover have "\<exists>s m e. f64_of_int i = F64 s m e \<and> int m < 2 ^ 53 \<and> e \<le> 0"
  proof (cases "i = 0")
    case False
    then have n: "0 < nat \<bar>i\<bar>" "nat \<bar>i\<bar> < 2 ^ 53" using assms by (auto simp: nat_less_iff)
    let ?n = "nat \<bar>i\<bar>"
    have b: "bit_len ?n \<le> 53" "?n < 2 ^ bit_len ?n" using bit_len_le [OF n(2)] bit_len_bounds [OF n(1)] by auto
    have "?n * 2 ^ (53 - bit_len ?n) < 2 ^ bit_len ?n * 2 ^ (53 - bit_len ?n)" using b by simp
    also have "\<dots> = 2 ^ 53" using b by (simp flip: power_add)
    finally have lt: "?n * 2 ^ (53 - bit_len ?n) < 2 ^ 53" .
    obtain m e where f: "f64_of_int i = F64 (i < 0) m e" "m < 2 ^ 53" "e \<le> 0"
      unfolding f64_of_int_def round_small [OF n] using lt b by simp
    then show ?thesis by auto
  qed (auto simp add: f64_of_int_def round_f64_def)
  ultimately show "f64_less (f64_of_int i) (10 ^ 21)" "f64_less (f64_negate (f64_of_int i)) (10 ^ 21)"
    by (auto simp: f64_negate_def)
qed

lemma jsNumberString_int [simp]: "\<bar>i\<bar> < 2 ^ 53 \<Longrightarrow> jsNumberString (f64_of_int i) = itoa i"
  using f64_less_small [of i] int64_of_f64_int [of i] by (simp add: jsNumberString_def)

lemma numberString_itoa [simp]: "\<bar>i\<bar> < 2 ^ 53 \<Longrightarrow> numberString (itoa i) = Some (itoa i)"
  by (simp add: numberString_def f64_of_itoa)

lemma number_strings_itoa: "list_all (\<lambda>i. \<bar>i\<bar> < 2 ^ 53) is \<Longrightarrow> number_strings (map itoa is) = Some (map itoa is)"
  by (induction "is") auto

lemma unmarshal_raws:
  assumes "\<forall>t \<in> set ts. value_text json_depth t"
  shows "unmarshal dec_raws (enc_array ts) [] = Some ts"
proof -
  have "dec_slice dec_raw [] (enc_array (map (\<lambda>t. t) ts)) = Some (Some (map (\<lambda>t. t) ts))"
    using assms by (intro dec_slice_enc) (auto simp: dec_raw_def)
  then show ?thesis
    by (simp add: unmarshal_value_text value_text_array [OF assms] dec_raws_def dec_list_def)
qed

lemma parseFormat1Solutions_itoa:
  "list_all (\<lambda>i. \<bar>i\<bar> < 2 ^ 53) is \<Longrightarrow> parseFormat1Solutions (enc_array (map itoa is)) = Some (map itoa is)"
  by (simp add: parseFormat1Solutions_def unmarshal_raws number_strings_itoa)

text \<open>A \<open>null\<close> leaves the \<open>float64\<close> it is decoded into at zero, so it passes for the solution 0.\<close>

lemma null_solution_read_as_zero: "parseFormat1Solutions ''[null]'' = Some [''0'']"
proof -
  have v: "value_text d ''null''" for d by (cases d) (simp_all add: value_text_def scan_scalar_def scan_lit_def json_ws_def)
  have "jsNumberString f64_zero = ''0''"
    by (simp add: jsNumberString_def f64_eq_def f64_zero_def int64_of_f64_def f64_trunc_def f64_of_int_def round_f64_def
        f64_less_def f64_negate_def itoa_def to_base.simps digit_char_def digit_chars_def)
  then have "numberString ''null'' = Some ''0''"
    using v by (simp add: numberString_def unmarshal_value_text dec_f64_def json_null_def)
  moreover have "''[null]'' = enc_array [''null'']" by (simp add: enc_array_def)
  ultimately show ?thesis by (simp add: parseFormat1Solutions_def unmarshal_raws v)
qed

section \<open>Lemmas: searching and checking\<close>

lemma pow_search_sound:
  assumes "pow_search salt target n = Some m"
  shows "n \<le> m \<and> powMatches salt (itoa m) target \<and> (\<forall>k. n \<le> k \<and> k < m \<longrightarrow> \<not> powMatches salt (itoa k) target)"
proof (rule pow_search.raw_induct [OF _ assms,
    where P = "\<lambda>salt target n m. n \<le> m \<and> powMatches salt (itoa m) target
      \<and> (\<forall>k. n \<le> k \<and> k < m \<longrightarrow> \<not> powMatches salt (itoa k) target)"])
  fix ps salt target n m
  assume ih: "\<And>salt target n m. ps salt target n = Some m \<Longrightarrow> n \<le> m \<and> powMatches salt (itoa m) target
      \<and> (\<forall>k. n \<le> k \<and> k < m \<longrightarrow> \<not> powMatches salt (itoa k) target)"
    and body: "(if powMatches salt (itoa n) target then Some n else ps salt target (n + 1)) = Some m"
  show "n \<le> m \<and> powMatches salt (itoa m) target \<and> (\<forall>k. n \<le> k \<and> k < m \<longrightarrow> \<not> powMatches salt (itoa k) target)"
  proof (cases "powMatches salt (itoa n) target")
    case True
    then show ?thesis using body by auto
  next
    case False
    then have "n + 1 \<le> m \<and> powMatches salt (itoa m) target \<and> (\<forall>k. n + 1 \<le> k \<and> k < m \<longrightarrow> \<not> powMatches salt (itoa k) target)"
      using body ih by simp
    moreover have "n \<le> k \<Longrightarrow> k = n \<or> n + 1 \<le> k" for k by linarith
    ultimately show ?thesis using False by force
  qed
qed

lemma pow_search_finds:
  "powMatches salt (itoa (n + int j)) target \<Longrightarrow> \<exists>m. pow_search salt target n = Some m"
proof (induction j arbitrary: n)
  case 0
  then show ?case by (simp add: pow_search.simps)
next
  case (Suc j)
  then have "powMatches salt (itoa (n + 1 + int j)) target" by (simp add: algebra_simps)
  then show ?case using Suc.IH [of "n + 1"] by (subst pow_search.simps) simp
qed

lemma verify_pairs_None:
  "verify_pairs token i sz d ss = None \<longleftrightarrow>
    (\<forall>j < length ss. case format1Pair token (i + int j + 1) sz d of None \<Rightarrow> False
       | Some (salt, target) \<Rightarrow> powMatches salt (ss ! j) target)"
proof (induction ss arbitrary: i)
  case Nil
  then show ?case by simp
next
  case (Cons s ss)
  have "(i + 1) + int j + 1 = i + int (Suc j) + 1" for j by simp
  then show ?case unfolding length_Cons all_less_Suc_split
    using Cons.IH [of "i + 1"] by (auto split: option.splits)
qed

lemma map_opt_Some_nth:
  "map_opt f xs = Some ys \<Longrightarrow> length ys = length xs \<and> (\<forall>i < length xs. f (xs ! i) = Some (ys ! i))"
proof (induction xs arbitrary: ys)
  case (Cons x xs)
  then obtain y zs where y: "f x = Some y" "map_opt f xs = Some zs" "ys = y # zs"
    by (auto split: option.splits)
  with Cons.IH [OF y(2)] show ?case by (auto simp: nth_Cons split: nat.splits)
qed simp

lemma verifyFormat1_accepts:
  "verifyFormat1 token count sz d ss = None \<longleftrightarrow>
     int (length ss) = count \<and>
     (\<forall>j < length ss. case format1Pair token (int j + 1) sz d of None \<Rightarrow> False
        | Some (salt, target) \<Rightarrow> powMatches salt (ss ! j) target)"
  using verify_pairs_None [of token 0 sz d ss] by (auto simp: verifyFormat1_def)

lemma SolvePoW_Some: "SolvePoW salt target = Some n \<Longrightarrow> 0 \<le> n \<and> powMatches salt (itoa n) target"
  using pow_search_sound by (auto simp: SolvePoW_def)

lemma solve_format1:
  assumes "chFormat ch \<noteq> 2" "SolveChallenge ch = Some (Inr text)"
  obtains nonces where "text = enc_array (map itoa nonces)" "list_all (\<lambda>n. 0 \<le> n) nonces"
    "verifyFormat1 (chToken ch) (chCount ch) (chSize ch) (chDifficulty ch) (map itoa nonces) = None"
proof -
  obtain pairs nonces where p: "Format1Pairs ch = Some pairs"
    and n: "map_opt (\<lambda>(salt, target). SolvePoW salt target) pairs = Some nonces"
    and t: "text = enc_array (map itoa nonces)"
    using assms by (auto simp: SolveChallenge_def split: option.splits)
  have c: "0 \<le> chCount ch" and mp: "map_opt (\<lambda>i. format1Pair (chToken ch) (int i + 1) (chSize ch) (chDifficulty ch)) [0..<nat (chCount ch)] = Some pairs"
    using p by (auto simp: Format1Pairs_def split: if_splits)
  note pn = map_opt_Some_nth [OF mp] and nn = map_opt_Some_nth [OF n]
  have len: "length nonces = nat (chCount ch)" using pn nn by simp
  have ok: "format1Pair (chToken ch) (int j + 1) (chSize ch) (chDifficulty ch) = Some (pairs ! j) \<and>
      SolvePoW (fst (pairs ! j)) (snd (pairs ! j)) = Some (nonces ! j)" if "j < length nonces" for j
    using pn nn that len by (auto simp: case_prod_unfold)
  have "verifyFormat1 (chToken ch) (chCount ch) (chSize ch) (chDifficulty ch) (map itoa nonces) = None"
    unfolding verifyFormat1_accepts using c len ok SolvePoW_Some by (auto simp: case_prod_unfold)
  moreover have "list_all (\<lambda>n. 0 \<le> n) nonces" using ok SolvePoW_Some by (fastforce simp: list_all_length)
  ultimately show thesis using t that by blast
qed

section \<open>Properties\<close>

text \<open>
  Property C36. What a format-1 submission must be: \<open>verifyFormat1\<close> accepts exactly the lists
  with one solution per challenge in which, for each index, the hexadecimal SHA-256 digest of salt
  and solution starts with the target, both taken from the token by \<open>PRNG\<close>. No entry is skipped
  and none is checked against another index.
\<close>
theorem verifyFormat1_exact:
  "verifyFormat1 token count sz d ss = None \<longleftrightarrow>
     int (length ss) = count \<and>
     list_all (\<lambda>j. case (PRNG (token @ itoa (int j + 1)) sz, PRNG (token @ itoa (int j + 1) @ ''d'') d) of
         (Some salt, Some target) \<Rightarrow> hashHasHexPrefix (sha256Sum (salt @ ss ! j)) target
       | _ \<Rightarrow> False) [0..<length ss]"
proof -
  have "(case format1Pair token i sz d of None \<Rightarrow> False | Some (salt, target) \<Rightarrow> powMatches salt s target)
    \<longleftrightarrow> (case (PRNG (token @ itoa i) sz, PRNG (token @ itoa i @ ''d'') d) of
         (Some salt, Some target) \<Rightarrow> hashHasHexPrefix (sha256Sum (salt @ s)) target | _ \<Rightarrow> False)" for i s
    by (simp add: format1Pair_PRNG powMatches_def split: option.splits)
  moreover have "(\<forall>j < length ss. P j) \<longleftrightarrow> list_all P [0..<length ss]" for P by (auto simp: list_all_iff)
  ultimately show ?thesis unfolding verifyFormat1_accepts by simp
qed


text \<open>
  The Go client satisfies the server for format 1: when \<open>SolveChallenge\<close> returns a
  solution text, the server parses that text back into the decimal nonces and accepts every one of
  them, provided each nonce is below \<open>2 ^ 53\<close>, where a double is exact.
\<close>
lemma solve_format1_accepted:
  assumes "chFormat ch \<noteq> 2" "SolveChallenge ch = Some (Inr text)"
  shows "\<exists>nonces. text = enc_array (map itoa nonces) \<and>
    (list_ex (\<lambda>n. 2 ^ 53 \<le> n) nonces \<or>
     parseFormat1Solutions text = Some (map itoa nonces) \<and>
     verifyFormat1 (chToken ch) (chCount ch) (chSize ch) (chDifficulty ch) (map itoa nonces) = None)"
proof -
  obtain nonces where n: "text = enc_array (map itoa nonces)" "list_all (\<lambda>n. 0 \<le> n) nonces"
    "verifyFormat1 (chToken ch) (chCount ch) (chSize ch) (chDifficulty ch) (map itoa nonces) = None"
    using solve_format1 [OF assms] by blast
  have "\<not> list_ex (\<lambda>n. 2 ^ 53 \<le> n) nonces \<Longrightarrow> list_all (\<lambda>i. \<bar>i\<bar> < 2 ^ 53) nonces"
    using n(2) by (auto simp: list_all_iff list_ex_iff not_le)
  then show ?thesis using n parseFormat1Solutions_itoa [of nonces] by auto
qed

lemma solve_format1_accepted_witness:
  "\<exists>nonces text. SolveChallenge (zero_challenge\<lparr>chFormat := 1, chToken := ''abc'', chCount := 2, chSize := 8\<rparr>) = Some (Inr text)
    \<and> text = enc_array (map itoa nonces) \<and> verifyFormat1 ''abc'' 2 8 0 (map itoa nonces) = None"
proof -
  let ?ch = "zero_challenge\<lparr>chFormat := 1, chToken := ''abc'', chCount := 2, chSize := 8\<rparr>"
  have empty: "SolvePoW salt [] = Some 0" for salt
    by (simp add: SolvePoW_def pow_search.simps powMatches_def hashHasHexPrefix_def to_lower_def)
  have pair: "\<exists>salt. format1Pair ''abc'' i 8 0 = Some (salt, [])" for i
    using format1Pair_total [of 8 0 "''abc''" i] format1Pair_Some [of "''abc''" i 8 0] by fastforce
  obtain s1 s2 where "format1Pair ''abc'' 1 8 0 = Some (s1, [])" "format1Pair ''abc'' 2 8 0 = Some (s2, [])"
    using pair by blast
  then have s: "SolveChallenge ?ch = Some (Inr (enc_array (map itoa [0, 0])))"
    by (simp add: SolveChallenge_def Format1Pairs_def zero_challenge_def upt_rec empty)
  have "chFormat ?ch \<noteq> 2" by simp
  from solve_format1_accepted [OF this s] obtain nonces where n: "enc_array (map itoa [0, 0]) = enc_array (map itoa nonces)"
    "list_ex (\<lambda>n. 2 ^ 53 \<le> n) nonces \<or> parseFormat1Solutions (enc_array (map itoa [0, 0])) = Some (map itoa nonces) \<and>
      verifyFormat1 ''abc'' 2 8 0 (map itoa nonces) = None"
    by (auto simp: zero_challenge_def)
  have "json_elements (enc_array (map itoa nonces)) = Some (map itoa nonces)" "json_elements (enc_array (map itoa [0, 0])) = Some (map itoa [0, 0])"
    by (rule json_elements_enc, simp)+
  then have "map itoa nonces = map itoa [0, 0]" using n(1) by simp
  then have "nonces = [0, 0]" using itoa_inj by (auto simp: map_eq_Cons_conv)
  then show ?thesis using s n by (intro exI [of _ "[0, 0]"] exI [of _ "enc_array (map itoa [0, 0])"]) simp
qed

end
