(* ===== verification/Store.thy ===== *)
theory Store
  imports Errors Records
begin

text \<open>
  The \<open>Store\<close> interface of \<open>store.go\<close> as a record of operations on a store state, the
  promises its comments make as a locale, the lemmas a client may use proved once from those
  promises, and \<open>MemoryStore\<close>, on which the locale is interpreted. Every method of
  \<open>MemoryStore\<close> holds the mutex from its first to its last line, so it is one atomic step and
  any concurrent use is some sequence of steps: the lemmas about a list of operations hold for
  every interleaving of any number of clients.
\<close>

section \<open>The interface\<close>

record 'st store_ops =
  PutChallenge :: "string \<Rightarrow> challenge_record \<Rightarrow> 'st \<Rightarrow> (go_error + unit) \<times> 'st"
  TakeChallenge :: "string \<Rightarrow> int \<Rightarrow> 'st \<Rightarrow> (go_error + challenge_record option) \<times> 'st"
  ClaimNonce :: "string \<Rightarrow> int \<Rightarrow> int \<Rightarrow> 'st \<Rightarrow> (go_error + bool) \<times> 'st"
  PutToken :: "string \<Rightarrow> token_record \<Rightarrow> 'st \<Rightarrow> (go_error + unit) \<times> 'st"
  ConsumeToken :: "string \<Rightarrow> string \<Rightarrow> int \<Rightarrow> bool \<Rightarrow> 'st \<Rightarrow> (go_error + token_record option) \<times> 'st"
  StoreCleanup :: "int \<Rightarrow> 'st \<Rightarrow> (go_error + unit) \<times> 'st"
  StoreReset :: "'st \<Rightarrow> (go_error + unit) \<times> 'st"

text \<open>Histories: a list of calls, run in order, with what each call returned.\<close>

datatype store_call =
    CPutChallenge string challenge_record
  | CTake string int
  | CClaim string int int
  | CPutToken string token_record
  | CConsume string string int bool
  | CCleanup int
  | CReset

datatype store_reply =
    RUnit
  | RChallenge "challenge_record option"
  | RBool bool
  | RToken "token_record option"
  | RError go_error

definition reply :: "('a \<Rightarrow> store_reply) \<Rightarrow> (go_error + 'a) \<times> 'st \<Rightarrow> store_reply \<times> 'st" where
  "reply f r = ((case fst r of Inl e \<Rightarrow> RError e | Inr x \<Rightarrow> f x), snd r)"

fun call :: "'st store_ops \<Rightarrow> store_call \<Rightarrow> 'st \<Rightarrow> store_reply \<times> 'st" where
  "call S (CPutChallenge t r) s = reply (\<lambda>_. RUnit) (PutChallenge S t r s)"
| "call S (CTake t now) s = reply RChallenge (TakeChallenge S t now s)"
| "call S (CClaim k e now) s = reply RBool (ClaimNonce S k e now s)"
| "call S (CPutToken k r) s = reply (\<lambda>_. RUnit) (PutToken S k r s)"
| "call S (CConsume k scope now keep) s = reply RToken (ConsumeToken S k scope now keep s)"
| "call S (CCleanup now) s = reply (\<lambda>_. RUnit) (StoreCleanup S now s)"
| "call S CReset s = reply (\<lambda>_. RUnit) (StoreReset S s)"

fun run_calls :: "'st store_ops \<Rightarrow> store_call list \<Rightarrow> 'st \<Rightarrow> (store_call \<times> store_reply) list \<times> 'st" where
  "run_calls S [] s = ([], s)"
| "run_calls S (c # cs) s =
     (let r = call S c s; rest = run_calls S cs (snd r) in ((c, fst r) # fst rest, snd rest))"

lemma fst_reply: "fst (reply f r) = (case fst r of Inl e \<Rightarrow> RError e | Inr x \<Rightarrow> f x)"
  by (simp add: reply_def)

lemma snd_reply [simp]: "snd (reply f r) = snd r"
  by (simp add: reply_def)

text \<open>The successful uses of a challenge, a nonce and a token in a history.\<close>

fun took :: "string \<Rightarrow> store_call \<times> store_reply \<Rightarrow> bool" where
  "took t (CTake u now, RChallenge (Some r)) \<longleftrightarrow> u = t"
| "took t _ \<longleftrightarrow> False"

fun put_chal :: "string \<Rightarrow> store_call \<times> store_reply \<Rightarrow> bool" where
  "put_chal t (CPutChallenge u r, _) \<longleftrightarrow> u = t"
| "put_chal t _ \<longleftrightarrow> False"

fun claimed :: "string \<Rightarrow> store_call \<times> store_reply \<Rightarrow> bool" where
  "claimed k (CClaim u e now, RBool True) \<longleftrightarrow> u = k"
| "claimed k _ \<longleftrightarrow> False"

fun spent :: "string \<Rightarrow> store_call \<times> store_reply \<Rightarrow> bool" where
  "spent k (CConsume u scope now False, RToken (Some r)) \<longleftrightarrow> u = k"
| "spent k _ \<longleftrightarrow> False"

fun put_tok :: "string \<Rightarrow> store_call \<times> store_reply \<Rightarrow> bool" where
  "put_tok k (CPutToken u r, _) \<longleftrightarrow> u = k"
| "put_tok k _ \<longleftrightarrow> False"

definition count_if :: "('a \<Rightarrow> bool) \<Rightarrow> 'a list \<Rightarrow> nat" where
  "count_if P xs = length (filter P xs)"

lemma count_if_simps [simp]: "count_if P [] = 0" "count_if P (x # xs) = (if P x then 1 else 0) + count_if P xs"
  by (simp_all add: count_if_def)

text \<open>
  Calls after which a nonce claimed until \<open>E\<close> may still be relied on: its key is claimed
  with the same expiry and strictly before it, and no clean-up runs at or after it.
\<close>

fun before_expiry :: "string \<Rightarrow> int \<Rightarrow> store_call \<Rightarrow> bool" where
  "before_expiry k E (CClaim u e now) \<longleftrightarrow> u = k \<longrightarrow> e = E \<and> now < E"
| "before_expiry k E (CCleanup now) \<longleftrightarrow> now < E"
| "before_expiry k E CReset \<longleftrightarrow> False"
| "before_expiry k E _ \<longleftrightarrow> True"

section \<open>The contract\<close>

text \<open>
  What the comments of the interface promise, over three views of a state: the challenge and the
  token stored under a key, and the expiry of a nonce. A store may return errors and may drop
  entries; it never returns an entry twice, never returns one that was not put, is out of
  scope or is expired, and keeps a claimed nonce until its expiry. The laws of the entries come
  first: they hold whatever the clocks of the store and of its callers do.
\<close>

locale entry_store =
  fixes S :: "'st store_ops"
    and chal :: "'st \<Rightarrow> string \<Rightarrow> challenge_record option"
    and tok :: "'st \<Rightarrow> string \<Rightarrow> token_record option"
  assumes put_challenge_chal: "u \<noteq> t \<Longrightarrow> chal (snd (PutChallenge S t r s)) u = chal s u"
    and put_challenge_rest: "tok (snd (PutChallenge S t r s)) = tok s"
    and take_Some: "fst (TakeChallenge S t now s) = Inr (Some r) \<Longrightarrow>
          chal s t = Some r \<and> now < cExpires r \<and> chal (snd (TakeChallenge S t now s)) t = None"
    and take_chal: "chal (snd (TakeChallenge S t now s)) \<subseteq>\<^sub>m chal s"
    and take_rest: "tok (snd (TakeChallenge S t now s)) = tok s"
    and claim_rest: "chal (snd (ClaimNonce S k e now s)) = chal s" "tok (snd (ClaimNonce S k e now s)) = tok s"
    and put_token_tok: "u \<noteq> k \<Longrightarrow> tok (snd (PutToken S k tr s)) u = tok s u"
    and put_token_rest: "chal (snd (PutToken S k tr s)) = chal s"
    and consume_Some: "fst (ConsumeToken S k scope now keep s) = Inr (Some tr) \<Longrightarrow>
          tok s k = Some tr \<and> (\<not> keep \<longrightarrow> tok (snd (ConsumeToken S k scope now keep s)) k = None)"
    and consume_tok: "tok (snd (ConsumeToken S k scope now keep s)) \<subseteq>\<^sub>m tok s"
    and consume_rest: "chal (snd (ConsumeToken S k scope now keep s)) = chal s"
    and cleanup_chal: "chal (snd (StoreCleanup S now s)) \<subseteq>\<^sub>m chal s"
    and cleanup_tok: "tok (snd (StoreCleanup S now s)) \<subseteq>\<^sub>m tok s"
    and reset_chal: "chal (snd (StoreReset S s)) \<subseteq>\<^sub>m chal s"
    and reset_tok: "tok (snd (StoreReset S s)) \<subseteq>\<^sub>m tok s"
begin

lemmas entry_rest [simp] = put_challenge_rest take_rest claim_rest put_token_rest consume_rest

lemma submap_None: "m \<subseteq>\<^sub>m m' \<Longrightarrow> m' x = None \<Longrightarrow> m x = None"
  by (force simp: map_le_def)

lemmas gone =
  submap_None [OF take_chal] submap_None [OF cleanup_chal] submap_None [OF reset_chal]
  submap_None [OF consume_tok] submap_None [OF cleanup_tok] submap_None [OF reset_tok]

text \<open>One call: a use of an entry finds it there and leaves it gone; only a put brings it back.\<close>

lemma took_call:
  assumes "took t (c, fst (call S c s))"
  shows "chal s t \<noteq> None \<and> chal (snd (call S c s)) t = None \<and> \<not> put_chal t (c, fst (call S c s))"
proof -
  from assms obtain now r where c: "c = CTake t now" and "fst (call S c s) = RChallenge (Some r)"
    by (cases "(t, c, fst (call S c s))" rule: took.cases) auto
  then have "fst (TakeChallenge S t now s) = Inr (Some r)"
    by (simp add: fst_reply split: sum.splits)
  from take_Some [OF this] c show ?thesis by simp
qed

lemma chal_call:
  "chal s t = None \<Longrightarrow> chal (snd (call S c s)) t \<noteq> None \<Longrightarrow> put_chal t (c, fst (call S c s))"
proof (cases c)
  case (CPutChallenge u r)
  assume "chal s t = None" "chal (snd (call S c s)) t \<noteq> None"
  with CPutChallenge have "u = t" using put_challenge_chal [of t u r s] by (cases "u = t") auto
  with CPutChallenge show ?thesis by simp
qed (simp_all add: gone)

lemma takes_bounded:
  "count_if (took t) (fst (run_calls S cs s)) + (if chal (snd (run_calls S cs s)) t = None then 0 else 1)
     \<le> count_if (put_chal t) (fst (run_calls S cs s)) + (if chal s t = None then 0 else 1)"
proof (induction cs arbitrary: s)
  case Nil
  then show ?case by simp
next
  case (Cons c cs)
  have "(if took t (c, fst (call S c s)) then 1 else 0) + (if chal (snd (call S c s)) t = None then 0 else 1)
      \<le> (if put_chal t (c, fst (call S c s)) then 1 else 0) + (if chal s t = None then 0 else (1::nat))"
    using took_call [of t c s] chal_call [of s t c] by auto
  then show ?case using Cons.IH [of "snd (call S c s)"] by (simp add: Let_def)
qed

lemma spent_call:
  assumes "spent k (c, fst (call S c s))"
  shows "tok s k \<noteq> None \<and> tok (snd (call S c s)) k = None \<and> \<not> put_tok k (c, fst (call S c s))"
proof -
  from assms obtain scope now r where c: "c = CConsume k scope now False" and "fst (call S c s) = RToken (Some r)"
    by (cases "(k, c, fst (call S c s))" rule: spent.cases) auto
  then have "fst (ConsumeToken S k scope now False s) = Inr (Some r)"
    by (simp add: fst_reply split: sum.splits)
  from consume_Some [OF this] c show ?thesis by simp
qed

lemma tok_call:
  "tok s k = None \<Longrightarrow> tok (snd (call S c s)) k \<noteq> None \<Longrightarrow> put_tok k (c, fst (call S c s))"
proof (cases c)
  case (CPutToken u r)
  assume "tok s k = None" "tok (snd (call S c s)) k \<noteq> None"
  with CPutToken have "u = k" using put_token_tok [of k u r s] by (cases "u = k") auto
  with CPutToken show ?thesis by simp
qed (simp_all add: gone)

lemma spends_bounded:
  "count_if (spent k) (fst (run_calls S cs s)) + (if tok (snd (run_calls S cs s)) k = None then 0 else 1)
     \<le> count_if (put_tok k) (fst (run_calls S cs s)) + (if tok s k = None then 0 else 1)"
proof (induction cs arbitrary: s)
  case Nil
  then show ?case by simp
next
  case (Cons c cs)
  have "(if spent k (c, fst (call S c s)) then 1 else 0) + (if tok (snd (call S c s)) k = None then 0 else 1)
      \<le> (if put_tok k (c, fst (call S c s)) then 1 else 0) + (if tok s k = None then 0 else (1::nat))"
    using spent_call [of k c s] tok_call [of s k c] by auto
  then show ?case using Cons.IH [of "snd (call S c s)"] by (simp add: Let_def)
qed

end

locale store_contract = entry_store S chal tok
  for S :: "'st store_ops" and chal tok +
  fixes nonce :: "'st \<Rightarrow> string \<Rightarrow> int option"
  assumes consume_fits: "fst (ConsumeToken S k scope now keep s) = Inr (Some tr) \<Longrightarrow>
          now < tExpires tr \<and> (scope = [] \<or> tScope tr = scope)"
    and claim_True: "fst (ClaimNonce S k e now s) = Inr True \<Longrightarrow>
          (\<forall>e'. nonce s k = Some e' \<longrightarrow> e' \<le> now) \<and> nonce (snd (ClaimNonce S k e now s)) k = Some e"
    and claim_nonce: "nonce s u = Some e' \<Longrightarrow> u \<noteq> k \<or> now < e' \<Longrightarrow>
          nonce (snd (ClaimNonce S k e now s)) u = Some e'"
    and nonce_rest [simp]: "nonce (snd (PutChallenge S t r s)) = nonce s" "nonce (snd (TakeChallenge S t now s)) = nonce s"
          "nonce (snd (PutToken S k tr s)) = nonce s" "nonce (snd (ConsumeToken S k scope now keep s)) = nonce s"
    and cleanup_nonce: "nonce s u = Some e \<Longrightarrow> now < e \<Longrightarrow> nonce (snd (StoreCleanup S now s)) u = Some e"
begin

text \<open>A claimed nonce stays claimed, and is not claimed again, while its expiry is ahead.\<close>

lemma nonce_call:
  "nonce s k = Some E \<Longrightarrow> before_expiry k E c \<Longrightarrow>
     nonce (snd (call S c s)) k = Some E \<and> \<not> claimed k (c, fst (call S c s))"
proof (cases c)
  case (CClaim u e now)
  assume n: "nonce s k = Some E" and b: "before_expiry k E c"
  with CClaim have "u \<noteq> k \<or> now < E" by auto
  then have keep: "nonce (snd (call S c s)) k = Some E" using n CClaim claim_nonce by auto
  have "\<not> claimed k (c, fst (call S c s))"
  proof
    assume "claimed k (c, fst (call S c s))"
    with CClaim have "u = k" "fst (ClaimNonce S k e now s) = Inr True"
      by (auto simp: fst_reply elim!: claimed.elims split: sum.splits)
    with n have "E \<le> now" using claim_True by blast
    with \<open>u = k\<close> b CClaim show False by simp
  qed
  with keep show ?thesis by blast
qed (auto simp: cleanup_nonce)

lemma claims_after:
  "nonce s k = Some E \<Longrightarrow> list_all (before_expiry k E) cs \<Longrightarrow>
     count_if (claimed k) (fst (run_calls S cs s)) = 0"
proof (induction cs arbitrary: s)
  case Nil
  then show ?case by simp
next
  case (Cons c cs)
  then show ?case using nonce_call [of s k E c] by (simp add: Let_def)
qed

lemma claimed_call:
  assumes "claimed k (c, fst (call S c s))" "before_expiry k E c"
  shows "nonce (snd (call S c s)) k = Some E"
proof -
  from assms(1) obtain e now where c: "c = CClaim k e now" and "fst (call S c s) = RBool True"
    by (cases "(k, c, fst (call S c s))" rule: claimed.cases) auto
  then have "fst (ClaimNonce S k e now s) = Inr True"
    by (simp add: fst_reply split: sum.splits)
  with claim_True c assms(2) show ?thesis by simp
qed

lemma claims_bounded:
  "list_all (before_expiry k E) cs \<Longrightarrow> count_if (claimed k) (fst (run_calls S cs s)) \<le> 1"
proof (induction cs arbitrary: s)
  case Nil
  then show ?case by simp
next
  case (Cons c cs)
  show ?case
  proof (cases "claimed k (c, fst (call S c s))")
    case True
    then have "nonce (snd (call S c s)) k = Some E" using claimed_call Cons.prems by simp
    then have "count_if (claimed k) (fst (run_calls S cs (snd (call S c s)))) = 0"
      using claims_after Cons.prems by simp
    then show ?thesis by (simp add: Let_def)
  next
    case False
    then show ?thesis using Cons by (simp add: Let_def)
  qed
qed

end

text \<open>
  A store that also keeps what it is given: nothing is lost before it expires and no operation
  fails. This is what the documentation of a single-process store promises on top.
\<close>

locale live_store = store_contract +
  assumes put_challenge_get: "fst (PutChallenge S t r s) = Inr ()" "chal (snd (PutChallenge S t r s)) t = Some r"
    and take_live: "chal s t = Some r \<Longrightarrow> now < cExpires r \<Longrightarrow> fst (TakeChallenge S t now s) = Inr (Some r)"
    and take_missing: "chal s t = None \<Longrightarrow> fst (TakeChallenge S t now s) = Inr None"
    and claim_free: "(\<And>e'. nonce s k = Some e' \<Longrightarrow> e' \<le> now) \<Longrightarrow> fst (ClaimNonce S k e now s) = Inr True"
    and claim_held: "nonce s k = Some e' \<Longrightarrow> now < e' \<Longrightarrow> fst (ClaimNonce S k e now s) = Inr False"
    and put_token_get: "fst (PutToken S k tr s) = Inr ()" "tok (snd (PutToken S k tr s)) k = Some tr"
    and consume_live: "tok s k = Some tr \<Longrightarrow> now < tExpires tr \<Longrightarrow> scope = [] \<or> tScope tr = scope \<Longrightarrow>
          fst (ConsumeToken S k scope now keep s) = Inr (Some tr)"
    and consume_missing: "tok s k = None \<Longrightarrow> fst (ConsumeToken S k scope now keep s) = Inr None"
    and cleanup_live: "chal s t = Some r \<Longrightarrow> now < cExpires r \<Longrightarrow> chal (snd (StoreCleanup S now s)) t = Some r"
          "tok s k = Some tr \<Longrightarrow> now < tExpires tr \<Longrightarrow> tok (snd (StoreCleanup S now s)) k = Some tr"
          "nonce (snd (StoreCleanup S now s)) \<subseteq>\<^sub>m nonce s"
    and never_fails: "fst (TakeChallenge S t now s) \<noteq> Inl err" "fst (ClaimNonce S k e now s) \<noteq> Inl err"
          "fst (ConsumeToken S k scope now keep s) \<noteq> Inl err" "fst (StoreCleanup S now s) \<noteq> Inl err"
          "fst (StoreReset S s) \<noteq> Inl err"

section \<open>MemoryStore\<close>

record memory_store =
  challenges :: "string \<rightharpoonup> challenge_record"
  nonces :: "string \<rightharpoonup> int"
  tokens :: "string \<rightharpoonup> token_record"

definition NewMemoryStore :: memory_store where
  "NewMemoryStore = \<lparr>challenges = Map.empty, nonces = Map.empty, tokens = Map.empty\<rparr>"

definition mem_PutChallenge :: "string \<Rightarrow> challenge_record \<Rightarrow> memory_store \<Rightarrow> (go_error + unit) \<times> memory_store" where
  "mem_PutChallenge token rec s = (Inr (), s\<lparr>challenges := (challenges s)(token \<mapsto> rec)\<rparr>)"

definition mem_TakeChallenge :: "string \<Rightarrow> int \<Rightarrow> memory_store \<Rightarrow> (go_error + challenge_record option) \<times> memory_store" where
  "mem_TakeChallenge token now s =
     (case challenges s token of
        None \<Rightarrow> (Inr None, s)
      | Some rec \<Rightarrow>
          let s' = s\<lparr>challenges := (challenges s)(token := None)\<rparr>
          in if cExpires rec \<le> now then (Inr None, s') else (Inr (Some rec), s'))"

definition mem_ClaimNonce :: "string \<Rightarrow> int \<Rightarrow> int \<Rightarrow> memory_store \<Rightarrow> (go_error + bool) \<times> memory_store" where
  "mem_ClaimNonce key expiresAt now s =
     (if (case nonces s key of Some current \<Rightarrow> current > now | None \<Rightarrow> False) then (Inr False, s)
      else (Inr True, s\<lparr>nonces := (nonces s)(key \<mapsto> expiresAt)\<rparr>))"

definition mem_PutToken :: "string \<Rightarrow> token_record \<Rightarrow> memory_store \<Rightarrow> (go_error + unit) \<times> memory_store" where
  "mem_PutToken key rec s = (Inr (), s\<lparr>tokens := (tokens s)(key \<mapsto> rec)\<rparr>)"

definition mem_ConsumeToken ::
  "string \<Rightarrow> string \<Rightarrow> int \<Rightarrow> bool \<Rightarrow> memory_store \<Rightarrow> (go_error + token_record option) \<times> memory_store" where
  "mem_ConsumeToken key scope now keep s =
     (case tokens s key of
        None \<Rightarrow> (Inr None, s)
      | Some rec \<Rightarrow>
          let removed = s\<lparr>tokens := (tokens s)(key := None)\<rparr>
          in if tExpires rec \<le> now then (Inr None, removed)
             else if scope \<noteq> [] \<and> tScope rec \<noteq> scope then (Inr None, s)
             else (Inr (Some rec), if keep then s else removed))"

definition drop_expired :: "('v \<Rightarrow> int) \<Rightarrow> int \<Rightarrow> ('k \<rightharpoonup> 'v) \<Rightarrow> ('k \<rightharpoonup> 'v)" where
  "drop_expired expires now m =
     (\<lambda>k. case m k of None \<Rightarrow> None | Some v \<Rightarrow> if expires v \<le> now then None else Some v)"

definition mem_Cleanup :: "int \<Rightarrow> memory_store \<Rightarrow> (go_error + unit) \<times> memory_store" where
  "mem_Cleanup now s =
     (Inr (), \<lparr>challenges = drop_expired cExpires now (challenges s),
               nonces = drop_expired (\<lambda>e. e) now (nonces s),
               tokens = drop_expired tExpires now (tokens s)\<rparr>)"

definition mem_Reset :: "memory_store \<Rightarrow> (go_error + unit) \<times> memory_store" where
  "mem_Reset s = (Inr (), \<lparr>challenges = Map.empty, nonces = Map.empty, tokens = Map.empty\<rparr>)"

definition mem_Len :: "memory_store \<Rightarrow> nat \<times> nat \<times> nat" where
  "mem_Len s = (card (dom (challenges s)), card (dom (nonces s)), card (dom (tokens s)))"

definition mem_ops :: "memory_store store_ops" where
  "mem_ops = \<lparr>PutChallenge = mem_PutChallenge, TakeChallenge = mem_TakeChallenge,
     ClaimNonce = mem_ClaimNonce, PutToken = mem_PutToken, ConsumeToken = mem_ConsumeToken,
     StoreCleanup = mem_Cleanup, StoreReset = mem_Reset\<rparr>"

lemma mem_ops_simps [simp]:
  "PutChallenge mem_ops = mem_PutChallenge" "TakeChallenge mem_ops = mem_TakeChallenge"
  "ClaimNonce mem_ops = mem_ClaimNonce" "PutToken mem_ops = mem_PutToken"
  "ConsumeToken mem_ops = mem_ConsumeToken" "StoreCleanup mem_ops = mem_Cleanup"
  "StoreReset mem_ops = mem_Reset"
  by (simp_all add: mem_ops_def)

lemmas mem_defs =
  mem_PutChallenge_def mem_TakeChallenge_def mem_ClaimNonce_def mem_PutToken_def
  mem_ConsumeToken_def mem_Cleanup_def mem_Reset_def drop_expired_def

interpretation mem: live_store mem_ops challenges tokens nonces
  by unfold_locales
    (auto simp: mem_defs map_le_def Let_def split: option.splits if_splits)

section \<open>Clean-up cannot be observed\<close>

text \<open>The time a call reads the clock at; the calls without one are never too early.\<close>

fun call_from :: "int \<Rightarrow> store_call \<Rightarrow> bool" where
  "call_from now (CTake t n) \<longleftrightarrow> now \<le> n"
| "call_from now (CClaim k e n) \<longleftrightarrow> now \<le> n"
| "call_from now (CConsume k scope n keep) \<longleftrightarrow> now \<le> n"
| "call_from now (CCleanup n) \<longleftrightarrow> now \<le> n"
| "call_from now _ \<longleftrightarrow> True"

definition same_live :: "int \<Rightarrow> memory_store \<Rightarrow> memory_store \<Rightarrow> bool" where
  "same_live now s s' \<longleftrightarrow>
     drop_expired cExpires now (challenges s) = drop_expired cExpires now (challenges s') \<and>
     drop_expired (\<lambda>e. e) now (nonces s) = drop_expired (\<lambda>e. e) now (nonces s') \<and>
     drop_expired tExpires now (tokens s) = drop_expired tExpires now (tokens s')"

lemma drop_expired_upd [simp]:
  "drop_expired ex now (m(k := v)) =
     (drop_expired ex now m)(k := (case v of None \<Rightarrow> None | Some x \<Rightarrow> if ex x \<le> now then None else Some x))"
  by (auto simp: drop_expired_def)

lemma drop_expired_twice: "now \<le> n \<Longrightarrow> drop_expired ex now (drop_expired ex n m) = drop_expired ex n m"
  by (rule ext) (auto simp: drop_expired_def split: option.splits)

lemma drop_expired_mono: "now \<le> n \<Longrightarrow> drop_expired ex n (drop_expired ex now m) = drop_expired ex n m"
  by (rule ext) (auto simp: drop_expired_def split: option.splits)

lemma drop_expired_later:
  "drop_expired ex now m = drop_expired ex now m' \<Longrightarrow> now \<le> n \<Longrightarrow> drop_expired ex n m = drop_expired ex n m'"
  by (metis drop_expired_mono)

text \<open>Two maps with the same live entries answer a lookup at a later time alike.\<close>

lemma live_lookup:
  assumes "drop_expired ex now m = drop_expired ex now m'" "now \<le> n"
  shows "(case m k of None \<Rightarrow> None | Some v \<Rightarrow> if ex v \<le> n then None else Some v) =
         (case m' k of None \<Rightarrow> None | Some v \<Rightarrow> if ex v \<le> n then None else Some v)"
  using drop_expired_later [OF assms] by (simp add: drop_expired_def fun_eq_iff)

lemma live_same:
  assumes "drop_expired ex now m = drop_expired ex now m'" "m k = Some v" "now < ex v"
  shows "m' k = Some v"
  using live_lookup [OF assms(1) order_refl, of k] assms by (auto split: option.splits if_splits)

lemma take_live:
  "mem_TakeChallenge t n s =
     (let r = drop_expired cExpires n (challenges s) t
      in (Inr r, s\<lparr>challenges := (challenges s)(t := None)\<rparr>))"
  by (cases s) (auto simp: mem_TakeChallenge_def drop_expired_def Let_def fun_upd_idem split: option.splits)

lemma claim_live:
  "mem_ClaimNonce k e n s =
     (case drop_expired (\<lambda>e. e) n (nonces s) k of
        Some _ \<Rightarrow> (Inr False, s) | None \<Rightarrow> (Inr True, s\<lparr>nonces := (nonces s)(k \<mapsto> e)\<rparr>))"
  by (auto simp: mem_ClaimNonce_def drop_expired_def split: option.splits)

lemma consume_live:
  "mem_ConsumeToken k scope n keep s =
     (case drop_expired tExpires n (tokens s) k of
        None \<Rightarrow> (Inr None, s\<lparr>tokens := (tokens s)(k := None)\<rparr>)
      | Some r \<Rightarrow> if scope \<noteq> [] \<and> tScope r \<noteq> scope then (Inr None, s)
                  else (Inr (Some r), if keep then s else s\<lparr>tokens := (tokens s)(k := None)\<rparr>))"
  by (cases s) (auto simp: mem_ConsumeToken_def drop_expired_def Let_def fun_upd_idem split: option.splits)

lemma same_live_call:
  assumes "same_live now s s'" "call_from now c"
  shows "fst (call mem_ops c s) = fst (call mem_ops c s')
       \<and> same_live now (snd (call mem_ops c s)) (snd (call mem_ops c s'))"
proof (cases c)
  case (CTake t n)
  with assms have "drop_expired cExpires n (challenges s) = drop_expired cExpires n (challenges s')"
    by (auto simp: same_live_def intro: drop_expired_later)
  then show ?thesis using assms CTake by (simp add: take_live reply_def same_live_def Let_def)
next
  case (CClaim k e n)
  with assms have "drop_expired (\<lambda>e. e) n (nonces s) = drop_expired (\<lambda>e. e) n (nonces s')"
    by (auto simp: same_live_def intro: drop_expired_later)
  then show ?thesis using assms CClaim
    by (auto simp: claim_live reply_def same_live_def split: option.splits)
next
  case (CConsume k scope n keep)
  with assms have "drop_expired tExpires n (tokens s) = drop_expired tExpires n (tokens s')"
    by (auto simp: same_live_def intro: drop_expired_later)
  then show ?thesis using assms CConsume
    by (auto simp: consume_live reply_def same_live_def split: option.splits)
next
  case (CCleanup n)
  with assms show ?thesis
    by (auto simp: mem_Cleanup_def reply_def same_live_def drop_expired_twice intro: drop_expired_later)
qed (use assms in \<open>auto simp: mem_PutChallenge_def mem_PutToken_def mem_Reset_def reply_def same_live_def\<close>)

lemma same_live_run:
  "same_live now s s' \<Longrightarrow> list_all (call_from now) cs \<Longrightarrow>
     fst (run_calls mem_ops cs s) = fst (run_calls mem_ops cs s')"
proof (induction cs arbitrary: s s')
  case Nil
  then show ?case by simp
next
  case (Cons c cs)
  then show ?case using same_live_call [of now s s' c] by (simp add: Let_def)
qed

lemma same_live_cleanup: "same_live now s (snd (mem_Cleanup now s))"
  by (simp add: same_live_def mem_Cleanup_def drop_expired_twice)

section \<open>Properties\<close>

text \<open>
  Whatever calls run on a \<open>MemoryStore\<close>, in whatever order, a challenge is
  handed out by \<open>TakeChallenge\<close> at most once for each time it was put (and once more if it
  was in the store at the start): no interleaving of clients redeems one challenge twice.
\<close>

lemma memory_challenge_single_use:
  "count_if (took t) (fst (run_calls mem_ops cs s))
     \<le> count_if (put_chal t) (fst (run_calls mem_ops cs s)) + (if challenges s t = None then 0 else 1)"
  using mem.takes_bounded [of t cs s] by simp

text \<open>
  In every history of a \<open>MemoryStore\<close>, a verification token is consumed
  (with \<open>keep\<close> false) at most once for each time it was put.
\<close>

lemma memory_token_single_use:
  "count_if (spent k) (fst (run_calls mem_ops cs s))
     \<le> count_if (put_tok k) (fst (run_calls mem_ops cs s)) + (if tokens s k = None then 0 else 1)"
  using mem.spends_bounded [of k cs s] by simp

text \<open>
  In a history in which every claim of a nonce key carries the same expiry and
  every claim of it and every clean-up happens before that expiry, with no reset, at most one
  \<open>ClaimNonce\<close> of the key succeeds.
\<close>

lemma memory_nonce_single_use:
  assumes "list_all (before_expiry k E) cs"
  shows "count_if (claimed k) (fst (run_calls mem_ops cs s)) \<le> 1"
  by (rule mem.claims_bounded [OF assms])

lemma memory_nonce_single_use_witness:
  "count_if (claimed ''n'') (fst (run_calls mem_ops
     [CClaim ''n'' 10 3, CCleanup 9, CClaim ''n'' 10 9] NewMemoryStore)) \<le> 1"
  by (rule memory_nonce_single_use [where E = 10]) simp

text \<open>
  Property C29. Lazy clean-up cannot be observed: from the moment \<open>now\<close> on, a store on which
  \<open>Cleanup(now)\<close> ran answers every sequence of calls exactly as the store on which it did not
  run, as long as no call reads a clock before \<open>now\<close>.
\<close>

theorem memory_cleanup_invisible:
  assumes "list_all (call_from now) cs"
  shows "fst (run_calls mem_ops cs (snd (mem_Cleanup now s))) = fst (run_calls mem_ops cs s)"
  using same_live_run [OF same_live_cleanup assms, of s] by simp

theorem memory_cleanup_invisible_witness:
  "fst (run_calls mem_ops [CConsume ''k'' [] 7 False, CTake ''c'' 8]
       (snd (mem_Cleanup 6 \<lparr>challenges = Map.empty, nonces = Map.empty,
                             tokens = [''k'' \<mapsto> \<lparr>tScope = [], tExpires = 5\<rparr>]\<rparr>))) =
   fst (run_calls mem_ops [CConsume ''k'' [] 7 False, CTake ''c'' 8]
       \<lparr>challenges = Map.empty, nonces = Map.empty, tokens = [''k'' \<mapsto> \<lparr>tScope = [], tExpires = 5\<rparr>]\<rparr>)"
  by (rule memory_cleanup_invisible) simp

end
