(* ===== verification/Cap.thy ===== *)
theory Cap
  imports Pow Store
begin

text \<open>
  The configuration and the state of a \<open>Cap\<close> (\<open>cap.go\<close>), and the vocabulary its methods are
  written in. A method is a function of a \<open>world\<close>: the store, what the entropy source still has
  to give, the clock, the two mutable fields of \<open>Cap\<close> and what the context answers; it returns
  an error or a value, and the world afterwards. Times and durations are nanoseconds.
\<close>

section \<open>Constants\<close>

definition DefaultChallengeCount :: int where
  "DefaultChallengeCount = 50"

definition DefaultChallengeSize :: int where
  "DefaultChallengeSize = 32"

definition DefaultChallengeDifficulty :: int where
  "DefaultChallengeDifficulty = 4"

definition DefaultChallengeTTL :: int where
  "DefaultChallengeTTL = 10 * 60 * 10 ^ 9"

definition DefaultTokenTTL :: int where
  "DefaultTokenTTL = 20 * 60 * 10 ^ 9"

definition DefaultRSWIterations :: int where
  "DefaultRSWIterations = 75000"

definition MaxChallengeCount :: int where
  "MaxChallengeCount = 1000"

definition MaxChallengeSize :: int where
  "MaxChallengeSize = 256"

definition MaxChallengeDifficulty :: int where
  "MaxChallengeDifficulty = 16"

definition challengeTokenBytes :: int where
  "challengeTokenBytes = 25"

definition tokenIDBytes :: int where
  "tokenIDBytes = 8"

definition tokenVerifierBytes :: int where
  "tokenVerifierBytes = 15"

definition cleanupInterval :: int where
  "cleanupInterval = 5 * 60 * 10 ^ 9"

lemmas const_defs =
  DefaultChallengeCount_def DefaultChallengeSize_def DefaultChallengeDifficulty_def DefaultChallengeTTL_def
  DefaultTokenTTL_def DefaultRSWIterations_def MaxChallengeCount_def MaxChallengeSize_def MaxChallengeDifficulty_def
  challengeTokenBytes_def tokenIDBytes_def tokenVerifierBytes_def cleanupInterval_def

section \<open>Options\<close>

text \<open>
  A generator reads entropy, its options and the time, and returns an error or a (possibly nil)
  challenge. \<open>SignToken\<close> and \<open>VerifyToken\<close> may keep state of their own next to the store.
\<close>

type_synonym generator = "byte list \<Rightarrow> instr_options \<Rightarrow> int \<Rightarrow> (go_error + instrumentation option) \<times> byte list"

record public_claims =
  pcScope :: string
  pcExpires :: int
  pcIssuedAt :: int

record 'st options =
  oSecret :: "byte list"
  oStore :: "'st store_ops option"
  oFormat :: int
  oStateless :: bool
  oProtocols :: "string list"
  oChallengeCount :: int
  oChallengeSize :: int
  oChallengeDifficulty :: int
  oChallengeTTL :: int
  oTokenTTL :: int
  oRSWKeypair :: "rsw_keypair option"
  oRSWIterations :: int
  oInstrumentation :: "instr_options option"
  oInstrumentationGenerator :: "generator option"
  oSignToken :: "(public_claims \<Rightarrow> 'st \<Rightarrow> (go_error + string) \<times> 'st) option"
  oVerifyToken :: "(string \<Rightarrow> string \<Rightarrow> 'st \<Rightarrow> (go_error + bool) \<times> 'st) option"

record challenge_options =
  coScope :: string
  coExtra :: "(string \<times> string) list"
  coFormat :: int
  coStateless :: "bool option"
  coProtocols :: "string list"
  coChallengeCount :: int
  coChallengeSize :: int
  coChallengeDifficulty :: int
  coChallengeTTL :: int
  coInstrumentation :: "instr_options option"
  coDisableInstrumentation :: bool
  coInstrumentationGenerator :: "generator option"

definition validatePoWParams :: "int \<Rightarrow> int \<Rightarrow> int \<Rightarrow> go_error option" where
  "validatePoWParams count sz difficulty =
     (if count < 1 \<or> count > MaxChallengeCount \<or> sz < 1 \<or> sz > MaxChallengeSize
         \<or> difficulty < 1 \<or> difficulty > MaxChallengeDifficulty
      then Some (configErr ''c in [1,1000], s in [1,256], d in [1,16]'') else None)"

definition known_protocol :: "string \<Rightarrow> bool" where
  "known_protocol p \<longleftrightarrow> p \<in> {ProtocolSHA256PoW, ProtocolRSW, ProtocolInstrumentation}"

text \<open>The defaults that \<open>New\<close> fills in before it checks, in three groups.\<close>

definition or_default :: "int \<Rightarrow> int \<Rightarrow> int" where
  "or_default v d = (if v = 0 then d else v)"

definition default_basics :: "'st store_ops \<Rightarrow> 'st options \<Rightarrow> 'st options" where
  "default_basics memoryStore c =
     c\<lparr>oStore := Some (case oStore c of None \<Rightarrow> memoryStore | Some s \<Rightarrow> s), oFormat := or_default (oFormat c) 1\<rparr>"

definition default_pow :: "'st options \<Rightarrow> 'st options" where
  "default_pow c =
     c\<lparr>oChallengeCount := or_default (oChallengeCount c) DefaultChallengeCount,
       oChallengeSize := or_default (oChallengeSize c) DefaultChallengeSize,
       oChallengeDifficulty := or_default (oChallengeDifficulty c) DefaultChallengeDifficulty\<rparr>"

definition default_ttls :: "'st options \<Rightarrow> 'st options" where
  "default_ttls c =
     c\<lparr>oChallengeTTL := or_default (oChallengeTTL c) DefaultChallengeTTL,
       oTokenTTL := or_default (oTokenTTL c) DefaultTokenTTL\<rparr>"

definition default_iterations :: "'st options \<Rightarrow> 'st options" where
  "default_iterations c = c\<lparr>oRSWIterations := or_default (oRSWIterations c) DefaultRSWIterations\<rparr>"

definition default_protocols :: "'st options \<Rightarrow> 'st options" where
  "default_protocols c = c\<lparr>oProtocols := (if oProtocols c = [] then [ProtocolRSW] else oProtocols c)\<rparr>"

definition check_keypair :: "(int \<Rightarrow> bool) \<Rightarrow> 'st options \<Rightarrow> go_error + unit" where
  "check_keypair probablyPrime c =
     (case oRSWKeypair c of None \<Rightarrow> Inr () | Some k \<Rightarrow> keypair_Validate probablyPrime (Some k))"

text \<open>\<open>New\<close>: the checks and the defaults in the order of the code. The result holds the options.\<close>

definition New :: "(int \<Rightarrow> bool) \<Rightarrow> 'st store_ops \<Rightarrow> 'st options \<Rightarrow> go_error + 'st options" where
  "New probablyPrime memoryStore opts =
     (if 0 < length (oSecret opts) \<and> length (oSecret opts) < 16
        then Inl (configErr ''secret must be at least 16 bytes'')
      else
        let o1 = default_basics memoryStore opts
        in if oFormat o1 \<noteq> 1 \<and> oFormat o1 \<noteq> 2 then Inl (configErr ''format must be 1 or 2'')
        else
          let o2 = default_pow o1
          in (case validatePoWParams (oChallengeCount o2) (oChallengeSize o2) (oChallengeDifficulty o2) of
                Some err \<Rightarrow> Inl err
              | None \<Rightarrow>
                let o3 = default_ttls o2
                in if oChallengeTTL o3 < 0 \<or> oTokenTTL o3 < 0 then Inl (configErr ''TTLs must be positive'')
                else
                  let o4 = default_iterations o3
                  in if oRSWIterations o4 < 1 then Inl (configErr ''RSWIterations must be positive'')
                  else
                    (case check_keypair probablyPrime o4 of
                       Inl err \<Rightarrow> Inl (configErr (error_text err))
                     | Inr _ \<Rightarrow>
                       let o5 = default_protocols o4
                       in (case find (\<lambda>p. \<not> known_protocol p) (oProtocols o5) of
                             Some p \<Rightarrow> Inl (configErr (''unknown protocol '' @ p))
                           | None \<Rightarrow>
                             if (oSignToken o5 = None) \<noteq> (oVerifyToken o5 = None)
                               then Inl (configErr ''SignToken and VerifyToken must be set together'')
                             else if (oStateless o5 \<or> oFormat o5 = 2) \<and> oSecret o5 = []
                               then Inl (configErr ''Secret is required for stateless or format-2 challenges'')
                             else Inr o5))))"

lemmas default_defs =
  default_basics_def default_pow_def default_ttls_def default_iterations_def default_protocols_def

section \<open>The world\<close>

record 'st world =
  wStore :: 'st
  wRandom :: "byte list"
  wClock :: "nat \<Rightarrow> int"
  wReads :: nat
  wMinters :: "int \<rightharpoonup> rsw_minter"
  wLastCleanup :: int
  wContext :: "go_error option list"

text \<open>The zero value of \<open>Options\<close>, and a fresh instance with some entropy and a constant clock.\<close>

definition zero_options :: "'st options" where
  "zero_options =
     \<lparr>oSecret = [], oStore = None, oFormat = 0, oStateless = False, oProtocols = [], oChallengeCount = 0,
      oChallengeSize = 0, oChallengeDifficulty = 0, oChallengeTTL = 0, oTokenTTL = 0, oRSWKeypair = None,
      oRSWIterations = 0, oInstrumentation = None, oInstrumentationGenerator = None, oSignToken = None,
      oVerifyToken = None\<rparr>"

definition zero_challenge_options :: challenge_options where
  "zero_challenge_options =
     \<lparr>coScope = [], coExtra = [], coFormat = 0, coStateless = None, coProtocols = [], coChallengeCount = 0,
      coChallengeSize = 0, coChallengeDifficulty = 0, coChallengeTTL = 0, coInstrumentation = None,
      coDisableInstrumentation = False, coInstrumentationGenerator = None\<rparr>"

text \<open>The zero \<open>time.Time\<close>, and milliseconds: of an instant rounded down, of a duration towards zero.\<close>

definition zero_time :: int where
  "zero_time = - 62135596800 * 10 ^ 9"

definition unixMilli :: "int \<Rightarrow> int" where
  "unixMilli t = t div 10 ^ 6"

definition milliseconds :: "int \<Rightarrow> int" where
  "milliseconds d = (if d < 0 then - ((- d) div 10 ^ 6) else d div 10 ^ 6)"

definition fresh_world :: "'st \<Rightarrow> byte list \<Rightarrow> int \<Rightarrow> 'st world" where
  "fresh_world s random now =
     \<lparr>wStore = s, wRandom = random, wClock = (\<lambda>_. now), wReads = 0, wMinters = Map.empty,
      wLastCleanup = zero_time, wContext = []\<rparr>"

type_synonym ('st, 'a) act = "'st world \<Rightarrow> (go_error + 'a) \<times> 'st world"

definition ret :: "'a \<Rightarrow> ('st, 'a) act" where
  "ret x w = (Inr x, w)"

definition throw :: "go_error \<Rightarrow> ('st, 'a) act" where
  "throw e w = (Inl e, w)"

definition andThen :: "('st, 'a) act \<Rightarrow> ('a \<Rightarrow> ('st, 'b) act) \<Rightarrow> ('st, 'b) act" where
  "andThen m f w = (case m w of (Inl e, w') \<Rightarrow> (Inl e, w') | (Inr x, w') \<Rightarrow> f x w')"

definition pure :: "go_error + 'a \<Rightarrow> ('st, 'a) act" where
  "pure r w = (r, w)"

definition check :: "go_error option \<Rightarrow> ('st, unit) act" where
  "check e w = ((case e of None \<Rightarrow> Inr () | Some err \<Rightarrow> Inl err), w)"

definition mapError :: "(go_error \<Rightarrow> go_error) \<Rightarrow> ('st, 'a) act \<Rightarrow> ('st, 'a) act" where
  "mapError f m w = (case m w of (Inl e, w') \<Rightarrow> (Inl (f e), w') | (Inr x, w') \<Rightarrow> (Inr x, w'))"

definition readNow :: "('st, int) act" where
  "readNow w = (Inr (wClock w (wReads w)), w\<lparr>wReads := Suc (wReads w)\<rparr>)"

definition withRandom :: "(byte list \<Rightarrow> (go_error + 'a) \<times> byte list) \<Rightarrow> ('st, 'a) act" where
  "withRandom f w = (let r = f (wRandom w) in (fst r, w\<lparr>wRandom := snd r\<rparr>))"

definition withStore :: "('st \<Rightarrow> (go_error + 'a) \<times> 'st) \<Rightarrow> ('st, 'a) act" where
  "withStore f w = (let r = f (wStore w) in (fst r, w\<lparr>wStore := snd r\<rparr>))"

text \<open>\<open>ctx.Err()\<close>: the answers the context gives to successive calls.\<close>

definition ctxErr :: "('st, unit) act" where
  "ctxErr w =
     (case wContext w of
        [] \<Rightarrow> (Inr (), w)
      | e # es \<Rightarrow> ((case e of None \<Rightarrow> Inr () | Some err \<Rightarrow> Inl err), w\<lparr>wContext := es\<rparr>))"

definition capStore :: "'st options \<Rightarrow> 'st store_ops" where
  "capStore c = the (oStore c)"

section \<open>Housekeeping\<close>

definition lazyCleanup :: "'st options \<Rightarrow> ('st, unit) act" where
  "lazyCleanup c =
     andThen readNow (\<lambda>now w.
       if wLastCleanup w = zero_time \<or> cleanupInterval \<le> now - wLastCleanup w
       then (Inr (), snd (withStore (StoreCleanup (capStore c) (unixMilli now)) (w\<lparr>wLastCleanup := now\<rparr>)))
       else (Inr (), w))"

definition Cleanup :: "'st options \<Rightarrow> ('st, unit) act" where
  "Cleanup c = andThen readNow (\<lambda>now. withStore (StoreCleanup (capStore c) (unixMilli now)))"

definition Reset :: "'st options \<Rightarrow> ('st, unit) act" where
  "Reset c w = withStore (StoreReset (capStore c)) (w\<lparr>wMinters := Map.empty\<rparr>)"

definition cap_minter :: "(int \<Rightarrow> bool) \<Rightarrow> 'st options \<Rightarrow> ('st, rsw_minter) act" where
  "cap_minter probablyPrime c w =
     (case oRSWKeypair c of
        None \<Rightarrow> (Inl (configErr ''ProtocolRSW requires RSWKeypair''), w)
      | Some k \<Rightarrow>
          (case wMinters w (oRSWIterations c) of
             Some m \<Rightarrow> (Inr m, w)
           | None \<Rightarrow>
               (case NewRSWMinter probablyPrime (Some k) (oRSWIterations c) (Some (wRandom w)) None of
                  (Inl err, rest) \<Rightarrow> (Inl err, w\<lparr>wRandom := (case rest of Some r \<Rightarrow> r | None \<Rightarrow> [])\<rparr>)
                | (Inr m, rest) \<Rightarrow>
                    (Inr m, w\<lparr>wRandom := (case rest of Some r \<Rightarrow> r | None \<Rightarrow> []),
                              wMinters := (wMinters w)(oRSWIterations c \<mapsto> m)\<rparr>))))"

section \<open>Parameters of a challenge\<close>

definition powParams :: "'st options \<Rightarrow> challenge_options \<Rightarrow> go_error + int \<times> int \<times> int" where
  "powParams c co =
     (let count = (if coChallengeCount co \<noteq> 0 then coChallengeCount co else oChallengeCount c);
          sz = (if coChallengeSize co \<noteq> 0 then coChallengeSize co else oChallengeSize c);
          difficulty = (if coChallengeDifficulty co \<noteq> 0 then coChallengeDifficulty co else oChallengeDifficulty c)
      in (case validatePoWParams count sz difficulty of
            Some err \<Rightarrow> Inl err | None \<Rightarrow> Inr (count, sz, difficulty)))"

definition challengeTTL :: "'st options \<Rightarrow> challenge_options \<Rightarrow> int" where
  "challengeTTL c co = (if coChallengeTTL co > 0 then coChallengeTTL co else oChallengeTTL c)"

definition instrumentationOptions :: "'st options \<Rightarrow> challenge_options \<Rightarrow> instr_options option" where
  "instrumentationOptions c co =
     (if coDisableInstrumentation co then None
      else case coInstrumentation co of Some io \<Rightarrow> Some io | None \<Rightarrow> oInstrumentation c)"

definition containsProtocol :: "string list \<Rightarrow> string \<Rightarrow> bool" where
  "containsProtocol ps p \<longleftrightarrow> list_ex (\<lambda>q. q = p) ps"

section \<open>Lemmas: running actions\<close>

named_theorems run

lemma run_simps [run]:
  "ret x w = (Inr x, w)" "throw e w = (Inl e, w)" "pure r w = (r, w)"
  "check None w = (Inr (), w)" "check (Some e) w = (Inl e, w)"
  "readNow w = (Inr (wClock w (wReads w)), w\<lparr>wReads := Suc (wReads w)\<rparr>)"
  by (simp_all add: ret_def throw_def pure_def check_def readNow_def)

lemma andThen_Inr:
  "andThen m f w = (Inr y, w'') \<longleftrightarrow> (\<exists>x w'. m w = (Inr x, w') \<and> f x w' = (Inr y, w''))"
  by (auto simp: andThen_def split: sum.splits prod.splits)

lemma andThen_InrE:
  assumes "andThen m f w = (Inr y, w'')"
  obtains x w' where "m w = (Inr x, w')" "f x w' = (Inr y, w'')"
  using assms by (auto simp: andThen_Inr)

lemma case_prod_run: "(case p of (a, b) \<Rightarrow> f a b) w = (case p of (a, b) \<Rightarrow> f a b w)"
  by (cases p) simp

lemma andThen_runs [run]: "m w = (Inr x, w') \<Longrightarrow> andThen m f w = f x w'"
  by (simp add: andThen_def)

lemma andThen_fails [run]: "m w = (Inl e, w') \<Longrightarrow> andThen m f w = (Inl e, w')"
  by (simp add: andThen_def)

lemma check_Inr: "check e w = (Inr x, w') \<longleftrightarrow> e = None \<and> w' = w"
  by (auto simp: check_def split: option.splits)

lemma mapError_Inr [simp]: "mapError f m w = (Inr x, w') \<longleftrightarrow> m w = (Inr x, w')"
  by (auto simp: mapError_def split: sum.splits prod.splits)

lemma pure_Inr [simp]: "pure r w = (Inr x, w') \<longleftrightarrow> r = Inr x \<and> w' = w"
  by (auto simp: pure_def)

lemma ret_Inr [simp]: "ret y w = (Inr x, w') \<longleftrightarrow> x = y \<and> w' = w"
  by (auto simp: ret_def)

lemma throw_Inr [simp]: "throw e w \<noteq> (Inr x, w')"
  by (simp add: throw_def)

lemma readNow_Inr: "readNow w = (Inr t, w') \<longleftrightarrow> t = wClock w (wReads w) \<and> w' = w\<lparr>wReads := Suc (wReads w)\<rparr>"
  by (auto simp: readNow_def)

lemma withRandom_Inr:
  "withRandom f w = (Inr x, w') \<longleftrightarrow> (\<exists>rest. f (wRandom w) = (Inr x, rest) \<and> w' = w\<lparr>wRandom := rest\<rparr>)"
  by (cases "f (wRandom w)") (auto simp: withRandom_def Let_def)

lemma withStore_Inr:
  "withStore f w = (Inr x, w') \<longleftrightarrow> (\<exists>s'. f (wStore w) = (Inr x, s') \<and> w' = w\<lparr>wStore := s'\<rparr>)"
  by (cases "f (wStore w)") (auto simp: withStore_def Let_def)

lemma lazyCleanup_Inr: "\<exists>w'. lazyCleanup c w = (Inr (), w') \<and> wRandom w' = wRandom w \<and> wClock w' = wClock w
    \<and> wReads w' = Suc (wReads w) \<and> wMinters w' = wMinters w \<and> wContext w' = wContext w
    \<and> (wStore w' = wStore w \<or> wStore w' = snd (StoreCleanup (capStore c) (unixMilli (wClock w (wReads w))) (wStore w)))"
  by (auto simp: lazyCleanup_def andThen_def readNow_def withStore_def Let_def)

lemma validatePoWParams_None:
  "validatePoWParams count sz d = None \<longleftrightarrow>
     1 \<le> count \<and> count \<le> 1000 \<and> 1 \<le> sz \<and> sz \<le> 256 \<and> 1 \<le> d \<and> d \<le> 16"
  by (auto simp: validatePoWParams_def const_defs)

lemma powParams_Inr:
  "powParams c co = Inr (count, sz, d) \<Longrightarrow> validatePoWParams count sz d = None"
  by (auto simp: powParams_def Let_def split: option.splits)

end
