(* ===== verification/Challenge.thy ===== *)
theory Challenge
  imports Cap
begin

text \<open>
  Challenge generation (\<open>cap.go\<close>): the three kinds of challenge, the checks on what an
  instrumentation generator returns, and the dispatch of \<open>Cap.Challenge\<close>. The built-in generator
  and the primality test are arguments.
\<close>

section \<open>Instrumentation\<close>

fun vars_distinct :: "string set \<Rightarrow> string list \<Rightarrow> bool" where
  "vars_distinct seen [] \<longleftrightarrow> True"
| "vars_distinct seen (name # names) \<longleftrightarrow> name \<noteq> [] \<and> name \<notin> seen \<and> vars_distinct (insert name seen) names"

definition accept_instrumentation :: "instr_options \<Rightarrow> int \<Rightarrow> instrumentation option \<Rightarrow> go_error + instrumentation" where
  "accept_instrumentation opts now instr =
     (case instr of
        None \<Rightarrow> Inl (configErr ''instrumentation generator returned invalid output'')
      | Some i \<Rightarrow>
          let m = iMeta i
          in if iBlob i = [] \<or> mID m = [] \<or> mVars m = [] \<or> length (mVars m) \<noteq> length (mExpectedVals m)
               then Inl (configErr ''instrumentation generator returned invalid output'')
             else if \<not> vars_distinct {} (mVars m)
               then Inl (configErr ''instrumentation generator returned invalid variables'')
             else if mBlock m \<noteq> BlockAutomatedBrowsers opts
               then Inl (configErr ''instrumentation generator changed browser blocking policy'')
             else if mExpires m = 0 then Inr (i\<lparr>iMeta := m\<lparr>mExpires := unixMilli (now + optTTL opts)\<rparr>\<rparr>)
             else Inr i)"

definition runInstrumentationGenerator ::
  "generator \<Rightarrow> 'st options \<Rightarrow> challenge_options \<Rightarrow> instr_options \<Rightarrow> int \<Rightarrow> ('st, instrumentation) act" where
  "runInstrumentationGenerator builtin c co opts now =
     andThen ctxErr (\<lambda>_.
     andThen (withRandom (\<lambda>random.
         (case coInstrumentationGenerator co of Some g \<Rightarrow> g
          | None \<Rightarrow> (case oInstrumentationGenerator c of Some g \<Rightarrow> g | None \<Rightarrow> builtin)) random opts now)) (\<lambda>instr.
     andThen ctxErr (\<lambda>_.
     pure (accept_instrumentation opts now instr))))"

definition generateInstrumentation ::
  "generator \<Rightarrow> 'st options \<Rightarrow> challenge_options \<Rightarrow> int \<Rightarrow> int \<Rightarrow> ('st, instrumentation option) act" where
  "generateInstrumentation builtin c co ttl now =
     (case instrumentationOptions c co of
        None \<Rightarrow> ret None
      | Some io \<Rightarrow>
          let opts = (if optTTL io \<le> 0 then io\<lparr>optTTL := ttl\<rparr> else io)
          in andThen (runInstrumentationGenerator builtin c co opts now) (\<lambda>i. ret (Some i)))"

section \<open>Format 1\<close>

definition challengeStored :: "generator \<Rightarrow> 'st options \<Rightarrow> challenge_options \<Rightarrow> ('st, challenge) act" where
  "challengeStored builtin c co =
     andThen (pure (powParams c co)) (\<lambda>(count, sz, difficulty).
     andThen readNow (\<lambda>now.
       let ttl = challengeTTL c co; expires = unixMilli now + milliseconds ttl
       in andThen (withRandom (\<lambda>random. randomHex random challengeTokenBytes)) (\<lambda>token.
          andThen (generateInstrumentation builtin c co ttl now) (\<lambda>instr.
            let rec = \<lparr>cCount = count, cSize = sz, cDifficulty = difficulty, cScope = coScope co, cExpires = expires,
                       cInstr = map_option iMeta instr\<rparr>
            in andThen (mapError (\<lambda>err. EJoin [ErrStore, err]) (withStore (PutChallenge (capStore c) token rec))) (\<lambda>_.
               ret (zero_challenge\<lparr>chFormat := 1, chToken := token, chExpires := expires, chScope := coScope co,
                      chCount := count, chSize := sz, chDifficulty := difficulty,
                      chInstrumentation := (case instr of None \<Rightarrow> [] | Some i \<Rightarrow> iBlob i)\<rparr>))))))"

definition challengeSigned :: "generator \<Rightarrow> 'st options \<Rightarrow> challenge_options \<Rightarrow> ('st, challenge) act" where
  "challengeSigned builtin c co =
     (if oSecret c = [] then throw (configErr ''Secret is required for stateless challenges'')
      else
        andThen (pure (powParams c co)) (\<lambda>(count, sz, difficulty).
        andThen readNow (\<lambda>now.
          let ttl = challengeTTL c co; nowMs = unixMilli now; expires = nowMs + milliseconds ttl
          in andThen (withRandom (\<lambda>random. randomHex random challengeTokenBytes)) (\<lambda>nonce.
             andThen (generateInstrumentation builtin c co ttl now) (\<lambda>instr.
             andThen
               (case instr of
                  None \<Rightarrow> ret []
                | Some i \<Rightarrow>
                    withRandom (encryptGCM (oSecret c) ''cap:enc-v1''
                      (str_bytes (enc_meta ((iMeta i)\<lparr>mExpires := expires\<rparr>))))) (\<lambda>ei.
               let claims = zero_claims\<lparr>tN := nonce, tC := count, tS := sz, tD := difficulty, tExp := expires,
                              tIat := nowMs, tSk := coScope co, tX := coExtra co, tEi := ei\<rparr>
               in ret (zero_challenge\<lparr>chFormat := 1, chToken := jwtSign (str_bytes (enc_claims claims)) (oSecret c),
                      chExpires := expires, chScope := coScope co, chCount := count, chSize := sz,
                      chDifficulty := difficulty,
                      chInstrumentation := (case instr of None \<Rightarrow> [] | Some i \<Rightarrow> iBlob i)\<rparr>)))))))"

section \<open>Format 2\<close>

type_synonym puzzles = "challenge_entry list \<times> expected_entry list"

fun pow_puzzles :: "nat \<Rightarrow> int \<Rightarrow> string \<Rightarrow> puzzles \<Rightarrow> ('st, puzzles) act" where
  "pow_puzzles 0 sz target acc = ret acc"
| "pow_puzzles (Suc n) sz target acc =
     andThen (withRandom (\<lambda>random. randomHex random sz)) (\<lambda>salt.
       pow_puzzles n sz target
         (fst acc @ [\<lparr>eProtocol = ProtocolSHA256PoW, ePayload = PoWPayload salt target\<rparr>],
          snd acc @ [zero_expected\<lparr>xProtocol := ProtocolSHA256PoW, xSalt := salt, xTarget := target\<rparr>]))"

definition rsw_puzzle :: "(int \<Rightarrow> bool) \<Rightarrow> 'st options \<Rightarrow> puzzles \<Rightarrow> ('st, puzzles) act" where
  "rsw_puzzle probablyPrime c acc =
     andThen (cap_minter probablyPrime c) (\<lambda>minter.
     andThen (withRandom (Mint minter)) (\<lambda>minted.
       ret (fst acc @ [\<lparr>eProtocol = ProtocolRSW,
                        ePayload = RSWPayload (paddedHex (mintN minted) (rModulusBytes minter))
                          (paddedHex (mintX minted) (rModulusBytes minter)) (mintIterations minted)\<rparr>],
            snd acc @ [zero_expected\<lparr>xProtocol := ProtocolRSW,
                         xY := paddedHex (mintExpectedY minted) (rModulusBytes minter)\<rparr>])))"

definition instr_puzzle :: "generator \<Rightarrow> 'st options \<Rightarrow> challenge_options \<Rightarrow> int \<Rightarrow> int \<Rightarrow> int \<Rightarrow> puzzles \<Rightarrow> ('st, puzzles) act" where
  "instr_puzzle builtin c co ttl now expires acc =
     (let io = (case instrumentationOptions c co of Some io \<Rightarrow> io
                | None \<Rightarrow> \<lparr>BlockAutomatedBrowsers = False, ObfuscationLevel = 0, optTTL = 0\<rparr>);
          opts = (if optTTL io \<le> 0 then io\<lparr>optTTL := ttl\<rparr> else io)
      in andThen (runInstrumentationGenerator builtin c co opts now) (\<lambda>instr.
         ret (fst acc @ [\<lparr>eProtocol = ProtocolInstrumentation, ePayload = InstrumentationPayload (iBlob instr)\<rparr>],
              snd acc @ [zero_expected\<lparr>xProtocol := ProtocolInstrumentation,
                           xInstrMeta := Some ((iMeta instr)\<lparr>mExpires := expires\<rparr>)\<rparr>])))"

definition add_puzzles ::
  "(int \<Rightarrow> bool) \<Rightarrow> generator \<Rightarrow> 'st options \<Rightarrow> challenge_options \<Rightarrow> int \<Rightarrow> int \<Rightarrow> int \<Rightarrow> string \<Rightarrow> puzzles \<Rightarrow> ('st, puzzles) act" where
  "add_puzzles probablyPrime builtin c co ttl now expires proto acc =
     (if proto = ProtocolSHA256PoW then
        andThen (pure (powParams c co)) (\<lambda>(count, sz, difficulty).
          pow_puzzles (nat count) sz (replicate (nat difficulty) (CHR ''0'')) acc)
      else if proto = ProtocolRSW then rsw_puzzle probablyPrime c acc
      else if proto = ProtocolInstrumentation then instr_puzzle builtin c co ttl now expires acc
      else throw (configErr (''unknown protocol '' @ proto)))"

fun all_puzzles ::
  "(int \<Rightarrow> bool) \<Rightarrow> generator \<Rightarrow> 'st options \<Rightarrow> challenge_options \<Rightarrow> int \<Rightarrow> int \<Rightarrow> int \<Rightarrow> string list \<Rightarrow> puzzles \<Rightarrow> ('st, puzzles) act" where
  "all_puzzles probablyPrime builtin c co ttl now expires [] acc = ret acc"
| "all_puzzles probablyPrime builtin c co ttl now expires (p # ps) acc =
     andThen (add_puzzles probablyPrime builtin c co ttl now expires p acc)
       (all_puzzles probablyPrime builtin c co ttl now expires ps)"

definition effectiveProtocols :: "'st options \<Rightarrow> challenge_options \<Rightarrow> string list" where
  "effectiveProtocols c co =
     (let ps = (if coProtocols co \<noteq> [] then coProtocols co else oProtocols c)
      in if instrumentationOptions c co \<noteq> None \<and> \<not> containsProtocol ps ProtocolInstrumentation
         then ps @ [ProtocolInstrumentation] else ps)"

definition challengeV2 :: "(int \<Rightarrow> bool) \<Rightarrow> generator \<Rightarrow> 'st options \<Rightarrow> challenge_options \<Rightarrow> ('st, challenge) act" where
  "challengeV2 probablyPrime builtin c co =
     (if oSecret c = [] then throw (configErr ''Secret is required for format-2 challenges'')
      else
        andThen readNow (\<lambda>now.
          let ttl = challengeTTL c co; nowMs = unixMilli now; expires = nowMs + milliseconds ttl
          in andThen (all_puzzles probablyPrime builtin c co ttl now expires (effectiveProtocols c co) ([], [])) (\<lambda>(entries, expected).
             if entries = [] then throw (configErr ''no protocols configured'')
             else
               andThen (withRandom (encryptGCM (oSecret c) ''cap:fmt2-v1'' (str_bytes (enc_envelope expected)))) (\<lambda>ev.
               andThen (withRandom (\<lambda>random. randomHex random 16)) (\<lambda>nonce.
                 let claims = zero_claims\<lparr>tF := 2, tN := nonce, tExp := expires, tIat := nowMs, tSk := coScope co,
                                tX := coExtra co, tEv := ev\<rparr>
                 in ret (zero_challenge\<lparr>chFormat := 2, chToken := jwtSign (str_bytes (enc_claims claims)) (oSecret c),
                        chExpires := expires, chScope := coScope co, chChallenges := entries\<rparr>))))))"

definition Challenge :: "(int \<Rightarrow> bool) \<Rightarrow> generator \<Rightarrow> 'st options \<Rightarrow> challenge_options \<Rightarrow> ('st, challenge) act" where
  "Challenge probablyPrime builtin c co =
     andThen (lazyCleanup c) (\<lambda>_.
       let format = (if coFormat co \<noteq> 0 then coFormat co else oFormat c)
       in if format = 1 then
            (let stateless = (case coStateless co of Some b \<Rightarrow> b | None \<Rightarrow> oStateless c)
             in if stateless then challengeSigned builtin c co else challengeStored builtin c co)
          else if format = 2 then challengeV2 probablyPrime builtin c co
          else throw (configErr ''format must be 1 or 2''))"

end
