(* ===== verification/Redeem.thy ===== *)
theory Redeem
  imports Challenge
begin

text \<open>
  Redemption and verification tokens (\<open>cap.go\<close>): the three verification paths, the replay guard
  of signed challenges, the issue of a token and its validation.
\<close>

section \<open>Requests and tokens\<close>

record redeem_request =
  rqToken :: string
  rqSolutions :: string
  rqInstr :: string
  rqInstrBlocked :: bool
  rqInstrTimeout :: bool

record redeem_options =
  roScope :: string
  roSkipNonce :: bool

record issued_token =
  kToken :: string
  kExpires :: int
  kScope :: string
  kIssuedAt :: int

record validate_options =
  voScope :: string
  voKeep :: bool

section \<open>Issuing\<close>

definition issueToken :: "'st options \<Rightarrow> string \<Rightarrow> int \<Rightarrow> int \<Rightarrow> ('st, issued_token) act" where
  "issueToken c scope nowMs iat =
     (let expires = nowMs + milliseconds (oTokenTTL c)
      in case oSignToken c of
           Some signToken \<Rightarrow>
             andThen (withStore (signToken \<lparr>pcScope = scope, pcExpires = expires, pcIssuedAt = iat\<rparr>)) (\<lambda>signed.
             ret \<lparr>kToken = signed, kExpires = expires, kScope = scope, kIssuedAt = iat\<rparr>)
         | None \<Rightarrow>
             andThen (withRandom (\<lambda>random. randomHex random tokenIDBytes)) (\<lambda>ident.
             andThen (withRandom (\<lambda>random. randomHex random tokenVerifierBytes)) (\<lambda>verifier.
             andThen (mapError (\<lambda>err. EJoin [ErrStore, err])
               (withStore (PutToken (capStore c) (ident @ '':'' @ sha256Hex verifier) \<lparr>tScope = scope, tExpires = expires\<rparr>))) (\<lambda>_.
             ret \<lparr>kToken = ident @ '':'' @ verifier, kExpires = expires, kScope = scope, kIssuedAt = iat\<rparr>))))"

section \<open>Redemption\<close>

definition redeemStored :: "'st options \<Rightarrow> redeem_request \<Rightarrow> redeem_options \<Rightarrow> ('st, issued_token) act" where
  "redeemStored c req ro =
     (if int (length (rqToken req)) \<noteq> challengeTokenBytes * 2 then throw (fail ReasonInvalidToken)
      else (case parseFormat1Solutions (rqSolutions req) of
        None \<Rightarrow> throw (fail ReasonInvalidSolutions)
      | Some solutions \<Rightarrow>
          andThen readNow (\<lambda>now.
            let nowMs = unixMilli now
            in andThen (mapError (storeErr ReasonChallengeNotFound)
                 (withStore (TakeChallenge (capStore c) (rqToken req) nowMs))) (\<lambda>found.
               (case found of
                  None \<Rightarrow> throw (fail ReasonChallengeNotFound)
                | Some rec \<Rightarrow>
                    if roScope ro \<noteq> [] \<and> cScope rec \<noteq> roScope ro then throw (fail ReasonScopeMismatch)
                    else
                      andThen (check (verifyFormat1 (rqToken req) (cCount rec) (cSize rec) (cDifficulty rec) solutions)) (\<lambda>_.
                      andThen (check (case cInstr rec of None \<Rightarrow> None
                                | Some m \<Rightarrow> checkInstrumentation (Some m) nowMs (rqInstr req) (rqInstrBlocked req) (rqInstrTimeout req))) (\<lambda>_.
                      issueToken c (cScope rec) nowMs 0)))))))"

text \<open>One expected entry against one submitted text, and the loop over both lists.\<close>

definition verify_entry :: "expected_entry \<Rightarrow> string \<Rightarrow> int \<Rightarrow> go_error option" where
  "verify_entry e raw nowMs =
     (if raw = [] \<or> hd raw \<noteq> CHR ''{'' then Some (fail ReasonInvalidSolution)
      else (case unmarshal dec_solution raw zero_solution of
        None \<Rightarrow> Some (fail ReasonInvalidSolution)
      | Some sol \<Rightarrow>
          if xProtocol e = ProtocolSHA256PoW then
            (case nonceString (sNonce sol) of
               None \<Rightarrow> Some (fail ReasonInvalidSolution)
             | Some nonce \<Rightarrow>
                 if powMatches (xSalt e) nonce (xTarget e) then None else Some (fail ReasonInvalidSolution))
          else if xProtocol e = ProtocolRSW then
            (if verifyRSWHex (xY e) (sY sol) then None else Some (fail ReasonInvalidSolution))
          else if xProtocol e = ProtocolInstrumentation then
            checkInstrumentation (xInstrMeta e) nowMs (sInstr sol) (sBlocked sol) (sTimeout sol)
          else Some (fail ReasonInvalidSolution)))"

fun verify_entries :: "expected_entry list \<Rightarrow> string list \<Rightarrow> int \<Rightarrow> go_error option" where
  "verify_entries (e # es) (raw # raws) nowMs =
     (case verify_entry e raw nowMs of Some err \<Rightarrow> Some err | None \<Rightarrow> verify_entries es raws nowMs)"
| "verify_entries _ _ nowMs = None"

definition verifyV2 :: "'st options \<Rightarrow> token_claims \<Rightarrow> redeem_request \<Rightarrow> int \<Rightarrow> go_error option" where
  "verifyV2 c claims req nowMs =
     (case decryptGCM (oSecret c) ''cap:fmt2-v1'' (tEv claims) of
        None \<Rightarrow> Some (fail ReasonInvalidToken)
      | Some state \<Rightarrow>
          (case unmarshal dec_envelope (bytes_str state) None of
             Some (Some expected) \<Rightarrow>
               (case unmarshal dec_raws (rqSolutions req) [] of
                  None \<Rightarrow> Some (fail ReasonMissingSolutions)
                | Some solutions \<Rightarrow>
                    if length solutions \<noteq> length expected then Some (fail ReasonInvalidSolutions)
                    else verify_entries expected solutions nowMs)
           | _ \<Rightarrow> Some (fail ReasonInvalidToken)))"

text \<open>The format-1 half of \<open>redeemSigned\<close>.\<close>

definition verifySignedV1 :: "'st options \<Rightarrow> token_claims \<Rightarrow> redeem_request \<Rightarrow> int \<Rightarrow> go_error option" where
  "verifySignedV1 c claims req nowMs =
     (if validatePoWParams (tC claims) (tS claims) (tD claims) \<noteq> None then Some (fail ReasonInvalidToken)
      else (case parseFormat1Solutions (rqSolutions req) of
        None \<Rightarrow> Some (fail ReasonInvalidSolutions)
      | Some solutions \<Rightarrow>
          (case verifyFormat1 (rqToken req) (tC claims) (tS claims) (tD claims) solutions of
             Some err \<Rightarrow> Some err
           | None \<Rightarrow>
               if tEi claims = [] then None
               else (case decryptGCM (oSecret c) ''cap:enc-v1'' (tEi claims) of
                  None \<Rightarrow> Some (failInstr ReasonInstrCorrupted)
                | Some metaJSON \<Rightarrow>
                    (case unmarshal dec_meta (bytes_str metaJSON) zero_meta of
                       None \<Rightarrow> Some (failInstr ReasonInstrCorrupted)
                     | Some m \<Rightarrow>
                         checkInstrumentation (Some m) nowMs (rqInstr req) (rqInstrBlocked req) (rqInstrTimeout req))))))"

definition redeemSigned :: "'st options \<Rightarrow> redeem_request \<Rightarrow> redeem_options \<Rightarrow> ('st, issued_token) act" where
  "redeemSigned c req ro =
     (if oSecret c = [] then throw (fail ReasonInvalidToken)
      else (case jwtVerify (rqToken req) (oSecret c) of
        None \<Rightarrow> throw (fail ReasonInvalidToken)
      | Some (payload, sigHex) \<Rightarrow>
          (case unmarshal dec_claims (bytes_str payload) zero_claims of
             None \<Rightarrow> throw (fail ReasonInvalidToken)
           | Some claims \<Rightarrow>
               if roScope ro \<noteq> [] \<and> tSk claims \<noteq> roScope ro then throw (fail ReasonScopeMismatch)
               else
                 andThen readNow (\<lambda>now.
                   let nowMs = unixMilli now
                   in if tExp claims = 0 \<or> tExp claims < nowMs then throw (fail ReasonExpired)
                      else
                        andThen (check (if tF claims = 2 then verifyV2 c claims req nowMs
                                        else verifySignedV1 c claims req nowMs)) (\<lambda>_.
                        andThen
                          (if roSkipNonce ro then ret ()
                           else andThen (mapError (storeErr ReasonNonceStoreError)
                                  (withStore (ClaimNonce (capStore c) (''nonce:'' @ sigHex) (tExp claims) nowMs))) (\<lambda>claimed.
                                if claimed then ret () else throw (fail ReasonAlreadyRedeemed))) (\<lambda>_.
                        issueToken c (tSk claims) nowMs (tIat claims)))))))"

definition Redeem :: "'st options \<Rightarrow> redeem_request \<Rightarrow> redeem_options \<Rightarrow> ('st, issued_token) act" where
  "Redeem c req ro =
     andThen (lazyCleanup c) (\<lambda>_.
       if rqToken req = [] then throw (fail ReasonMissingToken)
       else if rqSolutions req = [] then throw (fail ReasonMissingSolutions)
       else if contains_char (rqToken req) (CHR ''.'') then redeemSigned c req ro
       else redeemStored c req ro)"

section \<open>Validation\<close>

definition TokenKey :: "string \<Rightarrow> string option" where
  "TokenKey token =
     (case cut (CHR '':'') token of
        None \<Rightarrow> None
      | Some (ident, verifier) \<Rightarrow>
          if ident = [] \<or> verifier = [] \<or> contains_char verifier (CHR '':'') then None
          else Some (ident @ '':'' @ sha256Hex verifier))"

definition Validate :: "'st options \<Rightarrow> string \<Rightarrow> validate_options \<Rightarrow> ('st, bool) act" where
  "Validate c token vo =
     andThen (lazyCleanup c) (\<lambda>_.
       if token = [] then ret False
       else (case oVerifyToken c of
               Some verifyToken \<Rightarrow> withStore (verifyToken token (voScope vo))
             | None \<Rightarrow>
                 (case TokenKey token of
                    None \<Rightarrow> ret False
                  | Some key \<Rightarrow>
                      andThen readNow (\<lambda>now.
                      andThen (mapError (\<lambda>err. EJoin [ErrStore, err])
                        (withStore (ConsumeToken (capStore c) key (voScope vo) (unixMilli now) (voKeep vo)))) (\<lambda>found.
                      ret (found \<noteq> None))))))"

section \<open>Lemmas: token keys\<close>

lemma hex_no_punctuation: "set s \<subseteq> hex_digits \<Longrightarrow> CHR '':'' \<notin> set s" "set s \<subseteq> hex_digits \<Longrightarrow> CHR ''.'' \<notin> set s"
  by (auto simp: hex_digits_def)

lemma TokenKey_hex:
  assumes "set ident \<subseteq> hex_digits" "set verifier \<subseteq> hex_digits" "ident \<noteq> []" "verifier \<noteq> []"
  shows "TokenKey (ident @ '':'' @ verifier) = Some (ident @ '':'' @ sha256Hex verifier)"
  using assms hex_no_punctuation by (simp add: TokenKey_def cut_append contains_char_def)

text \<open>The two draws of \<open>issueToken\<close> are hexadecimal and not empty.\<close>

lemma issue_draws:
  assumes "randomHex random tokenIDBytes = (Inr ident, rest)" "randomHex random' tokenVerifierBytes = (Inr verifier, rest')"
  shows "TokenKey (ident @ '':'' @ verifier) = Some (ident @ '':'' @ sha256Hex verifier)"
  using assms [THEN randomHex_Inr] by (intro TokenKey_hex) (auto simp: const_defs)

end
