(* ===== verification/Api.thy ===== *)
theory Api
  imports Redeem
begin

text \<open>
  The service as its clients see it: the calls of a \<open>Cap\<close>, histories of calls, what a method may
  do to the store, and the theorems about whole histories. Each method runs to its end before the
  next begins; \<open>Replicas\<close> interleaves the store accesses of methods that run at the same time.
\<close>

section \<open>Histories\<close>

datatype api_call =
    AChallenge challenge_options
  | ARedeem redeem_request redeem_options
  | AValidate string validate_options
  | ACleanup
  | AReset

datatype api_reply =
    PChallenge challenge
  | PToken issued_token
  | PBool bool
  | PUnit
  | PError go_error

definition answer :: "('a \<Rightarrow> api_reply) \<Rightarrow> (go_error + 'a) \<times> 'st world \<Rightarrow> api_reply \<times> 'st world" where
  "answer f r = ((case fst r of Inl e \<Rightarrow> PError e | Inr x \<Rightarrow> f x), snd r)"

fun api :: "(int \<Rightarrow> bool) \<Rightarrow> generator \<Rightarrow> 'st options \<Rightarrow> api_call \<Rightarrow> 'st world \<Rightarrow> api_reply \<times> 'st world" where
  "api pp g c (AChallenge co) w = answer PChallenge (Challenge pp g c co w)"
| "api pp g c (ARedeem req ro) w = answer PToken (Redeem c req ro w)"
| "api pp g c (AValidate token vo) w = answer PBool (Validate c token vo w)"
| "api pp g c ACleanup w = answer (\<lambda>_. PUnit) (Cleanup c w)"
| "api pp g c AReset w = answer (\<lambda>_. PUnit) (Reset c w)"

fun api_run :: "(int \<Rightarrow> bool) \<Rightarrow> generator \<Rightarrow> 'st options \<Rightarrow> api_call list \<Rightarrow> 'st world
    \<Rightarrow> (api_call \<times> api_reply) list \<times> 'st world" where
  "api_run pp g c [] w = ([], w)"
| "api_run pp g c (a # as) w =
     (let r = api pp g c a w; rest = api_run pp g c as (snd r) in ((a, fst r) # fst rest, snd rest))"

lemma fst_answer: "fst (answer f r) = (case fst r of Inl e \<Rightarrow> PError e | Inr x \<Rightarrow> f x)"
  by (simp add: answer_def)

lemma snd_answer [simp]: "snd (answer f r) = snd r"
  by (simp add: answer_def)

section \<open>What a method may do to the store\<close>

text \<open>
  A relation between the store before and after, for runs in which the clock stays in \<open>T\<close>. It is
  given by what single store operations may do at those times; a method stays within it when its
  store operations do. No method changes what the clock will answer.
\<close>

definition within :: "int set \<Rightarrow> ('st \<Rightarrow> 'st \<Rightarrow> bool) \<Rightarrow> ('st, 'a) act \<Rightarrow> bool" where
  "within T R m \<longleftrightarrow>
     (\<forall>w. (\<forall>i. unixMilli (wClock w i) \<in> T) \<longrightarrow>
          R (wStore w) (wStore (snd (m w))) \<and> wClock (snd (m w)) = wClock w)"

named_theorems acts

locale store_relation =
  fixes R :: "'st \<Rightarrow> 'st \<Rightarrow> bool" and T :: "int set"
  assumes refl: "R s s"
    and trans: "R s s' \<Longrightarrow> R s' s'' \<Longrightarrow> R s s''"
begin

lemma within_pure [acts]:
  "within T R (ret x)" "within T R (throw e)" "within T R (pure r)" "within T R (check q)" "within T R readNow"
  "within T R ctxErr"
  by (auto simp: within_def ret_def throw_def pure_def check_def readNow_def ctxErr_def refl
        split: list.splits)

lemma within_random [acts]: "within T R (withRandom f)"
  by (simp add: within_def withRandom_def Let_def refl)

lemma within_andThen [acts]:
  assumes "within T R m" "\<And>x. within T R (f x)"
  shows "within T R (andThen m f)"
  unfolding within_def
proof (intro allI impI)
  fix w :: "'st world"
  assume t: "\<forall>i. unixMilli (wClock w i) \<in> T"
  then have m: "R (wStore w) (wStore (snd (m w)))" "wClock (snd (m w)) = wClock w"
    using assms(1) by (simp_all add: within_def)
  have "R (wStore (snd (m w))) (wStore (snd (f x (snd (m w)))))" "wClock (snd (f x (snd (m w)))) = wClock w" for x
    using assms(2) [of x] m(2) t by (simp_all add: within_def)
  then show "R (wStore w) (wStore (snd (andThen m f w))) \<and> wClock (snd (andThen m f w)) = wClock w"
    using m trans by (cases "m w") (auto simp: andThen_def split: sum.splits)
qed

lemma within_readNow [acts]:
  assumes "\<And>now. unixMilli now \<in> T \<Longrightarrow> within T R (f now)"
  shows "within T R (andThen readNow f)"
  unfolding within_def
proof (intro allI impI)
  fix w :: "'st world"
  assume t: "\<forall>i. unixMilli (wClock w i) \<in> T"
  let ?w = "w\<lparr>wReads := Suc (wReads w)\<rparr>"
  have "within T R (f (wClock w (wReads w)))" using t by (intro assms) simp
  moreover have "\<forall>i. unixMilli (wClock ?w i) \<in> T" using t by simp
  ultimately have "R (wStore ?w) (wStore (snd (f (wClock w (wReads w)) ?w))) \<and> wClock (snd (f (wClock w (wReads w)) ?w)) = wClock ?w"
    unfolding within_def by blast
  then show "R (wStore w) (wStore (snd (andThen readNow f w))) \<and> wClock (snd (andThen readNow f w)) = wClock w"
    by (simp add: andThen_def readNow_def)
qed

lemma snd_mapError [simp]: "snd (mapError f m w) = snd (m w)"
  by (simp add: mapError_def split: sum.splits prod.splits)

lemma within_mapError [acts]: "within T R m \<Longrightarrow> within T R (mapError f m)"
  by (simp add: within_def)

lemma within_store: "(\<And>s. R s (snd (f s))) \<Longrightarrow> within T R (withStore f)"
  by (simp add: within_def withStore_def Let_def)

lemma within_lazyCleanup:
  assumes "\<And>now s. now \<in> T \<Longrightarrow> R s (snd (StoreCleanup (capStore c) now s))"
  shows "within T R (lazyCleanup c)"
  using assms by (auto simp: within_def lazyCleanup_def andThen_def readNow_def withStore_def Let_def refl)

lemma within_minter [acts]: "within T R (cap_minter pp c)"
  by (auto simp: within_def cap_minter_def refl split: option.splits sum.splits prod.splits)

lemma within_generate [acts]: "within T R (runInstrumentationGenerator g c co opts now)"
  "within T R (generateInstrumentation g c co ttl now)"
  unfolding runInstrumentationGenerator_def generateInstrumentation_def Let_def
  by (auto intro!: acts split: option.splits)

lemma within_pow_puzzles [acts]: "within T R (pow_puzzles n sz target acc)"
  by (induction n arbitrary: acc) (auto intro!: acts)

lemma within_add_puzzles [acts]: "within T R (add_puzzles pp g c co ttl now expires p acc)"
  unfolding add_puzzles_def rsw_puzzle_def instr_puzzle_def Let_def
  by (auto intro!: acts split: prod.splits)

lemma within_all_puzzles [acts]: "within T R (all_puzzles pp g c co ttl now expires ps acc)"
  by (induction ps arbitrary: acc) (auto intro!: acts)

lemma within_signed [acts]: "within T R (challengeSigned g c co)"
  unfolding challengeSigned_def Let_def by (auto intro!: acts split: prod.splits option.splits)

lemma within_V2 [acts]: "within T R (challengeV2 pp g c co)"
  unfolding challengeV2_def Let_def by (auto intro!: acts split: prod.splits)

lemma within_stored:
  assumes "\<And>t r s. R s (snd (PutChallenge (capStore c) t r s))"
  shows "within T R (challengeStored g c co)"
  unfolding challengeStored_def Let_def
  by (auto intro!: acts within_store assms split: prod.splits option.splits)

lemma within_Challenge:
  assumes "\<And>now s. now \<in> T \<Longrightarrow> R s (snd (StoreCleanup (capStore c) now s))"
    and "\<And>t r s. R s (snd (PutChallenge (capStore c) t r s))"
  shows "within T R (Challenge pp g c co)"
  unfolding Challenge_def Let_def
  by (auto intro!: acts within_lazyCleanup within_stored assms split: option.splits)

lemma within_issue:
  assumes "oSignToken c = None" "\<And>k r s. R s (snd (PutToken (capStore c) k r s))"
  shows "within T R (issueToken c scope nowMs iat)"
  unfolding issueToken_def Let_def using assms by (auto intro!: acts within_store)

lemma within_redeem_paths:
  assumes "oSignToken c = None" "\<And>k r s. R s (snd (PutToken (capStore c) k r s))"
    and "\<And>t now s. now \<in> T \<Longrightarrow> R s (snd (TakeChallenge (capStore c) t now s))"
    and "\<And>k e now s. now \<in> T \<Longrightarrow> R s (snd (ClaimNonce (capStore c) k e now s))"
  shows "within T R (redeemStored c req ro)" "within T R (redeemSigned c req ro)"
  unfolding redeemStored_def redeemSigned_def Let_def using assms
  by (auto intro!: acts within_store within_issue split: option.splits prod.splits)

lemma within_Redeem:
  assumes "oSignToken c = None" "\<And>k r s. R s (snd (PutToken (capStore c) k r s))"
    and "\<And>t now s. now \<in> T \<Longrightarrow> R s (snd (TakeChallenge (capStore c) t now s))"
    and "\<And>k e now s. now \<in> T \<Longrightarrow> R s (snd (ClaimNonce (capStore c) k e now s))"
    and "\<And>now s. now \<in> T \<Longrightarrow> R s (snd (StoreCleanup (capStore c) now s))"
  shows "within T R (Redeem c req ro)"
  unfolding Redeem_def using assms by (auto intro!: acts within_lazyCleanup within_redeem_paths)

lemma within_Cleanup: "(\<And>now s. now \<in> T \<Longrightarrow> R s (snd (StoreCleanup (capStore c) now s))) \<Longrightarrow> within T R (Cleanup c)"
  unfolding Cleanup_def by (auto intro!: acts within_store)

lemma within_Reset: "(\<And>s. R s (snd (StoreReset (capStore c) s))) \<Longrightarrow> within T R (Reset c)"
  by (simp add: within_def Reset_def withStore_def Let_def)

lemma within_Validate:
  assumes "oVerifyToken c = None"
    and "\<And>now s. now \<in> T \<Longrightarrow> R s (snd (StoreCleanup (capStore c) now s))"
    and "\<And>k scope now keep s. now \<in> T \<Longrightarrow> R s (snd (ConsumeToken (capStore c) k scope now keep s))"
  shows "within T R (Validate c token vo)"
  unfolding Validate_def using assms
  by (auto intro!: acts within_lazyCleanup within_store split: option.splits)

end

interpretation quiet: store_relation "\<lambda>s s'. s' = (s :: 'st)" UNIV
  by unfold_locales auto

interpretation anything: store_relation "\<lambda>(s :: 'st) s'. True" UNIV
  by unfold_locales auto

lemma api_clock:
  assumes "oSignToken c = None" "oVerifyToken c = None"
  shows "wClock (snd (api pp g c a w)) = wClock w"
proof -
  note m = anything.within_Challenge [where c = c] anything.within_Redeem [where c = c] anything.within_Validate [where c = c]
    anything.within_Cleanup [where c = c] anything.within_Reset [where c = c]
  show ?thesis using assms m by (cases a) (auto simp: within_def)
qed

section \<open>Triples over the store\<close>

text \<open>
  \<open>valid P m Q E\<close>: from a store in \<open>P\<close> the method \<open>m\<close> ends with a value and a store in \<open>Q\<close>, or
  with an error and a store in \<open>E\<close>. Methods always return, so this is total correctness.
\<close>

definition valid :: "('st \<Rightarrow> bool) \<Rightarrow> ('st, 'a) act \<Rightarrow> ('a \<Rightarrow> 'st \<Rightarrow> bool) \<Rightarrow> (go_error \<Rightarrow> 'st \<Rightarrow> bool) \<Rightarrow> bool" where
  "valid P m Q E \<longleftrightarrow>
     (\<forall>w. P (wStore w) \<longrightarrow>
        (\<forall>x. fst (m w) = Inr x \<longrightarrow> Q x (wStore (snd (m w)))) \<and>
        (\<forall>e. fst (m w) = Inl e \<longrightarrow> E e (wStore (snd (m w)))))"

lemma valid_andThen:
  assumes "valid P m M E" "\<And>x. valid (M x) (f x) Q E"
  shows "valid P (andThen m f) Q E"
  unfolding valid_def
proof (intro allI impI)
  fix w :: "'a world"
  assume "P (wStore w)"
  then show "(\<forall>x. fst (andThen m f w) = Inr x \<longrightarrow> Q x (wStore (snd (andThen m f w)))) \<and>
      (\<forall>e. fst (andThen m f w) = Inl e \<longrightarrow> E e (wStore (snd (andThen m f w))))"
    using assms by (cases "m w"; cases "fst (m w)") (fastforce simp: andThen_def valid_def)+
qed

lemma valid_ret: "(\<And>s. P s \<Longrightarrow> Q x s) \<Longrightarrow> valid P (ret x) Q E"
  by (simp add: valid_def ret_def)

lemma valid_throw: "(\<And>s. P s \<Longrightarrow> E e s) \<Longrightarrow> valid P (throw e) Q E"
  by (simp add: valid_def throw_def)

lemma valid_check: "(\<And>s. P s \<Longrightarrow> q = None \<Longrightarrow> Q () s) \<Longrightarrow> (\<And>s e. P s \<Longrightarrow> q = Some e \<Longrightarrow> E e s) \<Longrightarrow> valid P (check q) Q E"
  by (auto simp: valid_def check_def split: option.splits)

lemma valid_pure: "(\<And>s x. P s \<Longrightarrow> r = Inr x \<Longrightarrow> Q x s) \<Longrightarrow> (\<And>s e. P s \<Longrightarrow> r = Inl e \<Longrightarrow> E e s) \<Longrightarrow> valid P (pure r) Q E"
  by (auto simp: valid_def pure_def split: sum.splits)

lemma valid_random:
  "(\<And>s x random rest. P s \<Longrightarrow> f random = (Inr x, rest) \<Longrightarrow> Q x s) \<Longrightarrow> (\<And>s e random rest. P s \<Longrightarrow> f random = (Inl e, rest) \<Longrightarrow> E e s)
     \<Longrightarrow> valid P (withRandom f) Q E"
  by (auto simp: valid_def withRandom_def Let_def split: sum.splits) (metis prod.collapse)+

lemma valid_store:
  assumes "\<And>s x. P s \<Longrightarrow> fst (f s) = Inr x \<Longrightarrow> Q x (snd (f s))" "\<And>s e. P s \<Longrightarrow> fst (f s) = Inl e \<Longrightarrow> E e (snd (f s))"
  shows "valid P (withStore f) Q E"
  using assms by (auto simp: valid_def withStore_def Let_def)

lemma valid_mapError: "valid P m Q (\<lambda>e. E (f e)) \<Longrightarrow> valid P (mapError f m) Q E"
  by (auto simp: valid_def mapError_def split: sum.splits prod.splits)

lemma valid_quiet:
  assumes "within UNIV (\<lambda>s s'. s' = s) m" "\<And>x s. P s \<Longrightarrow> Q x s" "\<And>e s. P s \<Longrightarrow> E e s"
  shows "valid P m Q E"
  using assms by (auto simp: valid_def within_def split: sum.splits)

lemma valid_quiet_andThen:
  assumes "within UNIV (\<lambda>s s'. s' = s) m" "\<And>x. valid P (f x) Q E" "\<And>e s. P s \<Longrightarrow> E e s"
  shows "valid P (andThen m f) Q E"
  by (rule valid_andThen [where M = "\<lambda>_. P", OF valid_quiet]) (use assms in auto)

lemma valid_random_andThen:
  assumes "\<And>x random rest. f random = (Inr x, rest) \<Longrightarrow> valid P (g x) Q E" "\<And>e s. P s \<Longrightarrow> E e s"
  shows "valid P (andThen (withRandom f) g) Q E"
  unfolding valid_def
proof (intro allI impI)
  fix w :: "'b world"
  assume P: "P (wStore w)"
  obtain r rest where r: "f (wRandom w) = (r, rest)" by fastforce
  show "(\<forall>x. fst (andThen (withRandom f) g w) = Inr x \<longrightarrow> Q x (wStore (snd (andThen (withRandom f) g w)))) \<and>
      (\<forall>e. fst (andThen (withRandom f) g w) = Inl e \<longrightarrow> E e (wStore (snd (andThen (withRandom f) g w))))"
  proof (cases r)
    case (Inl e)
    then show ?thesis using r P assms(2) by (simp add: andThen_def withRandom_def)
  next
    case (Inr x)
    then have "valid P (g x) Q E" using assms(1) r by blast
    then show ?thesis using r Inr P by (simp add: andThen_def withRandom_def valid_def)
  qed
qed

lemma valid_prod: "(\<And>a b. valid P (f a b) Q E) \<Longrightarrow> valid P (case x of (a, b) \<Rightarrow> f a b) Q E"
  by (cases x) simp

lemma valid_if: "(b \<Longrightarrow> valid P m Q E) \<Longrightarrow> (\<not> b \<Longrightarrow> valid P m' Q E) \<Longrightarrow> valid P (if b then m else m') Q E"
  by simp

lemma valid_within:
  assumes "within UNIV R m" "\<And>x s s'. P s \<Longrightarrow> R s s' \<Longrightarrow> Q x s'" "\<And>e s s'. P s \<Longrightarrow> R s s' \<Longrightarrow> E e s'"
  shows "valid P m Q E"
  using assms by (fastforce simp: valid_def within_def split: sum.splits)

lemma valid_within_andThen:
  assumes "within UNIV R m" "\<And>s s'. P s \<Longrightarrow> R s s' \<Longrightarrow> P s'" "\<And>x. valid P (f x) Q E" "\<And>e s. P s \<Longrightarrow> E e s"
  shows "valid P (andThen m f) Q E"
  by (rule valid_andThen [where M = "\<lambda>_. P", OF valid_within [OF assms(1)]]) (use assms in auto)

lemma valid_readNow: "(\<And>x s. P s \<Longrightarrow> Q x s) \<Longrightarrow> valid P readNow Q E"
  by (simp add: valid_def readNow_def)

lemma valid_pre: "valid P m Q E \<Longrightarrow> (\<And>s. P' s \<Longrightarrow> P s) \<Longrightarrow> valid P' m Q E"
  by (auto simp: valid_def)

lemma valid_post:
  "valid P m Q E \<Longrightarrow> (\<And>x s. Q x s \<Longrightarrow> Q' x s) \<Longrightarrow> (\<And>e s. E e s \<Longrightarrow> E' e s) \<Longrightarrow> valid P m Q' E'"
  by (force simp: valid_def split: sum.splits)

lemma validD:
  "valid P m Q E \<Longrightarrow> P (wStore w) \<Longrightarrow> fst (m w) = Inr x \<Longrightarrow> Q x (wStore (snd (m w)))"
  "valid P m Q E \<Longrightarrow> P (wStore w) \<Longrightarrow> fst (m w) = Inl e \<Longrightarrow> E e (wStore (snd (m w)))"
  by (auto simp: valid_def split: sum.splits)

section \<open>Single use over histories of the service\<close>

fun created :: "string \<Rightarrow> api_call \<times> api_reply \<Rightarrow> bool" where
  "created t (AChallenge co, PChallenge ch) \<longleftrightarrow> chFormat ch = 1 \<and> chToken ch = t"
| "created t _ \<longleftrightarrow> False"

text \<open>A stored challenge is named by a token without a full stop.\<close>

fun redeemed :: "string \<Rightarrow> api_call \<times> api_reply \<Rightarrow> bool" where
  "redeemed t (ARedeem req ro, PToken k) \<longleftrightarrow> rqToken req = t \<and> \<not> contains_char t (CHR ''.'')"
| "redeemed t _ \<longleftrightarrow> False"

fun issued :: "string \<Rightarrow> api_call \<times> api_reply \<Rightarrow> bool" where
  "issued key (ARedeem req ro, PToken k) \<longleftrightarrow> TokenKey (kToken k) = Some key"
| "issued key _ \<longleftrightarrow> False"

fun validated :: "string \<Rightarrow> api_call \<times> api_reply \<Rightarrow> bool" where
  "validated key (AValidate token vo, PBool ok) \<longleftrightarrow> ok \<and> \<not> voKeep vo \<and> TokenKey token = Some key"
| "validated key _ \<longleftrightarrow> False"

definition own_tokens :: "'st store_ops \<Rightarrow> 'st options \<Rightarrow> bool" where
  "own_tokens S c \<longleftrightarrow> oStore c = Some S \<and> oSignToken c = None \<and> oVerifyToken c = None"

sublocale store_contract \<subseteq> chal_le: store_relation "\<lambda>s s'. chal s' \<subseteq>\<^sub>m chal s" UNIV
  by unfold_locales (auto intro: map_le_trans)

sublocale store_contract \<subseteq> tok_le: store_relation "\<lambda>s s'. tok s' \<subseteq>\<^sub>m tok s" UNIV
  by unfold_locales (auto intro: map_le_trans)

context store_contract
begin

lemma own [simp]:
  assumes "own_tokens S c"
  shows "capStore c = S" "oSignToken c = None" "oVerifyToken c = None"
  using assms by (simp_all add: own_tokens_def capStore_def)

end

context live_store
begin

lemma map_le_same: "m = m' \<Longrightarrow> m \<subseteq>\<^sub>m m'"
  by simp

text \<open>What the methods may do to the challenges and the tokens.\<close>

lemmas chal_ops = cleanup_chal take_chal reset_chal
lemmas tok_ops = cleanup_tok consume_tok reset_tok

lemma chal_methods:
  assumes "own_tokens S c"
  shows "within UNIV (\<lambda>s s'. chal s' \<subseteq>\<^sub>m chal s) (lazyCleanup c)"
    and "within UNIV (\<lambda>s s'. chal s' \<subseteq>\<^sub>m chal s) (issueToken c scope nowMs iat)"
    and "within UNIV (\<lambda>s s'. chal s' \<subseteq>\<^sub>m chal s) (redeemSigned c req ro)"
    and "within UNIV (\<lambda>s s'. chal s' \<subseteq>\<^sub>m chal s) (Redeem c req ro)"
    and "within UNIV (\<lambda>s s'. chal s' \<subseteq>\<^sub>m chal s) (Validate c token vo)"
    and "within UNIV (\<lambda>s s'. chal s' \<subseteq>\<^sub>m chal s) (Cleanup c)"
    and "within UNIV (\<lambda>s s'. chal s' \<subseteq>\<^sub>m chal s) (Reset c)"
  using assms
  by (auto intro!: chal_le.within_lazyCleanup chal_le.within_issue chal_le.within_redeem_paths chal_le.within_Redeem
      chal_le.within_Validate chal_le.within_Cleanup chal_le.within_Reset chal_ops)

lemma tok_methods:
  assumes "own_tokens S c"
  shows "within UNIV (\<lambda>s s'. tok s' \<subseteq>\<^sub>m tok s) (lazyCleanup c)"
    and "within UNIV (\<lambda>s s'. tok s' \<subseteq>\<^sub>m tok s) (Challenge pp g c co)"
    and "within UNIV (\<lambda>s s'. tok s' \<subseteq>\<^sub>m tok s) (Validate c token vo)"
    and "within UNIV (\<lambda>s s'. tok s' \<subseteq>\<^sub>m tok s) (Cleanup c)"
    and "within UNIV (\<lambda>s s'. tok s' \<subseteq>\<^sub>m tok s) (Reset c)"
  using assms
  by (auto intro!: tok_le.within_lazyCleanup tok_le.within_Challenge
      tok_le.within_Validate tok_le.within_Cleanup tok_le.within_Reset tok_ops)

text \<open>A challenge appears in the store only when a call returns it.\<close>

lemma challengeStored_creates:
  assumes "own_tokens S c"
  shows "valid (\<lambda>s. chal s t = None) (challengeStored g c co)
    (\<lambda>ch s. chal s t \<noteq> None \<longrightarrow> chFormat ch = 1 \<and> chToken ch = t) (\<lambda>e s. chal s t = None)"
proof -
  have put: "valid (\<lambda>s. chal s t = None) (mapError h (withStore (PutChallenge (capStore c) u r)))
      (\<lambda>_ s. u \<noteq> t \<longrightarrow> chal s t = None) (\<lambda>e s. chal s t = None)" for h u r
    using assms put_challenge_chal put_challenge_get(1) by (intro valid_mapError valid_store) auto
  then have last: "valid (\<lambda>s. chal s t = None) (andThen (mapError h (withStore (PutChallenge (capStore c) u r))) (\<lambda>_. ret ch))
      (\<lambda>ch s. chal s t \<noteq> None \<longrightarrow> chFormat ch = 1 \<and> chToken ch = t) (\<lambda>e s. chal s t = None)"
    if "chFormat ch = 1" "chToken ch = u" for h u r ch
    using that by (intro valid_andThen [OF put] valid_ret) auto
  show ?thesis unfolding challengeStored_def Let_def
    by (intro valid_prod valid_quiet_andThen [where m = "pure x" for x] valid_quiet_andThen [where m = readNow]
        valid_quiet_andThen [where m = "withRandom f" for f] valid_quiet_andThen [where m = "generateInstrumentation g c co ttl now" for ttl now])
      (auto intro!: acts last simp del: not_None_eq)
qed

lemma Challenge_creates:
  assumes "own_tokens S c"
  shows "valid (\<lambda>s. chal s t = None) (Challenge pp g c co)
    (\<lambda>ch s. chal s t \<noteq> None \<longrightarrow> chFormat ch = 1 \<and> chToken ch = t) (\<lambda>e s. chal s t = None)"
proof -
  have clean: "valid (\<lambda>s. chal s t = None) (lazyCleanup c) (\<lambda>_ s. chal s t = None) (\<lambda>e s. chal s t = None)"
    using assms by (intro valid_within [OF chal_methods(1)]) (auto dest: submap_None)
  show ?thesis unfolding Challenge_def Let_def
    apply (rule valid_andThen [OF clean])
    apply (intro valid_if challengeStored_creates [OF assms])
    by (auto intro!: valid_quiet acts split: option.splits)
qed

text \<open>A stored redemption finds its challenge in the store and leaves it gone.\<close>

lemma redeemStored_needs:
  assumes "own_tokens S c" "rqToken req = t"
  shows "valid (\<lambda>s. chal s t = None) (redeemStored c req ro) (\<lambda>k s. False) (\<lambda>e s. True)"
proof -
  have take: "valid (\<lambda>s. chal s t = None) (mapError h (withStore (TakeChallenge (capStore c) t now)))
      (\<lambda>found s. found = None) (\<lambda>e s. True)" for h now
    using assms take_missing by (intro valid_mapError valid_store) auto
  have rest: "valid (\<lambda>s. found = None) (case found of None \<Rightarrow> throw e | Some r \<Rightarrow> m r) (\<lambda>k s. False) (\<lambda>e s. True)"
    for found :: "challenge_record option" and e m
    by (cases found) (auto simp: valid_def throw_def)
  show ?thesis unfolding redeemStored_def Let_def assms(2)
    by (intro valid_if valid_throw; (simp split: option.split)?)
      (auto intro!: valid_throw valid_quiet_andThen [where m = readNow] valid_andThen [OF take rest] acts)
qed

lemma redeemStored_takes:
  assumes "own_tokens S c" "rqToken req = t"
  shows "valid (\<lambda>s. True) (redeemStored c req ro) (\<lambda>k s. chal s t = None) (\<lambda>e s. True)"
proof -
  have take: "valid (\<lambda>s. True) (mapError h (withStore (TakeChallenge (capStore c) t now)))
      (\<lambda>found s. found \<noteq> None \<longrightarrow> chal s t = None) (\<lambda>e s. True)" for h now
    using assms take_Some by (intro valid_mapError valid_store) auto
  have keep: "valid (\<lambda>s. chal s t = None) m (\<lambda>k s. chal s t = None) (\<lambda>e s. True)"
    if "within UNIV (\<lambda>s s'. chal s' \<subseteq>\<^sub>m chal s) m" for m :: "('a, issued_token) act"
    using that by (rule valid_within) (auto dest: submap_None)
  have rest: "valid (\<lambda>s. found \<noteq> None \<longrightarrow> chal s t = None) (case found of None \<Rightarrow> throw e | Some r \<Rightarrow> m r)
      (\<lambda>k s. chal s t = None) (\<lambda>e s. True)"
    if "\<And>r. within UNIV (\<lambda>s s'. chal s' \<subseteq>\<^sub>m chal s) (m r)" for found :: "challenge_record option" and e
      and m :: "challenge_record \<Rightarrow> ('a, issued_token) act"
    using keep [OF that] by (cases found) (auto simp: valid_throw)
  show ?thesis unfolding redeemStored_def Let_def assms(2)
    using chal_methods(2) [OF assms(1)]
    by (auto intro!: valid_if valid_throw valid_quiet_andThen [where m = readNow] valid_andThen [OF take rest] acts
          simp del: not_None_eq split: option.split)
qed

lemma issueToken_issues:
  assumes "own_tokens S c"
  shows "valid (\<lambda>s. tok s key = None) (issueToken c scope nowMs iat)
    (\<lambda>k s. tok s key \<noteq> None \<longrightarrow> TokenKey (kToken k) = Some key) (\<lambda>e s. tok s key = None)"
proof -
  have put: "valid (\<lambda>s. tok s key = None) (mapError h (withStore (PutToken S u r)))
      (\<lambda>_ s. u \<noteq> key \<longrightarrow> tok s key = None) (\<lambda>e s. tok s key = None)" for h u r
    using put_token_tok put_token_get(1) by (intro valid_mapError valid_store) auto
  have last: "valid (\<lambda>s. tok s key = None) (andThen (mapError h (withStore (PutToken S u r))) (\<lambda>_. ret k))
      (\<lambda>k s. tok s key \<noteq> None \<longrightarrow> TokenKey (kToken k) = Some key) (\<lambda>e s. tok s key = None)"
    if "TokenKey (kToken k) = Some u" for h u r k
    using that by (intro valid_andThen [OF put] valid_ret) auto
  show ?thesis unfolding issueToken_def Let_def
    using assms by (auto intro!: valid_random_andThen last dest: issue_draws simp del: not_None_eq)
qed

lemma tok_le_None: "tok s key = None \<Longrightarrow> tok s' \<subseteq>\<^sub>m tok s \<Longrightarrow> tok s' key = None"
  by (auto dest: submap_None)

lemma chal_le_None: "chal s t = None \<Longrightarrow> chal s' \<subseteq>\<^sub>m chal s \<Longrightarrow> chal s' t = None"
  by (auto dest: submap_None)

lemma tok_le_store:
  assumes "own_tokens S c"
  shows "within UNIV (\<lambda>s s'. tok s' \<subseteq>\<^sub>m tok s) (withStore (TakeChallenge (capStore c) t now))"
    and "within UNIV (\<lambda>s s'. tok s' \<subseteq>\<^sub>m tok s) (withStore (ClaimNonce (capStore c) k e now))"
  using assms by (auto intro!: tok_le.within_store map_le_same)

lemma Redeem_issues:
  assumes "own_tokens S c"
  shows "valid (\<lambda>s. tok s key = None) (Redeem c req ro)
    (\<lambda>k s. tok s key \<noteq> None \<longrightarrow> TokenKey (kToken k) = Some key) (\<lambda>e s. tok s key = None)"
proof -
  note le = valid_within_andThen [where R = "\<lambda>s s'. tok s' \<subseteq>\<^sub>m tok s" and P = "\<lambda>s. tok s key = None", OF _ tok_le_None] and issue = issueToken_issues [OF assms]
  have stored: "valid (\<lambda>s. tok s key = None) (redeemStored c req ro)
    (\<lambda>k s. tok s key \<noteq> None \<longrightarrow> TokenKey (kToken k) = Some key) (\<lambda>e s. tok s key = None)"
    unfolding redeemStored_def Let_def
    using tok_le_store [OF assms]
    by (auto intro!: le issue valid_throw acts simp del: not_None_eq split: option.split)
  have signed: "valid (\<lambda>s. tok s key = None) (redeemSigned c req ro)
    (\<lambda>k s. tok s key \<noteq> None \<longrightarrow> TokenKey (kToken k) = Some key) (\<lambda>e s. tok s key = None)"
    unfolding redeemSigned_def Let_def
    using tok_le_store [OF assms]
    by (auto intro!: le issue valid_throw acts simp del: not_None_eq split: option.split prod.split)
  show ?thesis unfolding Redeem_def
    by (auto intro!: le tok_methods [OF assms] signed stored valid_throw simp del: not_None_eq)
qed

lemma Validate_needs:
  assumes "own_tokens S c" "TokenKey token = Some key"
  shows "valid (\<lambda>s. tok s key = None) (Validate c token vo) (\<lambda>ok s. \<not> ok) (\<lambda>e s. True)"
proof -
  have "valid (\<lambda>s. tok s key = None) (mapError h (withStore (ConsumeToken (capStore c) key scope now keep)))
      (\<lambda>found s. found = None) (\<lambda>e s. True)" for h scope now keep
    using assms consume_missing by (intro valid_mapError valid_store) auto
  then show ?thesis unfolding Validate_def
    using assms tok_methods(1) [OF assms(1)]
    by (auto intro!: valid_within_andThen [where R = "\<lambda>s s'. tok s' \<subseteq>\<^sub>m tok s", OF tok_methods(1) [OF assms(1)] tok_le_None] valid_ret valid_quiet_andThen [where m = readNow]
        valid_andThen [where M = "\<lambda>found s. found = None"] acts)
qed

lemma Validate_spends:
  assumes "own_tokens S c" "TokenKey token = Some key" "\<not> voKeep vo"
  shows "valid (\<lambda>s. True) (Validate c token vo) (\<lambda>ok s. ok \<longrightarrow> tok s key = None) (\<lambda>e s. True)"
proof -
  have "valid (\<lambda>s. True) (mapError h (withStore (ConsumeToken (capStore c) key scope now False)))
      (\<lambda>found s. found \<noteq> None \<longrightarrow> tok s key = None) (\<lambda>e s. True)" for h scope now
    using assms consume_Some by (intro valid_mapError valid_store) auto
  then show ?thesis unfolding Validate_def
    using assms tok_methods(1) [OF assms(1)]
    by (auto intro!: valid_within_andThen [where P = "\<lambda>s. True", OF tok_methods(1) [OF assms(1)]] valid_ret valid_quiet_andThen [where m = readNow]
        valid_andThen [where M = "\<lambda>found s. found \<noteq> None \<longrightarrow> tok s key = None"] acts simp del: not_None_eq)
qed

text \<open>One call of the service, and the balance of a history.\<close>

lemma created_step:
  assumes "own_tokens S c" "chal (wStore w) t = None" "chal (wStore (snd (api pp g c a w))) t \<noteq> None"
  shows "created t (a, fst (api pp g c a w))"
proof (cases a)
  case (AChallenge co)
  then show ?thesis
    using validD [OF Challenge_creates [OF assms(1), where t = t and pp = pp and g = g and co = co], of w] assms
    by (cases "fst (Challenge pp g c co w)") (auto simp: fst_answer)
next
  case (ARedeem req ro)
  then show ?thesis using chal_methods(4) [OF assms(1), of req ro] assms by (auto simp: within_def dest: chal_le_None)
next
  case (AValidate token vo)
  then show ?thesis using chal_methods(5) [OF assms(1), of token vo] assms by (auto simp: within_def dest: chal_le_None)
next
  case ACleanup
  then show ?thesis using chal_methods(6) [OF assms(1)] assms by (auto simp: within_def dest: chal_le_None)
next
  case AReset
  then show ?thesis using chal_methods(7) [OF assms(1)] assms by (auto simp: within_def dest: chal_le_None)
qed

lemma redeemed_step:
  assumes "own_tokens S c" "redeemed t (a, fst (api pp g c a w))"
  shows "chal (wStore w) t \<noteq> None \<and> chal (wStore (snd (api pp g c a w))) t = None"
proof -
  obtain req ro k where a: "a = ARedeem req ro" and r: "fst (Redeem c req ro w) = Inr k" and t: "rqToken req = t" "\<not> contains_char t (CHR ''.'')"
    using assms(2) by (cases "(t, a, fst (api pp g c a w))" rule: redeemed.cases) (auto simp: fst_answer split: sum.splits)
  note clean = valid_within_andThen [where R = "\<lambda>s s'. chal s' \<subseteq>\<^sub>m chal s", OF chal_methods(1) [OF assms(1)]]
  have needs: "valid (\<lambda>s. chal s t = None) (Redeem c req ro) (\<lambda>k s. False) (\<lambda>e s. True)"
    unfolding Redeem_def using t redeemStored_needs [OF assms(1) t(1)]
    by (auto intro!: clean valid_throw dest: chal_le_None)
  have takes: "valid (\<lambda>s. True) (Redeem c req ro) (\<lambda>k s. chal s t = None) (\<lambda>e s. True)"
    unfolding Redeem_def using t redeemStored_takes [OF assms(1) t(1)]
    by (auto intro!: clean valid_throw)
  show ?thesis using validD(1) [OF needs _ r] validD(1) [OF takes _ r] a by auto
qed

lemma redeems_bounded:
  assumes "own_tokens S c"
  shows "count_if (redeemed t) (fst (api_run pp g c as w)) + (if chal (wStore (snd (api_run pp g c as w))) t = None then 0 else 1)
     \<le> count_if (created t) (fst (api_run pp g c as w)) + (if chal (wStore w) t = None then 0 else 1)"
proof (induction as arbitrary: w)
  case (Cons a as)
  have "(if redeemed t (a, fst (api pp g c a w)) then 1 else 0) + (if chal (wStore (snd (api pp g c a w))) t = None then 0 else 1)
      \<le> (if created t (a, fst (api pp g c a w)) then 1 else 0) + (if chal (wStore w) t = None then 0 else (1::nat))"
    using redeemed_step [OF assms, of t a pp g w] created_step [OF assms, of w t pp g a] by auto
  then show ?case using Cons.IH [of "snd (api pp g c a w)"] by (simp add: Let_def)
qed simp

lemma issued_step:
  assumes "own_tokens S c" "tok (wStore w) key = None" "tok (wStore (snd (api pp g c a w))) key \<noteq> None"
  shows "issued key (a, fst (api pp g c a w))"
proof (cases a)
  case (ARedeem req ro)
  then show ?thesis
    using validD [OF Redeem_issues [OF assms(1), where key = key and req = req and ro = ro], of w] assms
    by (cases "fst (Redeem c req ro w)") (auto simp: fst_answer)
next
  case (AChallenge co)
  then show ?thesis using tok_methods(2) [OF assms(1), of pp g co] assms by (auto simp: within_def dest: tok_le_None)
next
  case (AValidate token vo)
  then show ?thesis using tok_methods(3) [OF assms(1), of token vo] assms by (auto simp: within_def dest: tok_le_None)
next
  case ACleanup
  then show ?thesis using tok_methods(4) [OF assms(1)] assms by (auto simp: within_def dest: tok_le_None)
next
  case AReset
  then show ?thesis using tok_methods(5) [OF assms(1)] assms by (auto simp: within_def dest: tok_le_None)
qed

lemma validated_step:
  assumes "own_tokens S c" "validated key (a, fst (api pp g c a w))"
  shows "tok (wStore w) key \<noteq> None \<and> tok (wStore (snd (api pp g c a w))) key = None"
proof -
  obtain token vo where a: "a = AValidate token vo" and r: "fst (Validate c token vo w) = Inr True"
      and t: "\<not> voKeep vo" "TokenKey token = Some key"
    using assms(2) by (cases "(key, a, fst (api pp g c a w))" rule: validated.cases) (auto simp: fst_answer split: sum.splits)
  show ?thesis using validD(1) [OF Validate_needs [OF assms(1) t(2)] _ r] validD(1) [OF Validate_spends [OF assms(1) t(2,1)] _ r] a by auto
qed

lemma validations_bounded:
  assumes "own_tokens S c"
  shows "count_if (validated key) (fst (api_run pp g c as w)) + (if tok (wStore (snd (api_run pp g c as w))) key = None then 0 else 1)
     \<le> count_if (issued key) (fst (api_run pp g c as w)) + (if tok (wStore w) key = None then 0 else 1)"
proof (induction as arbitrary: w)
  case (Cons a as)
  have "(if validated key (a, fst (api pp g c a w)) then 1 else 0) + (if tok (wStore (snd (api pp g c a w))) key = None then 0 else 1)
      \<le> (if issued key (a, fst (api pp g c a w)) then 1 else 0) + (if tok (wStore w) key = None then 0 else (1::nat))"
    using validated_step [OF assms, of key a pp g w] issued_step [OF assms, of w key pp g a] by auto
  then show ?case using Cons.IH [of "snd (api pp g c a w)"] by (simp add: Let_def)
qed simp

end

section \<open>Properties\<close>

text \<open>
  Property C1. One stored challenge buys one verification token: in every history of calls on a
  \<open>Cap\<close> with an in-memory store, whatever the requests, a stored challenge is redeemed at most as
  often as it was created (once more if it was in the store at the start).
\<close>

theorem stored_challenge_redeemed_once:
  assumes "own_tokens mem_ops c"
  shows "count_if (redeemed t) (fst (api_run pp g c as w))
     \<le> count_if (created t) (fst (api_run pp g c as w)) + (if challenges (wStore w) t = None then 0 else 1)"
  using mem.redeems_bounded [OF assms, of t pp g as w] by simp

theorem stored_challenge_redeemed_once_witness:
  "count_if (redeemed ''ab'') (fst (api_run (\<lambda>_. True) (\<lambda>r io now. (Inr None, r)) (zero_options\<lparr>oStore := Some mem_ops\<rparr>)
      [AChallenge zero_challenge_options, ARedeem \<lparr>rqToken = ''ab'', rqSolutions = ''[]'', rqInstr = [], rqInstrBlocked = False, rqInstrTimeout = False\<rparr>
        \<lparr>roScope = [], roSkipNonce = False\<rparr>] (fresh_world NewMemoryStore (replicate 25 7) 1000)))
     \<le> count_if (created ''ab'') (fst (api_run (\<lambda>_. True) (\<lambda>r io now. (Inr None, r)) (zero_options\<lparr>oStore := Some mem_ops\<rparr>)
      [AChallenge zero_challenge_options, ARedeem \<lparr>rqToken = ''ab'', rqSolutions = ''[]'', rqInstr = [], rqInstrBlocked = False, rqInstrTimeout = False\<rparr>
        \<lparr>roScope = [], roSkipNonce = False\<rparr>] (fresh_world NewMemoryStore (replicate 25 7) 1000)))"
  using stored_challenge_redeemed_once [of "zero_options\<lparr>oStore := Some mem_ops\<rparr>" "''ab''" "\<lambda>_. True" "\<lambda>r io now. (Inr None, r)"
      "[AChallenge zero_challenge_options, ARedeem \<lparr>rqToken = ''ab'', rqSolutions = ''[]'', rqInstr = [], rqInstrBlocked = False, rqInstrTimeout = False\<rparr>
        \<lparr>roScope = [], roSkipNonce = False\<rparr>]" "fresh_world NewMemoryStore (replicate 25 7) 1000"]
  by (simp add: own_tokens_def zero_options_def fresh_world_def NewMemoryStore_def del: api_run.simps)

text \<open>
  Property C5. A verification token is good for one check: in every history, \<open>Validate\<close> without
  \<open>Keep\<close> answers true for the tokens of one key at most as often as \<open>Redeem\<close> issued a token with
  that key (once more if the key was in the store at the start). A forged token never validates.
\<close>

theorem token_validated_once:
  assumes "own_tokens mem_ops c"
  shows "count_if (validated key) (fst (api_run pp g c as w))
     \<le> count_if (issued key) (fst (api_run pp g c as w)) + (if tokens (wStore w) key = None then 0 else 1)"
  using mem.validations_bounded [OF assms, of key pp g as w] by simp

theorem token_validated_once_witness:
  "count_if (validated ''ab:cd'') (fst (api_run (\<lambda>_. True) (\<lambda>r io now. (Inr None, r)) (zero_options\<lparr>oStore := Some mem_ops\<rparr>)
      [AValidate ''ab:cd'' \<lparr>voScope = [], voKeep = False\<rparr>, AValidate ''ab:cd'' \<lparr>voScope = [], voKeep = False\<rparr>]
      (fresh_world \<lparr>challenges = Map.empty, nonces = Map.empty, tokens = [''ab:cd'' \<mapsto> \<lparr>tScope = [], tExpires = 5000\<rparr>]\<rparr> [] 1000)))
    \<le> count_if (issued ''ab:cd'') (fst (api_run (\<lambda>_. True) (\<lambda>r io now. (Inr None, r)) (zero_options\<lparr>oStore := Some mem_ops\<rparr>)
      [AValidate ''ab:cd'' \<lparr>voScope = [], voKeep = False\<rparr>, AValidate ''ab:cd'' \<lparr>voScope = [], voKeep = False\<rparr>]
      (fresh_world \<lparr>challenges = Map.empty, nonces = Map.empty, tokens = [''ab:cd'' \<mapsto> \<lparr>tScope = [], tExpires = 5000\<rparr>]\<rparr> [] 1000))) + 1"
  using token_validated_once [of "zero_options\<lparr>oStore := Some mem_ops\<rparr>" "''ab:cd''" "\<lambda>_. True" "\<lambda>r io now. (Inr None, r)"
      "[AValidate ''ab:cd'' \<lparr>voScope = [], voKeep = False\<rparr>, AValidate ''ab:cd'' \<lparr>voScope = [], voKeep = False\<rparr>]"
      "fresh_world \<lparr>challenges = Map.empty, nonces = Map.empty, tokens = [''ab:cd'' \<mapsto> \<lparr>tScope = [], tExpires = 5000\<rparr>]\<rparr> [] 1000"]
  by (simp add: own_tokens_def zero_options_def fresh_world_def del: api_run.simps)

end
