(* ===== verification/Config.thy ===== *)
theory Config
  imports Challenge
begin

text \<open>
  What a configuration guarantees: \<open>New\<close> accepts exactly the options that are consistent after the
  defaults are filled in, and every challenge that an instance makes has the shape and the bounds
  that its options promise.
\<close>

section \<open>Accepted configurations\<close>

definition with_defaults :: "'st store_ops \<Rightarrow> 'st options \<Rightarrow> 'st options" where
  "with_defaults memoryStore opts =
     default_protocols (default_iterations (default_ttls (default_pow (default_basics memoryStore opts))))"

definition config_ok :: "(int \<Rightarrow> bool) \<Rightarrow> 'st options \<Rightarrow> bool" where
  "config_ok probablyPrime c \<longleftrightarrow>
     (oSecret c = [] \<or> 16 \<le> length (oSecret c)) \<and> oStore c \<noteq> None \<and> (oFormat c = 1 \<or> oFormat c = 2)
     \<and> validatePoWParams (oChallengeCount c) (oChallengeSize c) (oChallengeDifficulty c) = None
     \<and> 0 < oChallengeTTL c \<and> 0 < oTokenTTL c \<and> 1 \<le> oRSWIterations c
     \<and> (oRSWKeypair c = None \<or> keypair_Validate probablyPrime (oRSWKeypair c) = Inr ())
     \<and> oProtocols c \<noteq> [] \<and> list_all known_protocol (oProtocols c)
     \<and> (oSignToken c = None \<longleftrightarrow> oVerifyToken c = None)
     \<and> (oStateless c \<or> oFormat c = 2 \<longrightarrow> oSecret c \<noteq> [])"

lemma or_default_idem: "v \<noteq> 0 \<Longrightarrow> or_default v d = v"
  by (simp add: or_default_def)

lemma config_ok_fixed:
  assumes "config_ok pp c"
  shows "with_defaults ms c = c"
  using assms by (cases c) (auto simp: config_ok_def with_defaults_def default_defs or_default_def validatePoWParams_None)

lemma find_None: "find (\<lambda>p. \<not> known_protocol p) ps = None \<longleftrightarrow> list_all known_protocol ps"
  by (auto simp: find_None_iff list_all_iff)

lemma unit_sum: "(r :: go_error + unit) = Inr () \<longleftrightarrow> (\<exists>u. r = Inr u)"
  by (cases r) auto

lemma guards:
  "(if b then Inl e else r) = Inr c \<longleftrightarrow> \<not> b \<and> r = Inr c"
  "(case q of None \<Rightarrow> r | Some err \<Rightarrow> Inl (f err)) = Inr c \<longleftrightarrow> q = None \<and> r = Inr c"
  "(case v of Inl err \<Rightarrow> Inl (h err) | Inr u \<Rightarrow> r) = Inr c \<longleftrightarrow> (\<exists>u. v = Inr u) \<and> r = Inr c"
  by (auto split: option.splits sum.splits)

lemma check_keypair_Inr:
  "(\<exists>u. check_keypair pp c = Inr u) \<longleftrightarrow> oRSWKeypair c = None \<or> keypair_Validate pp (oRSWKeypair c) = Inr ()"
  by (cases "oRSWKeypair c") (auto simp: check_keypair_def)

text \<open>The fields that a stage sets are those of the final options.\<close>

lemma stages:
  "oFormat (default_basics ms opts) = oFormat (with_defaults ms opts)"
  "oChallengeCount (default_pow (default_basics ms opts)) = oChallengeCount (with_defaults ms opts)"
  "oChallengeSize (default_pow (default_basics ms opts)) = oChallengeSize (with_defaults ms opts)"
  "oChallengeDifficulty (default_pow (default_basics ms opts)) = oChallengeDifficulty (with_defaults ms opts)"
  "oChallengeTTL (default_ttls (default_pow (default_basics ms opts))) = oChallengeTTL (with_defaults ms opts)"
  "oTokenTTL (default_ttls (default_pow (default_basics ms opts))) = oTokenTTL (with_defaults ms opts)"
  "oRSWIterations (default_iterations (default_ttls (default_pow (default_basics ms opts)))) = oRSWIterations (with_defaults ms opts)"
  "oRSWKeypair (default_iterations (default_ttls (default_pow (default_basics ms opts)))) = oRSWKeypair (with_defaults ms opts)"
  "default_protocols (default_iterations (default_ttls (default_pow (default_basics ms opts)))) = with_defaults ms opts"
  by (simp_all add: with_defaults_def default_defs)

lemma mem_put_ok [simp]: "fst (mem_PutChallenge t r s) = Inr ()"
  by (simp add: mem_PutChallenge_def)

lemma with_defaults_facts:
  "oSecret (with_defaults ms opts) = oSecret opts" "oStore (with_defaults ms opts) \<noteq> None"
  "oProtocols (with_defaults ms opts) \<noteq> []"
  "\<not> oChallengeTTL (with_defaults ms opts) < 0 \<longleftrightarrow> 0 < oChallengeTTL (with_defaults ms opts)"
  "\<not> oTokenTTL (with_defaults ms opts) < 0 \<longleftrightarrow> 0 < oTokenTTL (with_defaults ms opts)"
  by (auto simp: with_defaults_def default_defs or_default_def const_defs)

lemma New_accepts_iff:
  "New pp ms opts = Inr c \<longleftrightarrow> config_ok pp (with_defaults ms opts) \<and> c = with_defaults ms opts"
proof -
  have secret: "\<not> (0 < length xs \<and> length xs < 16) \<longleftrightarrow> xs = [] \<or> 16 \<le> length xs" for xs :: "byte list"
    by auto
  show ?thesis
    unfolding New_def Let_def guards find_None check_keypair_Inr stages config_ok_def secret with_defaults_facts
      de_Morgan_disj not_less [of _ "1 :: int"]
    using with_defaults_facts [of ms opts] by auto
qed

lemma guards_Inl:
  "(b \<Longrightarrow> P e) \<Longrightarrow> (\<not> b \<Longrightarrow> \<forall>x. r = Inl x \<longrightarrow> P x) \<Longrightarrow> \<forall>x. (if b then Inl e else r) = Inl x \<longrightarrow> P x"
  "(\<And>err. q = Some err \<Longrightarrow> P (f err)) \<Longrightarrow> \<forall>x. r = Inl x \<longrightarrow> P x \<Longrightarrow> \<forall>x. (case q of None \<Rightarrow> r | Some err \<Rightarrow> Inl (f err)) = Inl x \<longrightarrow> P x"
  "(\<And>err. v = Inl err \<Longrightarrow> P (h err)) \<Longrightarrow> \<forall>x. r = Inl x \<longrightarrow> P x \<Longrightarrow> \<forall>x. (case v of Inl err \<Rightarrow> Inl (h err) | Inr u \<Rightarrow> r) = Inl x \<longrightarrow> P x"
  "\<forall>x. (Inr y :: 'a + 'b) = Inl x \<longrightarrow> P x"
  by (auto split: option.splits sum.splits)

lemma validatePoWParams_Some: "validatePoWParams a b d = Some e \<Longrightarrow> errors_Is e ErrConfig"
  by (auto simp: validatePoWParams_def configErr_Is split: if_splits)

lemma New_error: "\<forall>e. New pp ms opts = Inl e \<longrightarrow> errors_Is e ErrConfig"
  unfolding New_def Let_def by (intro guards_Inl configErr_Is validatePoWParams_Some)

section \<open>The shape of a challenge\<close>

text \<open>What \<open>challengeStored\<close>, \<open>challengeSigned\<close> and \<open>challengeV2\<close> return.\<close>

lemma challengeStored_shape:
  assumes "challengeStored g c co w = (Inr ch, w')"
  obtains count sz d where "powParams c co = Inr (count, sz, d)" "chFormat ch = 1" "chCount ch = count" "chSize ch = sz"
    "chDifficulty ch = d" "chScope ch = coScope co" "length (chToken ch) = 50" "set (chToken ch) \<subseteq> hex_digits"
    "chExpires ch = unixMilli (wClock w (wReads w)) + milliseconds (challengeTTL c co)" "chChallenges ch = []"
  using assms unfolding challengeStored_def Let_def
  by (auto elim!: andThen_InrE simp: case_prod_run readNow_Inr withRandom_Inr zero_challenge_def const_defs
      dest!: randomHex_Inr split: prod.splits)

lemma challengeSigned_shape:
  assumes "challengeSigned g c co w = (Inr ch, w')"
  obtains count sz d where "powParams c co = Inr (count, sz, d)" "chFormat ch = 1" "chCount ch = count" "chSize ch = sz"
    "chDifficulty ch = d" "chScope ch = coScope co" "oSecret c \<noteq> []"
    "chExpires ch = unixMilli (wClock w (wReads w)) + milliseconds (challengeTTL c co)" "chChallenges ch = []"
  using assms unfolding challengeSigned_def Let_def
  by (auto elim!: andThen_InrE simp: case_prod_run readNow_Inr withRandom_Inr zero_challenge_def split: prod.splits if_splits)

definition entry_shape :: "challenge_entry \<Rightarrow> bool" where
  "entry_shape e \<longleftrightarrow>
     (case ePayload e of
        PoWPayload salt target \<Rightarrow> eProtocol e = ProtocolSHA256PoW \<and> set salt \<subseteq> hex_digits \<and> 2 \<le> length salt \<and> length salt \<le> 512
          \<and> set target \<subseteq> {CHR ''0''} \<and> 1 \<le> length target \<and> length target \<le> 16
      | RSWPayload n x t \<Rightarrow> eProtocol e = ProtocolRSW
      | InstrumentationPayload blob \<Rightarrow> eProtocol e = ProtocolInstrumentation
      | RawPayload raw \<Rightarrow> False)"

lemma pow_puzzles_shape:
  assumes "pow_puzzles n sz target acc w = (Inr acc', w')" "list_all entry_shape (fst acc)" "1 \<le> sz" "sz \<le> 256"
    "set target \<subseteq> {CHR ''0''}" "1 \<le> length target" "length target \<le> 16"
  shows "list_all entry_shape (fst acc')"
  using assms
proof (induction n arbitrary: acc w)
  case (Suc n)
  from Suc.prems(1) obtain salt w1 where s: "withRandom (\<lambda>random. randomHex random sz) w = (Inr salt, w1)"
    "pow_puzzles n sz target
         (fst acc @ [\<lparr>eProtocol = ProtocolSHA256PoW, ePayload = PoWPayload salt target\<rparr>],
          snd acc @ [zero_expected\<lparr>xProtocol := ProtocolSHA256PoW, xSalt := salt, xTarget := target\<rparr>]) w1 = (Inr acc', w')"
    by (auto elim!: andThen_InrE)
  from s(1) have "set salt \<subseteq> hex_digits" "length salt = 2 * nat sz" by (auto simp: withRandom_Inr dest!: randomHex_Inr)
  then have "entry_shape \<lparr>eProtocol = ProtocolSHA256PoW, ePayload = PoWPayload salt target\<rparr>"
    using Suc.prems(3-7) by (auto simp: entry_shape_def Suc_le_eq nat_le_iff)
  then show ?case using Suc.IH [OF s(2)] Suc.prems by simp
qed simp

lemma add_puzzles_shape:
  assumes "add_puzzles pp g c co ttl now expires p acc w = (Inr acc', w')" "list_all entry_shape (fst acc)"
  shows "list_all entry_shape (fst acc')"
proof (cases "p = ProtocolSHA256PoW")
  case True
  with assms(1) obtain count sz d where q: "powParams c co = Inr (count, sz, d)"
    "pow_puzzles (nat count) sz (replicate (nat d) (CHR ''0'')) acc w = (Inr acc', w')"
    by (auto simp: add_puzzles_def elim!: andThen_InrE split: prod.splits)
  then show ?thesis
    using powParams_Inr [OF q(1)] assms(2) by (intro pow_puzzles_shape [OF q(2)]) (auto simp: validatePoWParams_None)
next
  case False
  with assms show ?thesis
    by (auto simp: add_puzzles_def rsw_puzzle_def instr_puzzle_def Let_def entry_shape_def elim!: andThen_InrE split: if_splits)
qed

lemma all_puzzles_shape:
  assumes "all_puzzles pp g c co ttl now expires ps acc w = (Inr acc', w')" "list_all entry_shape (fst acc)"
  shows "list_all entry_shape (fst acc')"
  using assms
proof (induction ps arbitrary: acc w)
  case (Cons p ps)
  from Cons.prems(1) obtain acc1 w1 where "add_puzzles pp g c co ttl now expires p acc w = (Inr acc1, w1)"
    "all_puzzles pp g c co ttl now expires ps acc1 w1 = (Inr acc', w')"
    by (auto elim!: andThen_InrE)
  then show ?case using Cons.IH add_puzzles_shape Cons.prems(2) by blast
qed simp

lemma all_puzzles_shape_from_empty:
  "all_puzzles pp g c co ttl now expires ps ([], []) w = (Inr (a, b), w') \<Longrightarrow> list_all entry_shape a"
  using all_puzzles_shape [of pp g c co ttl now expires ps "([], [])" w "(a, b)" w'] by simp

lemma challengeV2_shape:
  assumes "challengeV2 pp g c co w = (Inr ch, w')"
  shows "chFormat ch = 2 \<and> chScope ch = coScope co \<and> chChallenges ch \<noteq> [] \<and> list_all entry_shape (chChallenges ch)
    \<and> oSecret c \<noteq> [] \<and> chExpires ch = unixMilli (wClock w (wReads w)) + milliseconds (challengeTTL c co)"
  using assms unfolding challengeV2_def Let_def
  by (auto elim!: andThen_InrE simp: case_prod_run readNow_Inr withRandom_Inr zero_challenge_def
      dest!: all_puzzles_shape_from_empty split: prod.splits if_splits)

section \<open>A challenge is made\<close>

text \<open>Without instrumentation, with enough entropy and a store that accepts, nothing can fail.\<close>

lemma challengeStored_runs:
  assumes "powParams c co = Inr (count, sz, d)" "instrumentationOptions c co = None" "25 \<le> length (wRandom w)"
    and "\<And>t r s. fst (PutChallenge (capStore c) t r s) = Inr ()"
  defines "token \<equiv> hex_encode (take 25 (wRandom w))"
    and "expires \<equiv> unixMilli (wClock w (wReads w)) + milliseconds (challengeTTL c co)"
  shows "challengeStored g c co w =
    (Inr (zero_challenge\<lparr>chFormat := 1, chToken := token, chExpires := expires, chScope := coScope co,
            chCount := count, chSize := sz, chDifficulty := d\<rparr>),
     w\<lparr>wReads := Suc (wReads w), wRandom := drop 25 (wRandom w),
       wStore := snd (PutChallenge (capStore c) token
         \<lparr>cCount = count, cSize = sz, cDifficulty = d, cScope = coScope co, cExpires = expires, cInstr = None\<rparr> (wStore w))\<rparr>)"
proof -
  have r: "randomHex (wRandom w) challengeTokenBytes = (Inr token, drop 25 (wRandom w))"
    using assms(3) randomHex_enough [of 25 "wRandom w"] by (simp add: challengeTokenBytes_def token_def)
  show ?thesis
    unfolding challengeStored_def Let_def assms(1)
    by (simp add: andThen_def run generateInstrumentation_def assms(2) withRandom_def r mapError_def withStore_def assms(4)
        expires_def zero_challenge_def split: prod.split)
qed

section \<open>Properties\<close>

text \<open>
  Property C20. \<open>New\<close> accepts exactly the options that are consistent once the defaults are filled
  in, and returns them so filled in: the secret is absent or at least 16 bytes, the format is 1 or
  2, the proof-of-work parameters are in range, both lifetimes and the squaring count are positive,
  the key pair (if any) validates, every protocol is known, the two token functions come together,
  and there is a secret wherever one is needed. Every rejection is an \<open>ErrConfig\<close>.
\<close>

theorem New_accepts:
  "case New pp ms opts of
     Inr c \<Rightarrow> config_ok pp c \<and> c = with_defaults ms opts
   | Inl e \<Rightarrow> \<not> config_ok pp (with_defaults ms opts) \<and> errors_Is e ErrConfig"
proof (cases "New pp ms opts")
  case (Inl e)
  then show ?thesis using New_accepts_iff [of pp ms opts "with_defaults ms opts"] New_error [of pp ms opts] by simp
next
  case (Inr c)
  moreover from this have "config_ok pp (with_defaults ms opts) \<and> c = with_defaults ms opts" by (simp add: New_accepts_iff)
  ultimately show ?thesis by simp
qed

text \<open>
  An accepted configuration is a fixed point of \<open>New\<close>: creating an instance from the
  options of an instance gives the same options and never fails.
\<close>

lemma New_idempotent:
  "case New pp ms opts of Inr c \<Rightarrow> New pp ms' c = Inr c | Inl e \<Rightarrow> True"
proof (cases "New pp ms opts")
  case (Inr c)
  then have "config_ok pp c" by (auto simp: New_accepts_iff)
  then show ?thesis using Inr by (simp add: New_accepts_iff [of pp ms'] config_ok_fixed)
qed simp



end
