(* ===== verification/Sha_Eval.thy ===== *)
theory Sha_Eval
  imports Sha256
begin

text \<open>
  Evaluating SHA-256 in the kernel: the compression function on natural numbers below \<open>2 ^ 32\<close>,
  which the simplifier computes in seconds, and its agreement with the definition on words.
\<close>

definition rorN :: "nat \<Rightarrow> nat \<Rightarrow> nat" where
  "rorN n x = x div 2 ^ n + (x mod 2 ^ n) * 2 ^ (32 - n)"

definition chooseN :: "nat \<Rightarrow> nat \<Rightarrow> nat \<Rightarrow> nat" where
  "chooseN x y z = (x AND y) XOR ((4294967295 - x) AND z)"

definition majorityN :: "nat \<Rightarrow> nat \<Rightarrow> nat \<Rightarrow> nat" where
  "majorityN x y z = (x AND y) XOR (x AND z) XOR (y AND z)"

definition small0N :: "nat \<Rightarrow> nat" where
  "small0N x = rorN 7 x XOR rorN 18 x XOR x div 8"

definition small1N :: "nat \<Rightarrow> nat" where
  "small1N x = rorN 17 x XOR rorN 19 x XOR x div 1024"

definition big0N :: "nat \<Rightarrow> nat" where
  "big0N x = rorN 2 x XOR rorN 13 x XOR rorN 22 x"

definition big1N :: "nat \<Rightarrow> nat" where
  "big1N x = rorN 6 x XOR rorN 11 x XOR rorN 25 x"

definition slideN :: "nat list \<Rightarrow> nat list" where
  "slideN w = tl w @ [(small1N (w ! 14) + w ! 9 + small0N (w ! 1) + w ! 0) mod 4294967296]"

datatype sha8 = Sha8 nat nat nat nat nat nat nat nat

primrec t1N :: "sha8 \<Rightarrow> nat" where
  "t1N (Sha8 a b c d e f g h) = h + big1N e + chooseN e f g"

primrec stepN :: "nat \<Rightarrow> sha8 \<Rightarrow> sha8" where
  "stepN t (Sha8 a b c d e f g h) =
     Sha8 ((t + (big0N a + majorityN a b c)) mod 4294967296) a b c ((d + t) mod 4294967296) e f g"

text \<open>The arguments of the recursive call are evaluated before it is unfolded.\<close>

primrec roundsN :: "nat list \<Rightarrow> nat list \<Rightarrow> sha8 \<Rightarrow> sha8" where
  "roundsN [] w s = s"
| "roundsN (k # ks) w s = roundsN ks (slideN w) (stepN (t1N s + (k + w ! 0)) s)"

section \<open>Agreement with words\<close>

lemma unat_drop32: "unat (drop_bit n (x :: u32)) = unat x div 2 ^ n"
  unfolding unat_drop_bit_eq by (simp add: drop_bit_eq_div)

lemma unat_ror32: "n \<le> 32 \<Longrightarrow> unat (ror32 n x) = rorN n (unat x)"
proof -
  assume n: "n \<le> 32"
  let ?x = "unat x"
  have lt: "?x < 2 ^ 32" using unsigned_less [of x] by simp
  have split: "?x * 2 ^ (32 - n) = (?x div 2 ^ n) * 2 ^ 32 + (?x mod 2 ^ n) * 2 ^ (32 - n)"
  proof -
    have "?x = (?x div 2 ^ n) * 2 ^ n + ?x mod 2 ^ n" by (rule div_mult_mod_eq [symmetric])
    then have "?x * 2 ^ (32 - n) = (?x div 2 ^ n) * (2 ^ n * 2 ^ (32 - n)) + (?x mod 2 ^ n) * 2 ^ (32 - n)"
      by (metis add_mult_distrib mult.assoc)
    then show ?thesis using n by (simp flip: power_add)
  qed
  have small: "(?x mod 2 ^ n) * 2 ^ (32 - n) < 2 ^ 32"
  proof -
    have "(?x mod 2 ^ n) * 2 ^ (32 - n) < 2 ^ n * 2 ^ (32 - n)" by simp
    then show ?thesis using n by (simp flip: power_add)
  qed
  have push: "unat (push_bit (32 - n) x) = (?x mod 2 ^ n) * 2 ^ (32 - n)"
    unfolding unsigned_push_bit_eq using small by (simp add: take_bit_eq_mod push_bit_eq_mult split)
  have "drop_bit n x AND push_bit (32 - n) x = 0"
  proof (rule bit_word_eqI)
    fix k assume "k < LENGTH(32)"
    then show "bit (drop_bit n x AND push_bit (32 - n) x) k = bit 0 k"
      using bit_imp_le_length [of x "k + n"] by (auto simp: bit_simps algebra_simps)
  qed
  then have "ror32 n x = drop_bit n x + push_bit (32 - n) x"
    by (simp add: ror32_def disjunctive_add_eq_or)
  moreover have "unat (drop_bit n x) = ?x div 2 ^ n" by (rule unat_drop32)
  moreover have "?x div 2 ^ n + (?x mod 2 ^ n) * 2 ^ (32 - n) < 2 ^ 32"
  proof -
    have "?x < 2 ^ (32 - n) * 2 ^ n" using lt n by (simp flip: power_add)
    then have "?x div 2 ^ n < 2 ^ (32 - n)" by (simp add: less_mult_imp_div_less)
    moreover have "(?x mod 2 ^ n) * 2 ^ (32 - n) \<le> (2 ^ n - 1) * 2 ^ (32 - n)"
      by (intro mult_le_mono) (simp_all add: Suc_leI less_eq_Suc_le [symmetric] Suc_diff_1 flip: less_Suc_eq_le)
    moreover have "(2 ^ n - 1) * 2 ^ (32 - n) + 2 ^ (32 - n) = (2 :: nat) ^ 32"
    proof -
      have "(2 :: nat) ^ (32 - n) \<le> 2 ^ 32" by (rule power_increasing) simp_all
      then show ?thesis using n by (simp add: diff_mult_distrib flip: power_add)
    qed
    ultimately show ?thesis by linarith
  qed
  ultimately show ?thesis using push by (simp add: rorN_def unat_word_ariths)
qed

lemma unat_not32: "unat (NOT x :: u32) = 4294967295 - unat x"
proof -
  have "NOT x = (- 1) - x" by (simp add: not_eq_complement)
  moreover have "unat ((- 1 :: u32) - x) = unat (- 1 :: u32) - unat x" by (rule unat_sub) simp
  moreover have "unat (- 1 :: u32) = 4294967295" by (simp add: unsigned_minus_1_eq_mask mask_eq_exp_minus_1)
  ultimately show ?thesis by simp
qed

lemmas unat_ops = unat_ror32 unat_not32 unat_drop32 unsigned_xor_eq unsigned_and_eq

lemma unat_sigmas:
  "unat (small_sigma0 x) = small0N (unat x)" "unat (small_sigma1 x) = small1N (unat x)"
  "unat (big_sigma0 x) = big0N (unat x)" "unat (big_sigma1 x) = big1N (unat x)"
  "unat (choose32 x y z) = chooseN (unat x) (unat y) (unat z)"
  "unat (majority32 x y z) = majorityN (unat x) (unat y) (unat z)"
  by (simp_all add: small_sigma0_def small_sigma1_def big_sigma0_def big_sigma1_def choose32_def majority32_def
      small0N_def small1N_def big0N_def big1N_def chooseN_def majorityN_def unat_ops)

lemma unat_plus32: "unat (x + y :: u32) = (unat x + unat y) mod 4294967296"
  by (simp add: unat_word_ariths)

definition stateN :: "sha_state \<Rightarrow> sha8" where
  "stateN s = Sha8 (unat (hA s)) (unat (hB s)) (unat (hC s)) (unat (hD s)) (unat (hE s)) (unat (hF s)) (unat (hG s)) (unat (hH s))"

lemma slide_unat:
  assumes "length w = 16"
  shows "map unat (sha_slide w) = slideN (map unat w)"
  using assms by (simp add: sha_slide_def slideN_def unat_plus32 unat_sigmas map_tl mod_simps)

lemma round_unat:
  "stateN (sha_round (k + w) s) = stepN (t1N (stateN s) + (unat k + unat w)) (stateN s)"
  by (simp add: sha_round_def stateN_def Let_def unat_plus32 unat_sigmas mod_simps ac_simps)

lemma rounds_unat:
  "length w = 16 \<Longrightarrow> stateN (sha_rounds ks w s) = roundsN (map unat ks) (map unat w) (stateN s)"
proof (induction ks arbitrary: w s)
  case (Cons k ks)
  then have "length (sha_slide w) = 16" by (simp add: sha_slide_def)
  with Cons show ?case by (simp add: slide_unat round_unat nth_map)
qed simp

section \<open>One block\<close>

lemma length_chunks4: "length xs = 4 * k \<Longrightarrow> length (chunks 4 xs) = k"
proof (induction k arbitrary: xs)
  case (Suc k)
  then obtain x ys where "xs = x # ys" by (cases xs) auto
  with Suc show ?case by simp
qed simp

lemma sha256_eval:
  assumes "length m \<le> 55" "map unat (map be32 (chunks 4 (sha_pad m))) = ws"
    and "roundsN (map unat sha_k) ws (stateN sha_init) = Sha8 a b c d e f g h"
  shows "sha256 m = concat (map be32_bytes
    [1779033703 + of_nat a, 3144134277 + of_nat b, 1013904242 + of_nat c, 2773480762 + of_nat d,
     1359893119 + of_nat e, 2600822924 + of_nat f, 528734635 + of_nat g, 1541459225 + of_nat h])"
proof -
  have "119 - length m = 64 + (55 - length m)" using assms(1) by simp
  then have "(119 - length m) mod 64 = (55 - length m) mod 64" by (simp only: mod_add_self1)
  then have "(119 - length m) mod 64 = 55 - length m" using assms(1) by simp
  then have len: "length (sha_pad m) = 64"
    using assms(1) by (simp add: sha_pad_def be64_bytes_def)
  then have one: "chunks 64 (sha_pad m) = [sha_pad m]" by (cases "sha_pad m") auto
  have "length (chunks 4 (sha_pad m)) = 16"
    using len by (intro length_chunks4) simp
  then have "stateN (sha_rounds sha_k (map be32 (chunks 4 (sha_pad m))) sha_init) = Sha8 a b c d e f g h"
    using assms(2,3) by (subst rounds_unat) simp_all
  then obtain r where r: "sha_rounds sha_k (map be32 (chunks 4 (sha_pad m))) sha_init = r" "stateN r = Sha8 a b c d e f g h"
    by simp
  then have "hA r = of_nat a" "hB r = of_nat b" "hC r = of_nat c" "hD r = of_nat d" "hE r = of_nat e" "hF r = of_nat f"
    "hG r = of_nat g" "hH r = of_nat h" by (auto simp: stateN_def)
  then show ?thesis using r(1) by (simp add: sha256_def one sha_compress_def sha_init_def Let_def)
qed

lemmas sha_eval = roundsN.simps t1N.simps stepN.simps slideN_def rorN_def chooseN_def majorityN_def
  small0N_def small1N_def big0N_def big1N_def

text \<open>The first test vector of FIPS 180-4.\<close>

lemma sha256_abc:
  "hex_encode (sha256 (str_bytes ''abc'')) = ''ba7816bf8f01cfea414140de5dae2223b00361a396177a9cb410ff61f20015ad''"
proof -
  have "replicate 52 (0 :: byte) = [0, 0, 0, 0, 0, 0, 0, 0, 0, 0, 0, 0, 0, 0, 0, 0, 0, 0, 0, 0, 0, 0, 0, 0, 0, 0, 0, 0, 0, 0, 0, 0, 0, 0, 0, 0, 0, 0, 0, 0, 0, 0, 0, 0, 0, 0, 0, 0, 0, 0, 0, 0]" by (simp add: numeral_eq_Suc)
  then have pad: "sha_pad (str_bytes ''abc'') = [97, 98, 99, 128, 0, 0, 0, 0, 0, 0, 0, 0, 0, 0, 0, 0, 0, 0, 0, 0, 0, 0, 0, 0, 0, 0, 0, 0, 0, 0, 0, 0, 0, 0, 0, 0, 0, 0, 0, 0, 0, 0, 0, 0, 0, 0, 0, 0, 0, 0, 0, 0, 0, 0, 0, 0, 0, 0, 0, 0, 0, 0, 0, 24]"
    by (simp add: sha_pad_def be64_bytes_def str_bytes_def char_byte_def)
  have ws: "map unat (map be32 (chunks 4 (sha_pad (str_bytes ''abc'')))) =
      [1633837952, 0, 0, 0, 0, 0, 0, 0, 0, 0, 0, 0, 0, 0, 0, 24]"
    by (simp add: pad be32_def)
  have r: "roundsN (map unat sha_k) [1633837952, 0, 0, 0, 0, 0, 0, 0, 0, 0, 0, 0, 0, 0, 0, 24] (stateN sha_init)
      = Sha8 1349398616 3550093669 80891244 3093179625 1593118500 4212265488 2492278198 2518632596"
    by (simp add: sha_eval sha_k_def stateN_def sha_init_def)
  show ?thesis
    by (subst sha256_eval [OF _ ws r])
      (simp_all add: be32_bytes_def hex_byte_def digit_char_def digit_chars_def)
qed

end
