(* ===== verification/Example.thy ===== *)
theory Example
  imports Pow Sha_Eval
begin

text \<open>
  A small format-1 challenge computed in the kernel, from its token to its solution: the witness of
  the theorems about honest sessions.
\<close>

definition example_token :: string where
  "example_token = ''19191919191919191919191919191919191919191919191919''"

text \<open>Words stay below their modulus while they are evaluated.\<close>

lemma reduce32: "4294967296 \<le> (numeral n :: nat) \<Longrightarrow> (numeral n :: u32) = of_nat (numeral n mod 4294967296)"
proof -
  have "(of_nat (m mod 4294967296) :: u32) = of_nat m" for m by (simp add: word_of_nat_eq_iff take_bit_eq_mod)
  from this [of "numeral n"] show ?thesis by simp
qed

lemma utf16_ascii: "ascii s \<Longrightarrow> utf16_units s = codes s"
proof (induction s)
  case (Cons c s)
  then have "utf16_units ([c] @ s) = utf16_units [c] @ utf16_units s" by (intro utf16_units_append_ascii) simp
  moreover have "utf16_units [c] = [of_char c]" using Cons.prems by (simp add: utf16_units_def utf16_rune_def)
  ultimately show ?case using Cons by simp
qed (simp add: utf16_units_def)

lemma example_state: "fnv1a32 example_token = 4039799759"
  by (simp add: fnv1a32_def fnv1a32Resume_def example_token_def utf16_ascii reduce32)

lemma example_itoa: "itoa 0 = ''0''" "itoa 1 = ''1''"
  by (simp_all add: itoa_def to_base.simps [of 10] digit_char_def digit_chars_def)

lemma example_hex: "hex08 1784510125 = ''6a5d76ad''" "hex08 902449837 = ''35ca4aad''"
  by (simp_all add: hex08_def pad_left_def to_base.simps [of 16] digit_char_def digit_chars_def)

lemma example_streams:
  "prng_loop 213162202 (Suc 0) [] = hex08 1784510125" "prng_loop 3192681242 (Suc 0) [] = hex08 902449837"
  by (subst prng_loop.simps, simp add: xorshift_def reduce32, subst prng_loop.simps, simp)+

lemma example_pair: "format1Pair example_token 1 1 1 = Some (''6'', ''3'')"
  by (simp add: format1Pair_def example_state fnv1a32Resume_def utf16_ascii reduce32 example_itoa prngFromHash_def
      example_streams example_hex)

lemma example_digest: "hashHasHexPrefix (sha256Sum ''60'') ''3''"
proof -
  have "replicate 53 (0 :: byte) = [0, 0, 0, 0, 0, 0, 0, 0, 0, 0, 0, 0, 0, 0, 0, 0, 0, 0, 0, 0, 0, 0, 0, 0, 0, 0, 0, 0, 0, 0, 0, 0, 0, 0, 0, 0, 0, 0, 0, 0, 0, 0, 0, 0, 0, 0, 0, 0, 0, 0, 0, 0, 0]" by (simp add: numeral_eq_Suc)
  then have pad: "sha_pad (str_bytes ''60'') = [54, 48, 128, 0, 0, 0, 0, 0, 0, 0, 0, 0, 0, 0, 0, 0, 0, 0, 0, 0, 0, 0, 0, 0, 0, 0, 0, 0, 0, 0, 0, 0, 0, 0, 0, 0, 0, 0, 0, 0, 0, 0, 0, 0, 0, 0, 0, 0, 0, 0, 0, 0, 0, 0, 0, 0, 0, 0, 0, 0, 0, 0, 0, 16]"
    by (simp add: sha_pad_def be64_bytes_def str_bytes_def char_byte_def)
  have ws: "map unat (map be32 (chunks 4 (sha_pad (str_bytes ''60'')))) = [909148160, 0, 0, 0, 0, 0, 0, 0, 0, 0, 0, 0, 0, 0, 0, 16]"
    by (simp add: pad be32_def)
  have r: "roundsN (map unat sha_k) [909148160, 0, 0, 0, 0, 0, 0, 0, 0, 0, 0, 0, 0, 0, 0, 16] (stateN sha_init) = Sha8 3488659546 3582409009 3094412702 1746095783 3087695301 744047619 2132167659 3143545776"
    by (simp add: sha_eval sha_k_def stateN_def sha_init_def)
  show ?thesis unfolding hashHasHexPrefix_def sha256Sum_def
    by (subst sha256_eval [OF _ ws r]) (simp_all add: be32_bytes_def hex_byte_def digit_char_def digit_chars_def to_lower_def lower_char_def)
qed

text \<open>The nonce 0 solves the challenge, and the client finds it.\<close>

definition example_challenge :: "int \<Rightarrow> challenge" where
  "example_challenge expires =
     zero_challenge\<lparr>chFormat := 1, chToken := example_token, chExpires := expires, chCount := 1, chSize := 1, chDifficulty := 1\<rparr>"

lemma example_solved: "SolveChallenge (example_challenge expires) = Some (Inr (enc_array (map itoa [0])))"
proof -
  have "SolvePoW ''6'' ''3'' = Some 0"
    using example_digest by (simp add: SolvePoW_def pow_search.simps powMatches_def example_itoa)
  then show ?thesis
    by (simp add: SolveChallenge_def Format1Pairs_def example_challenge_def zero_challenge_def example_pair)
qed

lemma example_hex_token: "hex_encode (replicate 25 25) = example_token"
proof -
  have "replicate 25 x = [x, x, x, x, x, x, x, x, x, x, x, x, x, x, x, x, x, x, x, x, x, x, x, x, x]" for x :: byte by (simp add: numeral_eq_Suc)
  from this [of 25] show ?thesis by (simp add: example_token_def hex_byte_def digit_char_def digit_chars_def)
qed

end
