(* ===== verification/Flow.thy ===== *)
theory Flow
  imports Api Config Example
begin

text \<open>
  What an honest client can rely on: a solved challenge is redeemed, the token that comes back
  validates once, and only within its scope and lifetime. The lemmas hold for every store that
  keeps what it is given; the theorems state them for the in-memory store.
\<close>

section \<open>Tokens\<close>

lemma lazyCleanup_live:
  obtains w' where "lazyCleanup c w = (Inr (), w')" "wRandom w' = wRandom w" "wClock w' = wClock w"
    "wReads w' = Suc (wReads w)" "wMinters w' = wMinters w"
    "wStore w' = wStore w \<or> wStore w' = snd (StoreCleanup (capStore c) (unixMilli (wClock w (wReads w))) (wStore w))"
  using lazyCleanup_Inr [of c w] by blast

lemma issueToken_runs:
  assumes "oSignToken c = None" "23 \<le> length (wRandom w)" "\<And>k r s. fst (PutToken (capStore c) k r s) = Inr ()"
  shows "\<exists>k key. issueToken c scope nowMs iat w =
      (Inr k, w\<lparr>wRandom := drop 23 (wRandom w),
        wStore := snd (PutToken (capStore c) key \<lparr>tScope = scope, tExpires = kExpires k\<rparr> (wStore w))\<rparr>)
    \<and> TokenKey (kToken k) = Some key \<and> kScope k = scope \<and> kIssuedAt k = iat \<and> kExpires k = nowMs + milliseconds (oTokenTTL c)"
proof -
  let ?i = "hex_encode (take 8 (wRandom w))" and ?v = "hex_encode (take 15 (drop 8 (wRandom w)))"
  have i: "randomHex (wRandom w) tokenIDBytes = (Inr ?i, drop 8 (wRandom w))"
    using assms(2) randomHex_enough [of 8 "wRandom w"] by (simp add: tokenIDBytes_def)
  have v: "randomHex (drop 8 (wRandom w)) tokenVerifierBytes = (Inr ?v, drop 23 (wRandom w))"
    using assms(2) randomHex_enough [of 15 "drop 8 (wRandom w)"] by (simp add: tokenVerifierBytes_def)
  let ?k = "\<lparr>kToken = ?i @ '':'' @ ?v, kExpires = nowMs + milliseconds (oTokenTTL c), kScope = scope, kIssuedAt = iat\<rparr>"
  have "issueToken c scope nowMs iat w =
      (Inr ?k, w\<lparr>wRandom := drop 23 (wRandom w), wStore := snd (PutToken (capStore c) (?i @ '':'' @ sha256Hex ?v)
         \<lparr>tScope = scope, tExpires = kExpires ?k\<rparr> (wStore w))\<rparr>)"
    unfolding issueToken_def Let_def assms(1)
    by (simp add: andThen_def run withRandom_def i v mapError_def withStore_def assms(3) split: prod.split)
  then show ?thesis using issue_draws [OF i v] by (intro exI [of _ ?k] exI [of _ "?i @ '':'' @ sha256Hex ?v"]) simp
qed

text \<open>The result of a successful redemption: a token with its key in the store.\<close>

definition redeemed_ok :: "('st \<Rightarrow> string \<Rightarrow> token_record option) \<Rightarrow> 'st options \<Rightarrow> redeem_request \<Rightarrow> redeem_options \<Rightarrow> 'st world \<Rightarrow> string \<Rightarrow> int \<Rightarrow> bool" where
  "redeemed_ok tok c req ro w scope iat \<longleftrightarrow>
     (\<exists>k key w'. Redeem c req ro w = (Inr k, w') \<and> TokenKey (kToken k) = Some key
        \<and> tok (wStore w') key = Some \<lparr>tScope = scope, tExpires = kExpires k\<rparr> \<and> kScope k = scope \<and> kIssuedAt k = iat
        \<and> kExpires k = unixMilli (wClock w (Suc (wReads w))) + milliseconds (oTokenTTL c)
        \<and> wClock w' = wClock w \<and> wReads w' = Suc (Suc (wReads w)))"

context live_store
begin

lemma Validate_live:
  assumes "own_tokens S c" "token \<noteq> []" "TokenKey token = Some key" "tok (wStore w) key = Some tr"
    and "unixMilli (wClock w (wReads w)) < tExpires tr" "unixMilli (wClock w (Suc (wReads w))) < tExpires tr"
    and "voScope vo = [] \<or> tScope tr = voScope vo"
  shows "\<exists>w'. Validate c token vo w = (Inr True, w') \<and> wClock w' = wClock w \<and> wReads w' = Suc (Suc (wReads w))"
proof -
  obtain w1 where w1: "lazyCleanup c w = (Inr (), w1)" "wClock w1 = wClock w" "wReads w1 = Suc (wReads w)"
    "wStore w1 = wStore w \<or> wStore w1 = snd (StoreCleanup S (unixMilli (wClock w (wReads w))) (wStore w))"
    using lazyCleanup_live [of c w] assms(1) by auto
  have "tok (wStore w1) key = Some tr" using w1(4) assms(4,5) cleanup_live(2) by auto
  then have "fst (ConsumeToken S key (voScope vo) (unixMilli (wClock w (Suc (wReads w)))) (voKeep vo) (wStore w1)) = Inr (Some tr)"
    using assms(6,7) consume_live by blast
  then show ?thesis
    using assms w1 by (simp add: Validate_def andThen_runs run andThen_def mapError_def withStore_def Let_def split: prod.split)
qed

lemma Validate_gone:
  assumes "own_tokens S c" "TokenKey token = Some key" "tok (wStore w) key = None"
  shows "\<exists>w'. Validate c token vo w = (Inr False, w')"
proof -
  obtain w1 where w1: "lazyCleanup c w = (Inr (), w1)" "wClock w1 = wClock w" "wReads w1 = Suc (wReads w)"
    "wStore w1 = wStore w \<or> wStore w1 = snd (StoreCleanup S (unixMilli (wClock w (wReads w))) (wStore w))"
    using lazyCleanup_live [of c w] assms(1) by auto
  have "tok (wStore w1) key = None" using w1(4) assms(3) cleanup_tok submap_None by metis
  then have "fst (ConsumeToken S key (voScope vo) (unixMilli (wClock w (Suc (wReads w)))) (voKeep vo) (wStore w1)) = Inr None"
    using consume_missing by blast
  then show ?thesis
    using assms w1 by (simp add: Validate_def andThen_runs run andThen_def mapError_def withStore_def Let_def split: prod.split)
qed

text \<open>Issuing a token on a store that keeps it: the token is in the store under its key.\<close>

lemma issue_live:
  assumes "own_tokens S c" "23 \<le> length (wRandom w)"
  obtains k key w' where "issueToken c scope nowMs iat w = (Inr k, w')" "TokenKey (kToken k) = Some key"
    "tok (wStore w') key = Some \<lparr>tScope = scope, tExpires = kExpires k\<rparr>" "kScope k = scope" "kIssuedAt k = iat"
    "kExpires k = nowMs + milliseconds (oTokenTTL c)" "wClock w' = wClock w" "wReads w' = wReads w"
    "chal (wStore w') = chal (wStore w)"
proof -
  from issueToken_runs [of c w scope nowMs iat] assms put_token_get(1) obtain k key where run:
    "issueToken c scope nowMs iat w =
      (Inr k, w\<lparr>wRandom := drop 23 (wRandom w), wStore := snd (PutToken S key \<lparr>tScope = scope, tExpires = kExpires k\<rparr> (wStore w))\<rparr>)"
    "TokenKey (kToken k) = Some key" "kScope k = scope" "kIssuedAt k = iat" "kExpires k = nowMs + milliseconds (oTokenTTL c)"
    by auto
  show thesis by (rule that [OF run(1,2)]) (use run in \<open>simp_all add: put_token_get\<close>)
qed

lemma Redeem_stored_live:
  assumes "own_tokens S c" "length (rqToken req) = 50" "\<not> contains_char (rqToken req) (CHR ''.'')" "rqSolutions req \<noteq> []"
    and r: "chal (wStore w) (rqToken req) = Some r"
    and "unixMilli (wClock w (wReads w)) < cExpires r" "unixMilli (wClock w (Suc (wReads w))) < cExpires r"
    and "roScope ro = [] \<or> cScope r = roScope ro"
    and "parseFormat1Solutions (rqSolutions req) = Some ss"
    and "verifyFormat1 (rqToken req) (cCount r) (cSize r) (cDifficulty r) ss = None"
    and "case cInstr r of None \<Rightarrow> True | Some m \<Rightarrow> checkInstrumentation (Some m) (unixMilli (wClock w (Suc (wReads w))))
          (rqInstr req) (rqInstrBlocked req) (rqInstrTimeout req) = None"
    and "23 \<le> length (wRandom w)"
  shows "redeemed_ok tok c req ro w (cScope r) 0"
proof -
  let ?now = "unixMilli (wClock w (Suc (wReads w)))"
  obtain w1 where w1: "lazyCleanup c w = (Inr (), w1)" "wRandom w1 = wRandom w" "wClock w1 = wClock w" "wReads w1 = Suc (wReads w)"
    "wStore w1 = wStore w \<or> wStore w1 = snd (StoreCleanup S (unixMilli (wClock w (wReads w))) (wStore w))"
    using lazyCleanup_live [of c w] assms(1) by auto
  have "chal (wStore w1) (rqToken req) = Some r" using w1(5) r assms(6) cleanup_live(1) by auto
  then have take: "fst (TakeChallenge S (rqToken req) ?now (wStore w1)) = Inr (Some r)" using assms(7) take_live by blast
  let ?w2 = "w1\<lparr>wReads := Suc (Suc (wReads w)), wStore := snd (TakeChallenge S (rqToken req) ?now (wStore w1))\<rparr>"
  have "23 \<le> length (wRandom ?w2)" using assms(12) w1 by simp
  from issue_live [OF assms(1) this, of "cScope r" ?now 0] obtain k key w' where k:
    "issueToken c (cScope r) ?now 0 ?w2 = (Inr k, w')" "TokenKey (kToken k) = Some key"
    "tok (wStore w') key = Some \<lparr>tScope = cScope r, tExpires = kExpires k\<rparr>" "kScope k = cScope r" "kIssuedAt k = 0"
    "kExpires k = ?now + milliseconds (oTokenTTL c)" "wClock w' = wClock ?w2" "wReads w' = wReads ?w2"
    by metis
  have ne: "rqToken req \<noteq> []" using assms(2) by auto
  have instr: "(case cInstr r of None \<Rightarrow> None | Some m \<Rightarrow> checkInstrumentation (Some m) ?now (rqInstr req) (rqInstrBlocked req) (rqInstrTimeout req)) = None"
    using assms(11) by (cases "cInstr r") auto
  have mapTake: "mapError h (withStore (TakeChallenge S (rqToken req) ?now)) (w1\<lparr>wReads := Suc (Suc (wReads w))\<rparr>) = (Inr (Some r), ?w2)" for h
    using take by (simp add: mapError_def withStore_def Let_def)
  have "redeemStored c req ro w1 = (Inr k, w')"
    using assms(1,2,8,9,10) k(1) w1(3,4) instr
    by (auto simp add: redeemStored_def challengeTokenBytes_def Let_def run mapTake)
  then have "Redeem c req ro w = (Inr k, w')"
    using ne assms(3,4) w1(1) by (simp add: Redeem_def andThen_runs)
  then show ?thesis using k w1 unfolding redeemed_ok_def by auto
qed

text \<open>A stored challenge that was returned is in the store, with the parameters that were sent.\<close>

lemma challengeStored_puts:
  assumes "own_tokens S c" "challengeStored g c co w = (Inr ch, w')" "instrumentationOptions c co = None"
  shows "chal (wStore w') (chToken ch) = Some \<lparr>cCount = chCount ch, cSize = chSize ch, cDifficulty = chDifficulty ch,
      cScope = coScope co, cExpires = chExpires ch, cInstr = None\<rparr> \<and> wClock w' = wClock w \<and> wReads w' = Suc (wReads w)"
  using assms(2) unfolding challengeStored_def Let_def generateInstrumentation_def assms(3)
  by (auto elim!: andThen_InrE simp: case_prod_run readNow_Inr withRandom_Inr withStore_Inr zero_challenge_def assms(1)
        split: prod.splits) (metis put_challenge_get(2) snd_conv)

lemma Challenge_puts:
  assumes "own_tokens S c" "Challenge pp g c co w = (Inr ch, w')" "instrumentationOptions c co = None"
    and "chFormat ch = 1" "\<not> contains_char (chToken ch) (CHR ''.'')"
  shows "chal (wStore w') (chToken ch) = Some \<lparr>cCount = chCount ch, cSize = chSize ch, cDifficulty = chDifficulty ch,
      cScope = coScope co, cExpires = chExpires ch, cInstr = None\<rparr> \<and> wClock w' = wClock w \<and> wReads w' = Suc (Suc (wReads w))
      \<and> length (chToken ch) = 50 \<and> chExpires ch = unixMilli (wClock w (Suc (wReads w))) + milliseconds (challengeTTL c co)"
proof -
  obtain w1 where w1: "lazyCleanup c w = (Inr (), w1)" "wClock w1 = wClock w" "wReads w1 = Suc (wReads w)"
    using lazyCleanup_live [of c w] by auto
  have dot: "CHR ''.'' \<in> set (jwtSign payload secret)" for payload secret by (simp add: jwtSign_def Let_def)
  have "challengeSigned g c co w1 \<noteq> (Inr ch, w')"
  proof
    assume "challengeSigned g c co w1 = (Inr ch, w')"
    then have "CHR ''.'' \<in> set (chToken ch)" unfolding challengeSigned_def Let_def
      by (auto elim!: andThen_InrE simp: case_prod_run readNow_Inr withRandom_Inr zero_challenge_def dot split: prod.splits if_splits)
    then show False using assms(5) by (simp add: contains_char_def)
  qed
  moreover have "challengeV2 pp g c co w1 \<noteq> (Inr ch, w')" using assms(4) by (auto dest: challengeV2_shape)
  ultimately have st: "challengeStored g c co w1 = (Inr ch, w')"
    using assms(2) w1(1) by (auto simp: Challenge_def Let_def andThen_runs split: if_splits)
  from challengeStored_shape [OF st] have "length (chToken ch) = 50"
    "chExpires ch = unixMilli (wClock w1 (wReads w1)) + milliseconds (challengeTTL c co)" by metis+
  then show ?thesis using challengeStored_puts [OF assms(1) st assms(3)] w1 by simp
qed

end

section \<open>From a challenge to a validated token\<close>

lemma enc_array_itoa_inj: "enc_array (map itoa xs) = enc_array (map itoa ys) \<Longrightarrow> xs = ys"
proof -
  assume eq: "enc_array (map itoa xs) = enc_array (map itoa ys)"
  have elems: "json_elements (enc_array (map itoa zs)) = Some (map itoa zs)" for zs by (rule json_elements_enc) simp
  from elems [of xs] have "Some (map itoa xs) = Some (map itoa ys)" unfolding eq elems by (rule sym)
  then have m: "map itoa xs = map itoa ys" by (rule option.inject [THEN iffD1])
  have "inj itoa" by (rule injI) (rule itoa_inj)
  from inj_map_eq_map [OF this] m show ?thesis by blast
qed

text \<open>A session: every clock reading lies in a window that is no longer than both lifetimes.\<close>

definition session :: "(nat \<Rightarrow> int) \<Rightarrow> 'st options \<Rightarrow> challenge_options \<Rightarrow> bool" where
  "session clock c co \<longleftrightarrow>
     (\<exists>lo. \<forall>i. lo \<le> unixMilli (clock i) \<and> unixMilli (clock i) < lo + milliseconds (challengeTTL c co)
            \<and> unixMilli (clock i) < lo + milliseconds (oTokenTTL c))"

lemma session_before:
  assumes "session clock c co"
  shows "unixMilli (clock i) < unixMilli (clock j) + milliseconds (challengeTTL c co)"
    and "unixMilli (clock i) < unixMilli (clock j) + milliseconds (oTokenTTL c)"
proof -
  from assms obtain lo where lo: "\<forall>i. lo \<le> unixMilli (clock i) \<and> unixMilli (clock i) < lo + milliseconds (challengeTTL c co)
      \<and> unixMilli (clock i) < lo + milliseconds (oTokenTTL c)" by (auto simp: session_def)
  then have "lo \<le> unixMilli (clock j)" "unixMilli (clock i) < lo + milliseconds (challengeTTL c co)"
    "unixMilli (clock i) < lo + milliseconds (oTokenTTL c)" by blast+
  then show "unixMilli (clock i) < unixMilli (clock j) + milliseconds (challengeTTL c co)"
    "unixMilli (clock i) < unixMilli (clock j) + milliseconds (oTokenTTL c)" by linarith+
qed

definition plain_request :: "string \<Rightarrow> string \<Rightarrow> redeem_request" where
  "plain_request token solutions =
     \<lparr>rqToken = token, rqSolutions = solutions, rqInstr = [], rqInstrBlocked = False, rqInstrTimeout = False\<rparr>"

text \<open>What a client gets for a redeemed token: it validates in its scope, and only once.\<close>

definition validates_once :: "'st options \<Rightarrow> issued_token \<Rightarrow> 'st world \<Rightarrow> bool" where
  "validates_once c k w \<longleftrightarrow>
     (\<exists>w1 w2. Validate c (kToken k) \<lparr>voScope = kScope k, voKeep = False\<rparr> w = (Inr True, w1)
        \<and> Validate c (kToken k) \<lparr>voScope = kScope k, voKeep = False\<rparr> w1 = (Inr False, w2))"

context live_store
begin

lemma redeemed_validates:
  assumes "own_tokens S c" "redeemed_ok tok c req ro w scope iat" "session (wClock w) c co"
  shows "\<exists>k w'. Redeem c req ro w = (Inr k, w') \<and> kScope k = scope \<and> validates_once c k w'"
proof -
  from assms(2) obtain k key w' where r: "Redeem c req ro w = (Inr k, w')" "TokenKey (kToken k) = Some key"
    "tok (wStore w') key = Some \<lparr>tScope = scope, tExpires = kExpires k\<rparr>" "kScope k = scope"
    "kExpires k = unixMilli (wClock w (Suc (wReads w))) + milliseconds (oTokenTTL c)" "wClock w' = wClock w"
    unfolding redeemed_ok_def by blast
  have ne: "kToken k \<noteq> []" using r(2) by (auto simp: TokenKey_def)
  have before: "unixMilli (wClock w' i) < kExpires k" for i
    using session_before(2) [OF assms(3)] r(5,6) by simp
  let ?vo = "\<lparr>voScope = kScope k, voKeep = False\<rparr>"
  obtain w1 where v: "Validate c (kToken k) ?vo w' = (Inr True, w1)"
    using Validate_live [OF assms(1) ne r(2,3), of ?vo] before r(4) by auto
  have "tok (wStore w1) key = None"
    using validD(1) [OF Validate_spends [OF assms(1) r(2)], of ?vo w' True] v by simp
  then obtain w2 where "Validate c (kToken k) ?vo w1 = (Inr False, w2)"
    using Validate_gone [OF assms(1) r(2)] by blast
  with v r show ?thesis by (auto simp: validates_once_def)
qed

lemma stored_flow:
  assumes "own_tokens S c" "Challenge pp g c co w = (Inr ch, w')" "instrumentationOptions c co = None"
    and "chFormat ch = 1" "\<not> contains_char (chToken ch) (CHR ''.'')"
    and solved: "SolveChallenge ch = Some (Inr (enc_array (map itoa sols)))" "list_all (\<lambda>n. n < 2 ^ 53) sols"
    and "session (wClock w) c co" "23 \<le> length (wRandom w')"
  shows "\<exists>k w''. Redeem c (plain_request (chToken ch) (enc_array (map itoa sols))) \<lparr>roScope = coScope co, roSkipNonce = False\<rparr> w' = (Inr k, w'')
    \<and> kScope k = coScope co \<and> validates_once c k w''"
proof -
  note put = Challenge_puts [OF assms(1-5)]
  have "chFormat ch \<noteq> 2" using assms(4) by simp
  from solve_format1 [OF this solved(1)] obtain ns where ns: "enc_array (map itoa sols) = enc_array (map itoa ns)"
    "list_all (\<lambda>n. 0 \<le> n) ns" "verifyFormat1 (chToken ch) (chCount ch) (chSize ch) (chDifficulty ch) (map itoa ns) = None"
    by metis
  have ns': "ns = sols" using enc_array_itoa_inj [OF ns(1)] by simp
  have "list_all (\<lambda>i. \<bar>i\<bar> < 2 ^ 53) sols" using ns(2) solved(2) unfolding ns' by (auto simp: list_all_iff)
  then have p: "parseFormat1Solutions (enc_array (map itoa sols)) = Some (map itoa sols)" by (rule parseFormat1Solutions_itoa)
  let ?req = "plain_request (chToken ch) (enc_array (map itoa sols))" and ?ro = "\<lparr>roScope = coScope co, roSkipNonce = False\<rparr>"
  have ne: "enc_array ts \<noteq> []" for ts by (simp add: enc_array_def)
  have clock: "unixMilli (wClock w' i) < chExpires ch" for i
    using session_before(1) [OF assms(8)] put by simp
  let ?r = "\<lparr>cCount = chCount ch, cSize = chSize ch, cDifficulty = chDifficulty ch,
      cScope = coScope co, cExpires = chExpires ch, cInstr = None\<rparr>"
  have r: "chal (wStore w') (rqToken ?req) = Some ?r" using put by (simp add: plain_request_def)
  have "redeemed_ok tok c ?req ?ro w' (cScope ?r) 0"
    by (rule Redeem_stored_live [OF assms(1) _ _ _ r, of _ "map itoa sols"])
      (use put ns(3) p ne assms(5,9) clock in \<open>simp_all add: plain_request_def ns'\<close>)
  then have "redeemed_ok tok c ?req ?ro w' (coScope co) 0" by simp
  then show ?thesis using redeemed_validates [OF assms(1)] put assms(8) by metis
qed

end

section \<open>Properties\<close>

text \<open>
  Property C3. An honest session on stored challenges succeeds: the challenge that \<open>Challenge\<close>
  returned, solved by the client, is redeemed with the scope it was made for; the token that comes
  back carries that scope, validates once and is refused the second time. The clock may read any
  times within one window that is no longer than the lifetimes.
\<close>

theorem stored_session_succeeds:
  assumes "own_tokens mem_ops c" "Challenge pp g c co w = (Inr ch, w')" "instrumentationOptions c co = None"
    and "chFormat ch = 1" "\<not> contains_char (chToken ch) (CHR ''.'')"
    and "SolveChallenge ch = Some (Inr (enc_array (map itoa sols)))" "list_all (\<lambda>n. n < 2 ^ 53) sols"
    and "session (wClock w) c co" "23 \<le> length (wRandom w')"
  shows "\<exists>k w''. Redeem c (plain_request (chToken ch) (enc_array (map itoa sols))) \<lparr>roScope = coScope co, roSkipNonce = False\<rparr> w' = (Inr k, w'')
    \<and> kScope k = coScope co \<and> validates_once c k w''"
  by (rule mem.stored_flow [OF assms])

text \<open>A concrete session: the defaults with the smallest puzzle, 48 bytes of entropy, a constant clock.\<close>

definition example_options :: "memory_store options" where
  "example_options = with_defaults mem_ops
     (zero_options\<lparr>oChallengeCount := 1, oChallengeSize := 1, oChallengeDifficulty := 1\<rparr>)"

definition example_world :: "memory_store world" where
  "example_world = fresh_world NewMemoryStore (replicate 48 25) 1700000000000000000"

lemma example_options_facts:
  "own_tokens mem_ops example_options" "capStore example_options = mem_ops"
  "instrumentationOptions example_options zero_challenge_options = None"
  "powParams example_options zero_challenge_options = Inr (1, 1, 1)"
  "challengeTTL example_options zero_challenge_options = 600 * 10 ^ 9" "oTokenTTL example_options = 1200 * 10 ^ 9"
  "oFormat example_options = 1" "oStateless example_options = False" "coScope zero_challenge_options = []"
  by (simp_all add: example_options_def own_tokens_def capStore_def instrumentationOptions_def powParams_def validatePoWParams_None
      challengeTTL_def with_defaults_def default_defs zero_options_def zero_challenge_options_def or_default_def const_defs
      split: option.split)

lemma example_runs:
  "\<exists>w'. Challenge (\<lambda>_. True) (\<lambda>r io now. (Inr None, r)) example_options zero_challenge_options example_world
     = (Inr (example_challenge 1700000600000), w') \<and> 23 \<le> length (wRandom w')"
proof -
  let ?g = "\<lambda>r io now. (Inr None, r)"
  obtain w1 where w1: "lazyCleanup example_options example_world = (Inr (), w1)" "wRandom w1 = replicate 48 25"
    "wClock w1 = (\<lambda>_. 1700000000000000000)"
    using lazyCleanup_live [of example_options example_world] by (auto simp: example_world_def fresh_world_def)
  have t: "hex_encode (take 25 (wRandom w1)) = example_token" using example_hex_token by (simp add: w1)
  note st = challengeStored_runs [of example_options zero_challenge_options 1 1 1 w1 ?g, unfolded t example_options_facts(5)]
  have "\<exists>w'. challengeStored ?g example_options zero_challenge_options w1 = (Inr (example_challenge 1700000600000), w')
      \<and> 23 \<le> length (wRandom w')"
    using st w1 by (simp add: example_options_facts example_challenge_def zero_challenge_def unixMilli_def milliseconds_def)
  then show ?thesis
    using w1 by (simp add: Challenge_def andThen_runs Let_def example_options_facts zero_challenge_options_def)
qed

theorem stored_session_succeeds_witness:
  "\<exists>ch w' k w''. Challenge (\<lambda>_. True) (\<lambda>r io now. (Inr None, r)) example_options zero_challenge_options example_world = (Inr ch, w')
    \<and> Redeem example_options (plain_request (chToken ch) (enc_array (map itoa [0]))) \<lparr>roScope = [], roSkipNonce = False\<rparr> w' = (Inr k, w'')
    \<and> validates_once example_options k w''"
proof -
  obtain w' where r: "Challenge (\<lambda>_. True) (\<lambda>r io now. (Inr None, r)) example_options zero_challenge_options example_world
     = (Inr (example_challenge 1700000600000), w')" "23 \<le> length (wRandom w')"
    using example_runs by blast
  have "session (wClock example_world) example_options zero_challenge_options"
    unfolding session_def example_options_facts
    by (rule exI [of _ 1700000000000]) (simp add: example_world_def fresh_world_def unixMilli_def milliseconds_def)
  from stored_session_succeeds [OF example_options_facts(1) r(1) example_options_facts(3) _ _ example_solved _ this r(2)]
  show ?thesis using r(1)
    by (auto simp: example_challenge_def example_token_def contains_char_def zero_challenge_options_def zero_challenge_def)
qed

end
