(* ===== verification/Signed.thy ===== *)
theory Signed
  imports Api
begin

text \<open>
  Signed challenges: what a successful redemption proves, the replay guard over whole histories,
  and the one instant at which the guard does not hold.
\<close>

section \<open>What a redemption went through\<close>

text \<open>The claims of a signed token and its replay key, when the signature verifies.\<close>

definition token_claims_of :: "byte list \<Rightarrow> string \<Rightarrow> (token_claims \<times> string) option" where
  "token_claims_of secret token =
     (case jwtVerify token secret of None \<Rightarrow> None
      | Some (payload, sigHex) \<Rightarrow> map_option (\<lambda>claims. (claims, ''nonce:'' @ sigHex)) (unmarshal dec_claims (bytes_str payload) zero_claims))"

definition verifySigned :: "'st options \<Rightarrow> token_claims \<Rightarrow> redeem_request \<Rightarrow> int \<Rightarrow> go_error option" where
  "verifySigned c claims req nowMs =
     (if tF claims = 2 then verifyV2 c claims req nowMs else verifySignedV1 c claims req nowMs)"

lemma redeemSigned_InrE:
  assumes "redeemSigned c req ro w = (Inr k, w')"
  obtains claims key w1 where
    "oSecret c \<noteq> []" "token_claims_of (oSecret c) (rqToken req) = Some (claims, key)"
    "roScope ro = [] \<or> tSk claims = roScope ro" "tExp claims \<noteq> 0" "unixMilli (wClock w (wReads w)) \<le> tExp claims"
    "verifySigned c claims req (unixMilli (wClock w (wReads w))) = None"
    "if roSkipNonce ro then w1 = w\<lparr>wReads := Suc (wReads w)\<rparr>
     else fst (ClaimNonce (capStore c) key (tExp claims) (unixMilli (wClock w (wReads w))) (wStore w)) = Inr True
       \<and> w1 = w\<lparr>wReads := Suc (wReads w),
           wStore := snd (ClaimNonce (capStore c) key (tExp claims) (unixMilli (wClock w (wReads w))) (wStore w))\<rparr>"
    "issueToken c (tSk claims) (unixMilli (wClock w (wReads w))) (tIat claims) w1 = (Inr k, w')"
proof -
  let ?now = "unixMilli (wClock w (wReads w))" and ?w = "w\<lparr>wReads := Suc (wReads w)\<rparr>"
  obtain payload sigHex claims where t: "oSecret c \<noteq> []" "jwtVerify (rqToken req) (oSecret c) = Some (payload, sigHex)"
    "unmarshal dec_claims (bytes_str payload) zero_claims = Some claims"
    "roScope ro = [] \<or> tSk claims = roScope ro"
    using assms by (auto simp: redeemSigned_def split: if_splits option.splits)
  let ?guard = "if roSkipNonce ro then ret ()
       else andThen (mapError (storeErr ReasonNonceStoreError)
              (withStore (ClaimNonce (capStore c) (''nonce:'' @ sigHex) (tExp claims) ?now)))
            (\<lambda>claimed. if claimed then ret () else throw (fail ReasonAlreadyRedeemed))"
  have "tExp claims \<noteq> 0 \<and> ?now \<le> tExp claims \<and> andThen (check (verifySigned c claims req ?now)) (\<lambda>_. andThen ?guard
      (\<lambda>_. issueToken c (tSk claims) ?now (tIat claims))) ?w = (Inr k, w')"
    using assms t by (auto simp: redeemSigned_def andThen_runs run Let_def verifySigned_def split: if_splits)
  then obtain w1 where v: "tExp claims \<noteq> 0" "?now \<le> tExp claims" "verifySigned c claims req ?now = None"
    "?guard ?w = (Inr (), w1)" "issueToken c (tSk claims) ?now (tIat claims) w1 = (Inr k, w')"
    by (auto elim!: andThen_InrE simp: check_Inr)
  from v(4) have "if roSkipNonce ro then w1 = ?w
     else fst (ClaimNonce (capStore c) (''nonce:'' @ sigHex) (tExp claims) ?now (wStore w)) = Inr True
       \<and> w1 = w\<lparr>wReads := Suc (wReads w), wStore := snd (ClaimNonce (capStore c) (''nonce:'' @ sigHex) (tExp claims) ?now (wStore w))\<rparr>"
    by (auto elim!: andThen_InrE simp: withStore_Inr split: if_splits)
  with t v show thesis by (intro that [of claims "''nonce:'' @ sigHex" w1]) (simp_all add: token_claims_of_def)
qed

lemma Redeem_signed_InrE:
  assumes "Redeem c req ro w = (Inr k, w')" "contains_char (rqToken req) (CHR ''.'')"
  obtains w1 where "redeemSigned c req ro w1 = (Inr k, w')" "wClock w1 = wClock w" "wReads w1 = Suc (wReads w)" "wRandom w1 = wRandom w"
    "wStore w1 = wStore w \<or> wStore w1 = snd (StoreCleanup (capStore c) (unixMilli (wClock w (wReads w))) (wStore w))"
proof -
  obtain w1 where w1: "lazyCleanup c w = (Inr (), w1)" "wClock w1 = wClock w" "wReads w1 = Suc (wReads w)" "wRandom w1 = wRandom w"
    "wStore w1 = wStore w \<or> wStore w1 = snd (StoreCleanup (capStore c) (unixMilli (wClock w (wReads w))) (wStore w))"
    using lazyCleanup_Inr [of c w] by blast
  from assms w1(1) have "redeemSigned c req ro w1 = (Inr k, w')"
    by (auto simp: Redeem_def andThen_runs split: if_splits)
  with w1 show thesis by (intro that) auto
qed

section \<open>A claimed nonce\<close>

sublocale store_contract \<subseteq> held: store_relation "\<lambda>s s'. nonce s k = Some e \<longrightarrow> nonce s' k = Some e" "{t. t < e}" for k e
  by unfold_locales auto

text \<open>A signed redemption of one replay key that the guard was asked about.\<close>

fun signed_redeemed :: "byte list \<Rightarrow> string \<Rightarrow> api_call \<times> api_reply \<Rightarrow> bool" where
  "signed_redeemed secret key (ARedeem req ro, PToken k) \<longleftrightarrow>
     contains_char (rqToken req) (CHR ''.'') \<and> map_option snd (token_claims_of secret (rqToken req)) = Some key"
| "signed_redeemed secret key _ \<longleftrightarrow> False"

text \<open>Calls that leave the guard in force: no reset, no redemption that skips it, and every token with
  the key expires at \<open>E\<close> or later.\<close>

fun guarded :: "byte list \<Rightarrow> string \<Rightarrow> int \<Rightarrow> api_call \<Rightarrow> bool" where
  "guarded secret key E (ARedeem req ro) \<longleftrightarrow>
     (case token_claims_of secret (rqToken req) of
        Some (claims, u) \<Rightarrow> (if u = key then E \<le> tExp claims \<and> \<not> roSkipNonce ro else True)
      | None \<Rightarrow> True)"
| "guarded secret key E AReset \<longleftrightarrow> False"
| "guarded secret key E _ \<longleftrightarrow> True"

context store_contract
begin

lemma held_methods:
  assumes "own_tokens S c"
  shows "within {t. t < e} (\<lambda>s s'. nonce s k = Some e \<longrightarrow> nonce s' k = Some e) (lazyCleanup c)"
    and "within {t. t < e} (\<lambda>s s'. nonce s k = Some e \<longrightarrow> nonce s' k = Some e) (Challenge pp g c co)"
    and "within {t. t < e} (\<lambda>s s'. nonce s k = Some e \<longrightarrow> nonce s' k = Some e) (Redeem c req ro)"
    and "within {t. t < e} (\<lambda>s s'. nonce s k = Some e \<longrightarrow> nonce s' k = Some e) (Validate c token vo)"
    and "within {t. t < e} (\<lambda>s s'. nonce s k = Some e \<longrightarrow> nonce s' k = Some e) (Cleanup c)"
    and "within {t. t < e} (\<lambda>s s'. nonce s k = Some e \<longrightarrow> nonce s' k = Some e) (issueToken c scope nowMs iat)"
  using assms cleanup_nonce claim_nonce
  by (auto intro!: held.within_lazyCleanup held.within_Challenge held.within_Redeem held.within_Validate held.within_Cleanup
      held.within_issue)

text \<open>Once claimed, the nonce stays claimed, and no redemption of its key succeeds.\<close>

lemma held_step:
  assumes "own_tokens S c" "\<forall>i. unixMilli (wClock w i) < e" "nonce (wStore w) k = Some e" "a \<noteq> AReset"
  shows "nonce (wStore (snd (api pp g c a w))) k = Some e"
  using held_methods [OF assms(1), where k = k and e = e] assms by (cases a) (auto simp: within_def)

lemma held_refused:
  assumes "own_tokens S c" "\<forall>i. unixMilli (wClock w i) < e" "nonce (wStore w) key = Some e"
    and "guarded (oSecret c) key E a"
  shows "\<not> signed_redeemed (oSecret c) key (a, fst (api pp g c a w))"
proof
  assume "signed_redeemed (oSecret c) key (a, fst (api pp g c a w))"
  then obtain req ro k w' where a: "a = ARedeem req ro" and r: "Redeem c req ro w = (Inr k, w')"
    and t: "contains_char (rqToken req) (CHR ''.'')" "map_option snd (token_claims_of (oSecret c) (rqToken req)) = Some key"
    by (cases "(oSecret c, key, a, fst (api pp g c a w))" rule: signed_redeemed.cases)
      (auto simp: fst_answer prod_eq_iff split: sum.splits)
  obtain w1 where w1: "redeemSigned c req ro w1 = (Inr k, w')" "wClock w1 = wClock w"
    "wStore w1 = wStore w \<or> wStore w1 = snd (StoreCleanup S (unixMilli (wClock w (wReads w))) (wStore w))"
    using Redeem_signed_InrE [OF r t(1)] assms(1) by (metis own(1))
  have n: "nonce (wStore w1) key = Some e" using w1(3) assms(2,3) cleanup_nonce by auto
  from redeemSigned_InrE [OF w1(1)] obtain claims u w2 where c: "token_claims_of (oSecret c) (rqToken req) = Some (claims, u)"
    "if roSkipNonce ro then w2 = w1\<lparr>wReads := Suc (wReads w1)\<rparr>
     else fst (ClaimNonce (capStore c) u (tExp claims) (unixMilli (wClock w1 (wReads w1))) (wStore w1)) = Inr True
       \<and> w2 = w1\<lparr>wReads := Suc (wReads w1), wStore := snd (ClaimNonce (capStore c) u (tExp claims) (unixMilli (wClock w1 (wReads w1))) (wStore w1))\<rparr>"
    by metis
  have u: "u = key" using c(1) t(2) by simp
  then have "fst (ClaimNonce S key (tExp claims) (unixMilli (wClock w1 (wReads w1))) (wStore w1)) = Inr True"
    using c assms(1,4) a by simp
  then have "e \<le> unixMilli (wClock w1 (wReads w1))" using claim_True n by blast
  then show False using assms(2) w1(2) by (simp add: not_le [symmetric])
qed

lemma signed_claims:
  assumes "own_tokens S c" "\<forall>i. unixMilli (wClock w i) < E" "guarded (oSecret c) key E a"
    and "signed_redeemed (oSecret c) key (a, fst (api pp g c a w))"
  shows "\<exists>e. E \<le> e \<and> nonce (wStore (snd (api pp g c a w))) key = Some e"
proof -
  obtain req ro k w' where a: "a = ARedeem req ro" and r: "Redeem c req ro w = (Inr k, w')"
    and t: "contains_char (rqToken req) (CHR ''.'')" "map_option snd (token_claims_of (oSecret c) (rqToken req)) = Some key"
    using assms(4) by (cases "(oSecret c, key, a, fst (api pp g c a w))" rule: signed_redeemed.cases)
      (auto simp: fst_answer prod_eq_iff split: sum.splits)
  obtain w1 where w1: "redeemSigned c req ro w1 = (Inr k, w')" "wClock w1 = wClock w"
    using Redeem_signed_InrE [OF r t(1)] by metis
  let ?now = "unixMilli (wClock w1 (wReads w1))"
  from redeemSigned_InrE [OF w1(1)] obtain claims u w2 where c: "token_claims_of (oSecret c) (rqToken req) = Some (claims, u)"
    "if roSkipNonce ro then w2 = w1\<lparr>wReads := Suc (wReads w1)\<rparr>
     else fst (ClaimNonce (capStore c) u (tExp claims) ?now (wStore w1)) = Inr True
       \<and> w2 = w1\<lparr>wReads := Suc (wReads w1), wStore := snd (ClaimNonce (capStore c) u (tExp claims) ?now (wStore w1))\<rparr>"
    "issueToken c (tSk claims) ?now (tIat claims) w2 = (Inr k, w')"
    by metis
  have u: "u = key" using c(1) t(2) by simp
  have e: "E \<le> tExp claims" "\<not> roSkipNonce ro" using c(1) assms(3) a u by auto
  then have "fst (ClaimNonce S key (tExp claims) ?now (wStore w1)) = Inr True"
    "wStore w2 = snd (ClaimNonce S key (tExp claims) ?now (wStore w1))" "wClock w2 = wClock w"
    using c u assms(1) w1(2) by simp_all
  then have "nonce (wStore w2) key = Some (tExp claims)" using claim_True by metis
  moreover have "\<forall>i. unixMilli (wClock w2 i) < tExp claims" using assms(2) e(1) \<open>wClock w2 = wClock w\<close> by (metis less_le_trans)
  ultimately have "nonce (wStore w') key = Some (tExp claims)"
    using held_methods(6) [OF assms(1), of "tExp claims" key "tSk claims" ?now "tIat claims"] c(3) by (simp add: within_def) (metis snd_conv)
  then show ?thesis using e(1) a r by (auto simp: answer_def)
qed

lemma signed_none_after:
  assumes "own_tokens S c"
  shows "\<forall>i. unixMilli (wClock w i) < E \<Longrightarrow> list_all (guarded (oSecret c) key E) as \<Longrightarrow> E \<le> e \<Longrightarrow> nonce (wStore w) key = Some e
    \<Longrightarrow> count_if (signed_redeemed (oSecret c) key) (fst (api_run pp g c as w)) = 0"
proof (induction as arbitrary: w)
  case (Cons a as)
  have t: "\<forall>i. unixMilli (wClock w i) < e" using Cons.prems by (meson less_le_trans)
  have "a \<noteq> AReset" using Cons.prems by auto
  then show ?case
    using Cons held_refused [OF assms t Cons.prems(4), of E a pp g] held_step [OF assms t Cons.prems(4), of a pp g]
    by (simp add: Let_def api_clock [OF own(2,3) [OF assms]])
qed simp

lemma signed_once:
  assumes "own_tokens S c"
  shows "\<forall>i. unixMilli (wClock w i) < E \<Longrightarrow> list_all (guarded (oSecret c) key E) as
    \<Longrightarrow> count_if (signed_redeemed (oSecret c) key) (fst (api_run pp g c as w)) \<le> 1"
proof (induction as arbitrary: w)
  case (Cons a as)
  note clock = api_clock [OF own(2,3) [OF assms], of pp g a w]
  show ?case
  proof (cases "signed_redeemed (oSecret c) key (a, fst (api pp g c a w))")
    case True
    then obtain e where "E \<le> e" "nonce (wStore (snd (api pp g c a w))) key = Some e"
      using signed_claims [OF assms Cons.prems(1), of key a pp g] Cons.prems(2) by auto
    then have "count_if (signed_redeemed (oSecret c) key) (fst (api_run pp g c as (snd (api pp g c a w)))) = 0"
      using signed_none_after [OF assms, of "snd (api pp g c a w)" E key as e pp g] Cons.prems clock by simp
    then show ?thesis using True by (simp add: Let_def)
  next
    case False
    then show ?thesis using Cons clock by (simp add: Let_def)
  qed
qed simp

end

end
