(* ===== verification/Format2.thy ===== *)
theory Format2
  imports Redeem
begin

text \<open>
  Format-2 challenges: every public entry has a private expectation beside it, and what the Go
  client computes for an entry meets the expectation.
\<close>

section \<open>Entries and expectations\<close>

definition answered :: "challenge_entry \<Rightarrow> expected_entry \<Rightarrow> bool" where
  "answered e x \<longleftrightarrow>
     (case ePayload e of
        PoWPayload salt target \<Rightarrow> ascii salt \<and> ascii target
          \<and> x = zero_expected\<lparr>xProtocol := ProtocolSHA256PoW, xSalt := salt, xTarget := target\<rparr>
      | RSWPayload n xh t \<Rightarrow>
          (\<exists>N X y l. n = paddedHex N l \<and> xh = paddedHex X l \<and> 0 \<le> N \<and> 0 \<le> X \<and> 0 \<le> y \<and> SolveRSW N X t = Inr y
             \<and> x = zero_expected\<lparr>xProtocol := ProtocolRSW, xY := paddedHex y l\<rparr>)
      | _ \<Rightarrow> True)"

definition minter_sound :: "rsw_minter \<Rightarrow> bool" where
  "minter_sound m \<longleftrightarrow> minter_ok m \<and> trapdoor_sound (rp m) (rG m) (rIterations m) \<and> trapdoor_sound (rq m) (rG m) (rIterations m)"

lemma hex_ascii: "set s \<subseteq> hex_digits \<Longrightarrow> ascii s"
  by (auto simp: ascii_def list_all_iff hex_digits_def)

lemma zeros_ascii: "ascii (replicate n (CHR ''0''))"
  by (auto simp: ascii_def list_all_iff)

lemma pow_puzzles_answered:
  assumes "pow_puzzles n sz target acc w = (Inr acc', w')" "list_all2 answered (fst acc) (snd acc)" "ascii target"
  shows "list_all2 answered (fst acc') (snd acc')"
  using assms
proof (induction n arbitrary: acc w)
  case (Suc n)
  from Suc.prems(1) obtain salt w1 where s: "withRandom (\<lambda>random. randomHex random sz) w = (Inr salt, w1)"
    "pow_puzzles n sz target
         (fst acc @ [\<lparr>eProtocol = ProtocolSHA256PoW, ePayload = PoWPayload salt target\<rparr>],
          snd acc @ [zero_expected\<lparr>xProtocol := ProtocolSHA256PoW, xSalt := salt, xTarget := target\<rparr>]) w1 = (Inr acc', w')"
    by (auto elim!: andThen_InrE)
  from s(1) have "ascii salt" by (auto simp: withRandom_Inr dest!: randomHex_Inr intro: hex_ascii)
  then have "answered \<lparr>eProtocol = ProtocolSHA256PoW, ePayload = PoWPayload salt target\<rparr>
      (zero_expected\<lparr>xProtocol := ProtocolSHA256PoW, xSalt := salt, xTarget := target\<rparr>)"
    using Suc.prems(3) by (simp add: answered_def)
  then show ?case using Suc.IH [OF s(2)] Suc.prems by (simp add: list_all2_appendI)
qed simp

lemma rsw_puzzle_answered:
  assumes "rsw_puzzle pp c acc w = (Inr acc', w')" "list_all2 answered (fst acc) (snd acc)"
    and "\<And>m. wMinters w' (oRSWIterations c) = Some m \<Longrightarrow> minter_sound m"
  shows "list_all2 answered (fst acc') (snd acc')"
proof -
  from assms(1) obtain m w1 minted where m: "cap_minter pp c w = (Inr m, w1)" "withRandom (Mint m) w1 = (Inr minted, w')"
    and acc': "acc' = (fst acc @ [\<lparr>eProtocol = ProtocolRSW,
                        ePayload = RSWPayload (paddedHex (mintN minted) (rModulusBytes m))
                          (paddedHex (mintX minted) (rModulusBytes m)) (mintIterations minted)\<rparr>],
            snd acc @ [zero_expected\<lparr>xProtocol := ProtocolRSW, xY := paddedHex (mintExpectedY minted) (rModulusBytes m)\<rparr>])"
    by (auto simp: rsw_puzzle_def elim!: andThen_InrE)
  have "wMinters w1 (oRSWIterations c) = Some m"
    using m(1) by (auto simp: cap_minter_def split: option.splits sum.splits prod.splits)
  moreover have "wMinters w' = wMinters w1" "\<exists>raw rest. Mint m raw = (Inr minted, rest)"
    using m(2) by (auto simp: withRandom_Inr)
  ultimately obtain raw rest where "minter_sound m" "Mint m raw = (Inr minted, rest)" using assms(3) by auto
  then have "SolveRSW (mintN minted) (mintX minted) (mintIterations minted) = Inr (mintExpectedY minted)
      \<and> 0 \<le> mintX minted \<and> mintX minted < mintN minted \<and> 0 \<le> mintExpectedY minted"
    using Mint_correct by (auto simp: minter_sound_def)
  then have "answered \<lparr>eProtocol = ProtocolRSW, ePayload = RSWPayload (paddedHex (mintN minted) (rModulusBytes m))
      (paddedHex (mintX minted) (rModulusBytes m)) (mintIterations minted)\<rparr>
      (zero_expected\<lparr>xProtocol := ProtocolRSW, xY := paddedHex (mintExpectedY minted) (rModulusBytes m)\<rparr>)"
    unfolding answered_def challenge_entry.simps payload.case
    apply -
    apply (rule exI [of _ "mintN minted"], rule exI [of _ "mintX minted"], rule exI [of _ "mintExpectedY minted"],
        rule exI [of _ "rModulusBytes m"])
    apply auto
    done
  then show ?thesis using assms(2) unfolding acc' by (simp add: list_all2_appendI)
qed

text \<open>The cache of minters only grows.\<close>

definition grows :: "('st, 'a) act \<Rightarrow> bool" where
  "grows m \<longleftrightarrow> (\<forall>w. wMinters w \<subseteq>\<^sub>m wMinters (snd (m w)))"

named_theorems growing

lemma grows_basic [growing]:
  "grows (ret x)" "grows (throw e)" "grows (pure r)" "grows ctxErr" "grows (withRandom f)" "grows (cap_minter pp c)"
  by (auto simp: grows_def ret_def throw_def pure_def ctxErr_def withRandom_def Let_def cap_minter_def map_le_def
      split: list.splits option.splits sum.splits prod.splits)

lemma grows_andThen [growing]:
  assumes "grows m" "\<And>x. grows (f x)"
  shows "grows (andThen m f)"
  unfolding grows_def
proof
  fix w
  have "wMinters w \<subseteq>\<^sub>m wMinters (snd (m w))" "wMinters (snd (m w)) \<subseteq>\<^sub>m wMinters (snd (f x (snd (m w))))" for x
    using assms by (simp_all add: grows_def)
  then show "wMinters w \<subseteq>\<^sub>m wMinters (snd (andThen m f w))"
    by (cases "m w") (auto simp: andThen_def split: sum.splits intro: map_le_trans)
qed

lemma grows_puzzles [growing]: "grows (pow_puzzles n sz target acc)"
  by (induction n arbitrary: acc) (auto intro!: growing)

lemma grows_add [growing]: "grows (add_puzzles pp g c co ttl now expires p acc)"
  unfolding add_puzzles_def rsw_puzzle_def instr_puzzle_def runInstrumentationGenerator_def Let_def
  by (auto intro!: growing split: prod.splits)

lemma grows_all [growing]: "grows (all_puzzles pp g c co ttl now expires ps acc)"
  by (induction ps arbitrary: acc) (auto intro!: growing)

lemma growsD: "grows m \<Longrightarrow> m w = (r, w') \<Longrightarrow> wMinters w t = Some x \<Longrightarrow> wMinters w' t = Some x"
  by (metis grows_def map_le_def domI snd_conv)

lemma add_puzzles_answered:
  assumes "add_puzzles pp g c co ttl now expires p acc w = (Inr acc', w')" "list_all2 answered (fst acc) (snd acc)"
    and "\<And>m. wMinters w' (oRSWIterations c) = Some m \<Longrightarrow> minter_sound m"
  shows "list_all2 answered (fst acc') (snd acc')"
proof (cases "p = ProtocolSHA256PoW")
  case True
  with assms(1) obtain count sz d w1 where "pow_puzzles (nat count) sz (replicate (nat d) (CHR ''0'')) acc w1 = (Inr acc', w')"
    by (auto simp: add_puzzles_def elim!: andThen_InrE split: prod.splits)
  then show ?thesis using assms(2) by (rule pow_puzzles_answered) (rule zeros_ascii)
next
  case False
  show ?thesis
  proof (cases "p = ProtocolRSW")
    case True
    then show ?thesis using assms by (intro rsw_puzzle_answered [of pp c acc w acc' w']) (simp_all add: add_puzzles_def)
  next
    case other: False
    then show ?thesis using assms(1,2) False
      by (auto simp: add_puzzles_def instr_puzzle_def Let_def answered_def elim!: andThen_InrE split: if_splits
          intro!: list_all2_appendI)
  qed
qed

lemma all_puzzles_answered:
  assumes "all_puzzles pp g c co ttl now expires ps acc w = (Inr acc', w')" "list_all2 answered (fst acc) (snd acc)"
    and "\<And>m. wMinters w' (oRSWIterations c) = Some m \<Longrightarrow> minter_sound m"
  shows "list_all2 answered (fst acc') (snd acc')"
  using assms(1,2)
proof (induction ps arbitrary: acc w)
  case (Cons p ps)
  from Cons.prems(1) obtain acc1 w1 where a: "add_puzzles pp g c co ttl now expires p acc w = (Inr acc1, w1)"
    "all_puzzles pp g c co ttl now expires ps acc1 w1 = (Inr acc', w')"
    by (auto elim!: andThen_InrE)
  have "minter_sound m" if "wMinters w1 (oRSWIterations c) = Some m" for m
    using growsD [OF grows_all a(2) that] assms(3) by blast
  then have "list_all2 answered (fst acc1) (snd acc1)" using add_puzzles_answered [OF a(1) Cons.prems(2)] by blast
  then show ?case using Cons.IH [OF a(2)] by blast
qed simp

section \<open>Solutions meet expectations\<close>

text \<open>The client's nonces are below \<open>2 ^ 53\<close>, where a double is exact.\<close>

definition small_nonce :: "challenge_entry \<Rightarrow> bool" where
  "small_nonce e \<longleftrightarrow>
     (case ePayload e of PoWPayload salt target \<Rightarrow> (case SolvePoW salt target of None \<Rightarrow> True | Some n \<Rightarrow> n < 2 ^ 53)
      | _ \<Rightarrow> True)"

lemma nonceString_itoa: "\<bar>n\<bar> < 2 ^ 53 \<Longrightarrow> nonceString (itoa n) = Some (itoa n)"
proof -
  assume n: "\<bar>n\<bar> < 2 ^ 53"
  have "itoa n \<noteq> [] \<and> hd (itoa n) \<noteq> CHR 0x22"
    using to_base_10_digits [of "nat n"] to_base_nonempty [of 10 "nat n"]
    by (cases "to_base 10 (nat n)") (auto simp: itoa_def is_digit_def)
  then show ?thesis using n by (simp add: nonceString_def)
qed

lemma dec_solution_enc:
  "unmarshal dec_solution (enc_object [(''nonce'', itoa n)]) zero_solution = Some (zero_solution\<lparr>sNonce := itoa n\<rparr>)"
  "ascii y \<Longrightarrow> unmarshal dec_solution (enc_object [(''y'', enc_string y)]) zero_solution = Some (zero_solution\<lparr>sY := y\<rparr>)"
  unfolding dec_solution_def
  by (subst unmarshal_struct_enc; simp add: fold_name_def fold_rune_ascii dec_raw_def)+

lemma enc_object_hd: "enc_object ms \<noteq> []" "hd (enc_object ms) = CHR ''{''"
  by (simp_all add: enc_object_def)

lemma padded_ascii: "ascii (paddedHex y l)"
proof -
  have "ascii (to_base 16 n)" for n by (rule ascii_to_base) simp_all
  moreover have "ascii (replicate k (CHR ''0''))" for k by (rule zeros_ascii)
  ultimately show ?thesis by (simp add: paddedHex_def pad_left_def)
qed

lemma verify_solved:
  assumes "answered e x" "solve_entry e = Some (Inr s)" "small_nonce e"
  shows "verify_entry x s now = None \<and> value_text json_depth s \<and> expected_wire x"
proof (cases "ePayload e")
  case (PoWPayload salt target)
  then obtain n where n: "SolvePoW salt target = Some n" "s = enc_object [(''nonce'', itoa n)]"
    using assms(2) by (auto split: option.splits)
  have x: "ascii salt" "ascii target" "x = zero_expected\<lparr>xProtocol := ProtocolSHA256PoW, xSalt := salt, xTarget := target\<rparr>"
    using assms(1) PoWPayload by (simp_all add: answered_def)
  have "0 \<le> n" "powMatches salt (itoa n) target" "n < 2 ^ 53"
    using SolvePoW_Some [OF n(1)] assms(3) PoWPayload n(1) by (simp_all add: small_nonce_def)
  moreover have "value_text json_depth s" unfolding n(2) json_depth_def using value_text_object [of "[(''nonce'', itoa n)]" 9998] by simp
  ultimately show ?thesis
    using x n(2) by (simp add: verify_entry_def enc_object_hd dec_solution_enc nonceString_itoa expected_wire_def zero_expected_def)
next
  case (RSWPayload nh xh t)
  then obtain N X y l where p: "nh = paddedHex N l" "xh = paddedHex X l" "0 \<le> N" "0 \<le> X" "0 \<le> y" "SolveRSW N X t = Inr y"
    "x = zero_expected\<lparr>xProtocol := ProtocolRSW, xY := paddedHex y l\<rparr>"
    using assms(1) by (auto simp: answered_def)
  then have s: "s = enc_object [(''y'', enc_string (to_base 16 (nat y)))]"
    using assms(2) RSWPayload by simp
  have a: "ascii (to_base 16 (nat y))" by (rule ascii_to_base) simp_all
  have "value_text json_depth s" unfolding s json_depth_def using value_text_object [of "[(''y'', enc_string (to_base 16 (nat y)))]" 9998] by simp
  then show ?thesis
    using p s a by (simp add: verify_entry_def enc_object_hd dec_solution_enc verifyRSWHex_padded expected_wire_def zero_expected_def padded_ascii)
qed (use assms(2) in auto)

lemma verify_all_solved:
  assumes "list_all2 answered es xs" "solve_entries es = Some (Inr ss)" "list_all small_nonce es"
  shows "verify_entries xs ss now = None \<and> length ss = length xs \<and> (\<forall>s \<in> set ss. value_text json_depth s) \<and> list_all expected_wire xs"
  using assms
proof (induction arbitrary: ss rule: list_all2_induct)
  case (Cons e es x xs)
  from Cons.prems(1) obtain s rest where s: "solve_entry e = Some (Inr s)" "solve_entries es = Some (Inr rest)" "ss = s # rest"
    by (auto simp del: solve_entry.simps split: option.splits sum.splits)
  then show ?case using Cons verify_solved [OF Cons.hyps(1) s(1)] by (simp del: solve_entry.simps)
qed simp

end
