(* ===== verification/Minters.thy ===== *)
theory Minters
  imports Api Format2 Config
begin

text \<open>
  The cache of time-lock minters: every minter that a \<open>Cap\<close> keeps was built for the iteration count
  it is kept under and computes the answers that solvers find, whatever the history of calls.
\<close>

section \<open>An invariant of the cache\<close>

text \<open>Both factors of the key are safe for \<open>t\<close> squarings: \<open>p - 1\<close> does not divide \<open>2 ^ t\<close>.\<close>

definition strong_keypair :: "int \<Rightarrow> rsw_keypair \<Rightarrow> bool" where
  "strong_keypair t k \<longleftrightarrow>
     (case (kP k, kQ k) of
        (Some p, Some q) \<Rightarrow> \<not> (p - 1) dvd 2 ^ nat t \<and> \<not> (q - 1) dvd 2 ^ nat t
      | _ \<Rightarrow> True)"

definition minters_ok :: "(int \<rightharpoonup> rsw_minter) \<Rightarrow> bool" where
  "minters_ok cache \<longleftrightarrow> (\<forall>t m. cache t = Some m \<longrightarrow> minter_sound m \<and> rIterations m = t)"

lemma minters_ok_empty: "minters_ok Map.empty"
  by (simp add: minters_ok_def)

lemma NewRSWMinter_sound:
  assumes "\<And>n. pp n \<Longrightarrow> is_prime n" "strong_keypair t k" "NewRSWMinter pp (Some k) t random gen = (Inr m, rest)"
  shows "minter_sound m \<and> rIterations m = t"
proof -
  have ok: "minter_ok m" "rIterations m = t" using NewRSWMinter_ok [OF assms(1,3)] by auto
  obtain u where "keypair_Validate pp (Some k) = Inr u" using assms(3) by (auto simp: NewRSWMinter_def split: sum.splits)
  then obtain n p q where k: "kN k = Some n" "kP k = Some p" "kQ k = Some q" by (rule keypair_Validate_Inr) auto
  have "rp m = p \<and> rq m = q"
    using assms(3) k by (auto simp: NewRSWMinter_def Let_def split: sum.splits if_splits option.splits prod.splits)
  then have "trapdoor_sound (rp m) (rG m) t" "trapdoor_sound (rq m) (rG m) t"
    using assms(2) k by (simp_all add: trapdoor_sound_def strong_keypair_def)
  with ok show ?thesis by (simp add: minter_sound_def)
qed

definition keeps :: "((int \<rightharpoonup> rsw_minter) \<Rightarrow> bool) \<Rightarrow> ('st, 'a) act \<Rightarrow> bool" where
  "keeps I m \<longleftrightarrow> (\<forall>w. I (wMinters w) \<longrightarrow> I (wMinters (snd (m w))))"

lemma keepsD: "keeps I m \<Longrightarrow> m w = (r, w') \<Longrightarrow> I (wMinters w) \<Longrightarrow> I (wMinters w')"
  by (force simp: keeps_def)

named_theorems keeping

lemma keeps_basic [keeping]:
  "keeps I (ret x)" "keeps I (throw e)" "keeps I (pure r)" "keeps I (check q)" "keeps I readNow" "keeps I ctxErr"
  "keeps I (withRandom f)" "keeps I (withStore h)"
  by (auto simp: keeps_def ret_def throw_def pure_def check_def readNow_def ctxErr_def withRandom_def withStore_def Let_def
      split: list.splits)

lemma keeps_mapError [keeping]: "keeps I m \<Longrightarrow> keeps I (mapError f m)"
  unfolding keeps_def mapError_def by (auto split: sum.splits prod.splits)

lemma keeps_andThen [keeping]:
  assumes "keeps I m" "\<And>x. keeps I (f x)"
  shows "keeps I (andThen m f)"
  unfolding keeps_def
proof (intro allI impI)
  fix w :: "'a world"
  assume "I (wMinters w)"
  then have "I (wMinters (snd (m w)))" using assms(1) by (simp add: keeps_def)
  then show "I (wMinters (snd (andThen m f w)))"
    using assms(2) by (cases "m w") (auto simp: andThen_def keeps_def split: sum.splits)
qed

lemma keeps_lazyCleanup [keeping]: "keeps I (lazyCleanup c)"
  by (auto simp: keeps_def lazyCleanup_def andThen_def readNow_def withStore_def Let_def)

lemma keeps_issue [keeping]: "keeps I (issueToken c scope nowMs iat)"
  unfolding issueToken_def Let_def by (auto intro!: keeping split: option.split)

lemma keeps_Redeem [keeping]: "keeps I (Redeem c req ro)"
  unfolding Redeem_def redeemStored_def redeemSigned_def Let_def
  by (auto intro!: keeping split: option.split prod.split)

lemma keeps_Validate [keeping]: "keeps I (Validate c token vo)"
  unfolding Validate_def by (auto intro!: keeping split: option.split)

lemma keeps_Cleanup [keeping]: "keeps I (Cleanup c)"
  unfolding Cleanup_def by (auto intro!: keeping)

text \<open>A challenge keeps what the construction of one minter keeps.\<close>

lemma keeps_Challenge:
  assumes minter: "keeps I (cap_minter pp c)"
  shows "keeps I (Challenge pp g c co)"
proof -
  have pow: "keeps I (pow_puzzles n sz target acc)" for n sz target acc
    by (induction n arbitrary: acc) (auto intro!: keeping)
  have add: "keeps I (add_puzzles pp g c co ttl now expires p acc)" for ttl now expires p acc
    unfolding add_puzzles_def rsw_puzzle_def instr_puzzle_def runInstrumentationGenerator_def Let_def
    by (auto intro!: keeping pow minter split: prod.splits)
  have all: "keeps I (all_puzzles pp g c co ttl now expires ps acc)" for ttl now expires ps acc
    by (induction ps arbitrary: acc) (auto intro!: keeping add)
  show ?thesis
    unfolding Challenge_def challengeStored_def challengeSigned_def challengeV2_def generateInstrumentation_def
      runInstrumentationGenerator_def Let_def
    by (auto intro!: keeping all split: option.split prod.split)
qed

lemma cap_minter_keeps:
  assumes "\<And>n. pp n \<Longrightarrow> is_prime n" "\<And>k. oRSWKeypair c = Some k \<Longrightarrow> strong_keypair (oRSWIterations c) k"
  shows "keeps minters_ok (cap_minter pp c)"
  unfolding keeps_def
proof (intro allI impI)
  fix w :: "'a world"
  assume ok: "minters_ok (wMinters w)"
  show "minters_ok (wMinters (snd (cap_minter pp c w)))"
    using ok NewRSWMinter_sound [OF assms(1) assms(2)]
    by (auto simp: cap_minter_def minters_ok_def split: option.splits sum.splits prod.splits)
qed

lemma api_keeps:
  assumes "\<And>n. pp n \<Longrightarrow> is_prime n" "\<And>k. oRSWKeypair c = Some k \<Longrightarrow> strong_keypair (oRSWIterations c) k"
    and "minters_ok (wMinters w)"
  shows "minters_ok (wMinters (snd (api pp g c a w)))"
proof -
  have "keeps minters_ok (Challenge pp g c co)" for co using keeps_Challenge cap_minter_keeps assms(1,2) by blast
  moreover note keeps_Redeem [of minters_ok c] keeps_Validate [of minters_ok c] keeps_Cleanup [of minters_ok c]
  ultimately show ?thesis
    using assms(3) by (cases a) (simp_all add: keeps_def Reset_def withStore_def Let_def minters_ok_empty)
qed

lemma api_run_keeps:
  assumes "\<And>n. pp n \<Longrightarrow> is_prime n" "\<And>k. oRSWKeypair c = Some k \<Longrightarrow> strong_keypair (oRSWIterations c) k"
  shows "minters_ok (wMinters w) \<Longrightarrow> minters_ok (wMinters (snd (api_run pp g c as w)))"
  by (induction as arbitrary: w) (simp_all add: Let_def api_keeps [OF assms])

section \<open>A format-2 challenge in full\<close>

lemma challengeV2_rsw_runs:
  assumes "oSecret c \<noteq> []" "effectiveProtocols c co = [ProtocolRSW]"
    and "cap_minter pp c (w\<lparr>wReads := Suc (wReads w)\<rparr>) = (Inr m, w1)" "60 \<le> length (wRandom w1)"
  shows "\<exists>ch w' n x. challengeV2 pp g c co w = (Inr ch, w') \<and> wRandom w' = drop 60 (wRandom w1) \<and> wStore w' = wStore w1
    \<and> chFormat ch = 2 \<and> chExpires ch = unixMilli (wClock w (wReads w)) + milliseconds (challengeTTL c co)
    \<and> chChallenges ch = [\<lparr>eProtocol = ProtocolRSW, ePayload = RSWPayload n x (rIterations m)\<rparr>]
    \<and> wMinters w' = wMinters w1"
proof -
  have "32 \<le> length (wRandom w1)" using assms(4) by simp
  then obtain minted where mt: "Mint m (wRandom w1) = (Inr minted, drop 32 (wRandom w1))" "mintIterations minted = rIterations m"
    by (auto simp: Mint_def readFull_enough Let_def)
  let ?env = "str_bytes (enc_envelope [zero_expected\<lparr>xProtocol := ProtocolRSW, xY := paddedHex (mintExpectedY minted) (rModulusBytes m)\<rparr>])"
  have "12 \<le> length (drop 32 (wRandom w1))" using assms(4) by simp
  from decrypt_encrypt [OF this, of "oSecret c" "''cap:fmt2-v1''" ?env] obtain ev where
    e: "encryptGCM (oSecret c) ''cap:fmt2-v1'' ?env (drop 32 (wRandom w1)) = (Inr ev, drop 44 (wRandom w1))" by auto
  have n: "randomHex (drop 44 (wRandom w1)) 16 = (Inr (hex_encode (take 16 (drop 44 (wRandom w1)))), drop 60 (wRandom w1))"
    using assms(4) randomHex_enough [of 16 "drop 44 (wRandom w1)"] by simp
  show ?thesis
    unfolding challengeV2_def Let_def assms(2)
    by (simp add: assms(1) andThen_def run add_puzzles_def rsw_puzzle_def assms(3) withRandom_def mt e n zero_challenge_def
        Let_def protocol_defs [symmetric])
qed

text \<open>A key pair with the factors 7 and a large prime, and a \<open>Cap\<close> that uses it for one squaring.\<close>

definition seven_key :: "int \<Rightarrow> rsw_keypair" where
  "seven_key q = \<lparr>kN = Some (7 * q), kP = Some 7, kQ = Some q, kBits = bitLen (7 * q)\<rparr>"

definition rsw_options :: "int \<Rightarrow> 'st store_ops \<Rightarrow> 'st options" where
  "rsw_options q ops = with_defaults ops
     (zero_options\<lparr>oSecret := replicate 16 1, oFormat := 2, oRSWKeypair := Some (seven_key q), oRSWIterations := 1\<rparr>)"

lemma rsw_options_facts:
  "capStore (rsw_options q ops) = ops" "oSecret (rsw_options q ops) \<noteq> []" "oFormat (rsw_options q ops) = 2"
  "oRSWKeypair (rsw_options q ops) = Some (seven_key q)" "oRSWIterations (rsw_options q ops) = 1"
  "effectiveProtocols (rsw_options q ops) zero_challenge_options = [ProtocolRSW]"
  "challengeTTL (rsw_options q ops) zero_challenge_options = 600 * 10 ^ 9" "oTokenTTL (rsw_options q ops) = 1200 * 10 ^ 9"
  "own_tokens ops (rsw_options q ops)" "coFormat zero_challenge_options = 0"
  by (simp_all add: rsw_options_def own_tokens_def capStore_def effectiveProtocols_def instrumentationOptions_def
      challengeTTL_def with_defaults_def default_defs zero_options_def zero_challenge_options_def or_default_def const_defs)

lemma seven_key_strong: "is_prime q \<Longrightarrow> 7 < q \<Longrightarrow> strong_keypair 1 (seven_key q)"
  by (auto simp: strong_keypair_def seven_key_def dest: zdvd_imp_le)

lemma seven_key_valid:
  assumes "is_prime q" "2 ^ 1023 < q"
  shows "7 < q" "keypair_Validate is_prime (Some (seven_key q)) = Inr ()"
proof -
  have "(2 :: int) ^ 3 \<le> 2 ^ 1023" by (rule power_increasing) auto
  then show q7: "7 < q" using assms(2) by simp
  have "1024 \<le> bitLen (7 * q)" using assms(2) q7 by (intro bitLen_upper) linarith
  then show "keypair_Validate is_prime (Some (seven_key q)) = Inr ()"
    using assms(1) q7 is_prime_7 by (simp add: keypair_Validate_def seven_key_def)
qed

lemma seven_key_minter:
  assumes "is_prime q" "2 ^ 1023 < q" "length random = nat ((bitLen (7 * q) + 7) div 8)"
  obtains m where "NewRSWMinter is_prime (Some (seven_key q)) 1 (Some (random @ rest)) None = (Inr m, Some rest)" "rIterations m = 1"
proof -
  note q7 = seven_key_valid(1) [OF assms(1,2)] and v = seven_key_valid(2) [OF assms(1,2)]
  have "coprime (q mod 7) 7" using distinct_primes_coprime [OF assms(1) is_prime_7] q7 by simp
  then obtain i where i: "mod_inverse (q mod 7) 7 = Some i" using mod_inverse_coprime by blast
  have g: "randomIntRange (random @ rest) (7 * q) ((bitLen (7 * q) + 7) div 8) = (Inr (setBytes random mod \<bar>7 * q - 3\<bar> + 2), rest)"
    using q7 by (simp add: randomIntRange_def readFull_def assms(3) [symmetric] Let_def)
  show thesis
    using v i g by (intro that) (auto simp: NewRSWMinter_def Let_def seven_key_def)
qed

lemma rsw_world_runs:
  assumes "is_prime q" "2 ^ 1023 < q"
  obtains w ch w' n x where "w = fresh_world NewMemoryStore (replicate (nat ((bitLen (7 * q) + 7) div 8) + 106) 0) 1700000000000000000"
    "Challenge is_prime g (rsw_options q mem_ops) zero_challenge_options w = (Inr ch, w')" "46 \<le> length (wRandom w')"
    "nonces (wStore w') = Map.empty" "chFormat ch = 2" "chExpires ch = 1700000600000"
    "chChallenges ch = [\<lparr>eProtocol = ProtocolRSW, ePayload = RSWPayload n x 1\<rparr>]" "wMinters w' 1 \<noteq> None"
proof -
  let ?l = "nat ((bitLen (7 * q) + 7) div 8)" and ?c = "rsw_options q mem_ops :: memory_store options"
  define w :: "memory_store world" where "w = fresh_world NewMemoryStore (replicate (?l + 106) 0) 1700000000000000000"
  obtain w1 where w1: "lazyCleanup ?c w = (Inr (), w1)" "wRandom w1 = replicate ?l 0 @ replicate 106 0"
    "wClock w1 = (\<lambda>_. 1700000000000000000)" "nonces (wStore w1) = Map.empty" "wMinters w1 = Map.empty"
    using lazyCleanup_Inr [of ?c w]
    by (auto simp: w_def fresh_world_def replicate_add [symmetric] rsw_options_facts NewMemoryStore_def mem_Cleanup_def drop_expired_def)
  obtain m where m: "NewRSWMinter is_prime (Some (seven_key q)) 1 (Some (replicate ?l 0 @ replicate 106 0)) None = (Inr m, Some (replicate 106 0))"
    "rIterations m = 1"
    using seven_key_minter [OF assms, of "replicate ?l 0" "replicate 106 0"] by auto
  obtain w2 where "cap_minter is_prime ?c (w1\<lparr>wReads := Suc (wReads w1)\<rparr>) = (Inr m, w2)" "wRandom w2 = replicate 106 0"
    "wStore w2 = wStore w1" "wMinters w2 1 = Some m"
    using m(1) w1 by (simp add: cap_minter_def rsw_options_facts)
  with challengeV2_rsw_runs [OF rsw_options_facts(2,6) this(1), of g] m(2) obtain ch w' n x where
    "challengeV2 is_prime g ?c zero_challenge_options w1 = (Inr ch, w')" "wRandom w' = drop 60 (replicate 106 0)"
    "wStore w' = wStore w1" "chFormat ch = 2" "chChallenges ch = [\<lparr>eProtocol = ProtocolRSW, ePayload = RSWPayload n x 1\<rparr>]"
    "chExpires ch = unixMilli (wClock w1 (wReads w1)) + milliseconds (challengeTTL ?c zero_challenge_options)" "wMinters w' 1 = Some m"
    by auto
  then show thesis
    using w1 by (intro that [OF w_def, of ch w'])
      (simp_all add: Challenge_def andThen_runs Let_def rsw_options_facts unixMilli_def milliseconds_def)
qed

section \<open>Property\<close>

text \<open>
  Property C16. The cache of minters stays sound: whatever calls a \<open>Cap\<close> answers, in whatever order,
  every minter it keeps was built for the number of squarings it is kept under, and every puzzle it
  mints carries the answer that the squarings reach. The key's factors are prime and \<open>p - 1\<close> divides
  no \<open>2 ^ t\<close> for the configured \<open>t\<close>.
\<close>

theorem minters_stay_sound:
  assumes "\<And>n. pp n \<Longrightarrow> is_prime n" "\<And>k. oRSWKeypair c = Some k \<Longrightarrow> strong_keypair (oRSWIterations c) k"
    and "minters_ok (wMinters w)" "wMinters (snd (api_run pp g c as w)) t = Some m"
  shows "rIterations m = t \<and> (\<forall>raw minted rest. Mint m raw = (Inr minted, rest) \<longrightarrow>
    SolveRSW (mintN minted) (mintX minted) (mintIterations minted) = Inr (mintExpectedY minted))"
proof -
  have "minter_sound m \<and> rIterations m = t"
    using api_run_keeps [OF assms(1-3)] assms(4) by (auto simp: minters_ok_def)
  then show ?thesis using Mint_correct by (auto simp: minter_sound_def)
qed

theorem minters_stay_sound_witness:
  "\<exists>q w m raw minted rest. is_prime q
    \<and> wMinters (snd (api_run is_prime (\<lambda>r io now. (Inr None, r)) (rsw_options q mem_ops) [AChallenge zero_challenge_options] w)) 1 = Some m
    \<and> wMinters w = Map.empty \<and> Mint m raw = (Inr minted, rest)
    \<and> SolveRSW (mintN minted) (mintX minted) (mintIterations minted) = Inr (mintExpectedY minted)"
proof -
  let ?g = "\<lambda>r io now. (Inr None, r)"
  obtain q where q: "is_prime q" "int (2 ^ 1023) < q" using big_prime_exists by blast
  then have q2: "2 ^ 1023 < q" by simp
  have "(2 :: int) ^ 3 \<le> 2 ^ 1023" by (rule power_increasing) auto
  then have q7: "7 < q" using q2 by simp
  obtain w ch w' where w: "w = fresh_world NewMemoryStore (replicate (nat ((bitLen (7 * q) + 7) div 8) + 106) 0) 1700000000000000000"
    "Challenge is_prime ?g (rsw_options q mem_ops) zero_challenge_options w = (Inr ch, w')" "wMinters w' 1 \<noteq> None"
    by (rule rsw_world_runs [OF q(1) q2, of ?g]) metis
  then have "snd (api_run is_prime ?g (rsw_options q mem_ops) [AChallenge zero_challenge_options] w) = w'" by (simp add: Let_def)
  with w(3) obtain m where m: "wMinters (snd (api_run is_prime ?g (rsw_options q mem_ops) [AChallenge zero_challenge_options] w)) 1 = Some m"
    by auto
  have e: "wMinters w = Map.empty" using w(1) by (simp add: fresh_world_def)
  obtain minted rest where mt: "Mint m (replicate 32 1) = (Inr minted, rest)"
    by (simp add: Mint_def readFull_enough Let_def)
  have "\<And>k. oRSWKeypair (rsw_options q mem_ops) = Some k \<Longrightarrow> strong_keypair (oRSWIterations (rsw_options q mem_ops)) k"
    using seven_key_strong [OF q(1) q7] by (simp add: rsw_options_facts)
  from minters_stay_sound [OF _ this _ m] e mt have
    "SolveRSW (mintN minted) (mintX minted) (mintIterations minted) = Inr (mintExpectedY minted)"
    by (auto simp: minters_ok_empty)
  then show ?thesis using q(1) m e mt by blast
qed

end
