(* ===== verification/Signed_Flow.thy ===== *)
theory Signed_Flow
  imports Flow Signed Minters
begin

text \<open>
  Honest sessions on signed challenges: what \<open>challengeSigned\<close> and \<open>challengeV2\<close> put into the token
  comes out of it at redemption, and the solutions of the Go client verify against it.
\<close>

section \<open>Into the token and out of it\<close>

lemma ascii_url: "ascii (raw_url_encode bs)"
proof -
  have "list_all (\<lambda>c. of_char c < (128 :: nat)) url_alphabet" by (simp add: url_alphabet_def b64_common_def)
  then show ?thesis using set_raw_url_encode [of bs] by (auto simp: ascii_def list_all_iff)
qed

lemma encryptGCM_Inr:
  assumes "encryptGCM secret info plaintext random = (Inr ev, rest)"
  shows "decryptGCM secret info ev = Some plaintext \<and> ascii ev"
proof -
  have "12 \<le> length random"
    using assms by (auto simp: encryptGCM_def readFull_def split: if_splits)
  from decrypt_encrypt [OF this, of secret info plaintext] have "decryptGCM secret info ev = Some plaintext" using assms by auto
  moreover have "ascii ev"
    using assms ascii_url by (auto simp: encryptGCM_def readFull_def Let_def split: if_splits)
  ultimately show ?thesis ..
qed

lemma token_claims_of_sign:
  assumes "claims_wire claims" "repair (tSk claims) = tSk claims"
  shows "\<exists>key. token_claims_of secret (jwtSign (str_bytes (enc_claims claims)) secret) = Some (claims, key)"
proof -
  have "enc_claims claims \<noteq> []" by (simp add: enc_claims_def enc_object_hd)
  then have "str_bytes (enc_claims claims) \<noteq> []" by (simp add: str_bytes_def)
  moreover have "unmarshal dec_claims (enc_claims claims) zero_claims = Some claims"
    using dec_claims_enc [OF assms(1)] assms(2) by simp
  ultimately show ?thesis by (simp add: token_claims_of_def jwtVerify_sign)
qed

lemma jwtSign_dot: "contains_char (jwtSign payload secret) (CHR ''.'')"
  by (simp add: jwtSign_def Let_def contains_char_def)

lemma jwtVerify_dot: "jwtVerify token secret = Some r \<Longrightarrow> contains_char token (CHR ''.'')"
  by (rule ccontr) (simp add: contains_char_def split_on_no_sep jwtVerify_def)

text \<open>The claims that the two kinds of signed challenge carry.\<close>

definition v1_claims :: "challenge \<Rightarrow> challenge_options \<Rightarrow> string \<Rightarrow> int \<Rightarrow> token_claims" where
  "v1_claims ch co n now =
     zero_claims\<lparr>tN := n, tC := chCount ch, tS := chSize ch, tD := chDifficulty ch, tExp := chExpires ch, tIat := now,
       tSk := coScope co, tX := coExtra co\<rparr>"

definition v2_claims :: "challenge \<Rightarrow> challenge_options \<Rightarrow> string \<Rightarrow> int \<Rightarrow> string \<Rightarrow> token_claims" where
  "v2_claims ch co n now ev =
     zero_claims\<lparr>tF := 2, tN := n, tExp := chExpires ch, tIat := now, tSk := coScope co, tX := coExtra co, tEv := ev\<rparr>"

lemma challengeSigned_token:
  assumes "challengeSigned g c co w = (Inr ch, w')" "instrumentationOptions c co = None"
  obtains n where "chToken ch = jwtSign (str_bytes (enc_claims (v1_claims ch co n (unixMilli (wClock w (wReads w)))))) (oSecret c)"
    "ascii n" "wClock w' = wClock w" "wReads w' = Suc (wReads w)" "wStore w' = wStore w" "chFormat ch = 1"
    "chExpires ch = unixMilli (wClock w (wReads w)) + milliseconds (challengeTTL c co)"
    "validatePoWParams (chCount ch) (chSize ch) (chDifficulty ch) = None"
  using assms(1) unfolding challengeSigned_def Let_def generateInstrumentation_def assms(2)
  by (auto elim!: andThen_InrE simp: case_prod_run readNow_Inr withRandom_Inr zero_challenge_def v1_claims_def zero_claims_def
      dest!: randomHex_Inr powParams_Inr split: prod.splits if_splits)
    (blast intro: hex_ascii)

lemma challengeV2_token:
  assumes "challengeV2 pp g c co w = (Inr ch, w')" "\<And>m. wMinters w' (oRSWIterations c) = Some m \<Longrightarrow> minter_sound m"
  obtains n ev expected where
    "chToken ch = jwtSign (str_bytes (enc_claims (v2_claims ch co n (unixMilli (wClock w (wReads w))) ev))) (oSecret c)"
    "ascii n" "ascii ev" "decryptGCM (oSecret c) ''cap:fmt2-v1'' ev = Some (str_bytes (enc_envelope expected))"
    "list_all2 answered (chChallenges ch) expected" "chChallenges ch \<noteq> []" "chFormat ch = 2"
    "chExpires ch = unixMilli (wClock w (wReads w)) + milliseconds (challengeTTL c co)"
proof -
  let ?now = "wClock w (wReads w)" and ?w = "w\<lparr>wReads := Suc (wReads w)\<rparr>"
  let ?expires = "unixMilli ?now + milliseconds (challengeTTL c co)"
  from assms(1) obtain entries expected w1 where p: "all_puzzles pp g c co (challengeTTL c co) ?now ?expires (effectiveProtocols c co) ([], []) ?w
      = (Inr (entries, expected), w1)"
    and rest: "(if entries = [] then throw (configErr ''no protocols configured'')
       else andThen (withRandom (encryptGCM (oSecret c) ''cap:fmt2-v1'' (str_bytes (enc_envelope expected)))) (\<lambda>ev.
            andThen (withRandom (\<lambda>random. randomHex random 16)) (\<lambda>nonce.
              ret (zero_challenge\<lparr>chFormat := 2, chToken := jwtSign (str_bytes (enc_claims (zero_claims\<lparr>tF := 2, tN := nonce, tExp := ?expires,
                     tIat := unixMilli ?now, tSk := coScope co, tX := coExtra co, tEv := ev\<rparr>))) (oSecret c),
                     chExpires := ?expires, chScope := coScope co, chChallenges := entries\<rparr>)))) w1 = (Inr ch, w')"
    by (auto simp: challengeV2_def Let_def run elim!: andThen_InrE split: if_splits)
  then obtain ev nonce random rest1 random' rest2 where e: "encryptGCM (oSecret c) ''cap:fmt2-v1'' (str_bytes (enc_envelope expected)) random = (Inr ev, rest1)"
    "randomHex random' 16 = (Inr nonce, rest2)" "wMinters w' = wMinters w1"
    and ch: "ch = zero_challenge\<lparr>chFormat := 2, chToken := jwtSign (str_bytes (enc_claims (zero_claims\<lparr>tF := 2, tN := nonce, tExp := ?expires,
                     tIat := unixMilli ?now, tSk := coScope co, tX := coExtra co, tEv := ev\<rparr>))) (oSecret c),
                     chExpires := ?expires, chScope := coScope co, chChallenges := entries\<rparr>"
    by (auto elim!: andThen_InrE simp: withRandom_Inr split: if_splits)
  have "list_all2 answered entries expected"
    using all_puzzles_answered [OF p] assms(2) e(3) by simp
  moreover have "ascii nonce" using randomHex_Inr [OF e(2)] hex_ascii by blast
  ultimately show thesis
    using encryptGCM_Inr [OF e(1)] ch rest by (intro that [of nonce ev expected]) (auto simp: v2_claims_def split: if_splits)
qed

text \<open>
  An honest session on a signed challenge: the clock never runs before the epoch, the expiry fits
  64 bits, the scope and the extra data have a JSON form, nobody has claimed the token yet and there
  is entropy for the new one.
\<close>

definition unclaimed :: "('st \<Rightarrow> string \<Rightarrow> int option) \<Rightarrow> 'st options \<Rightarrow> string \<Rightarrow> 'st \<Rightarrow> bool" where
  "unclaimed nonce c token s \<longleftrightarrow>
     (case token_claims_of (oSecret c) token of Some (_, key) \<Rightarrow> nonce s key = None | None \<Rightarrow> True)"

definition signable :: "(nat \<Rightarrow> int) \<Rightarrow> challenge_options \<Rightarrow> challenge \<Rightarrow> bool" where
  "signable clock co ch \<longleftrightarrow>
     (\<forall>i. 0 \<le> unixMilli (clock i)) \<and> chExpires ch < 2 ^ 63 \<and> repair (coScope co) = coScope co \<and> extra_ok (coExtra co)"

lemma signable_claims:
  assumes "signable clock co ch" "session clock c co" "chExpires ch = unixMilli (clock i) + milliseconds (challengeTTL c co)" "ascii n"
  shows "validatePoWParams (chCount ch) (chSize ch) (chDifficulty ch) = None \<Longrightarrow> claims_wire (v1_claims ch co n (unixMilli (clock i)))"
    and "ascii ev \<Longrightarrow> claims_wire (v2_claims ch co n (unixMilli (clock i)) ev)"
    and "0 < chExpires ch" "\<And>j. unixMilli (clock j) < chExpires ch"
proof -
  show before: "unixMilli (clock j) < chExpires ch" for j using session_before(1) [OF assms(2)] assms(3) by simp
  have w: "0 \<le> unixMilli (clock i)" "chExpires ch < 2 ^ 63" using assms(1) by (auto simp: signable_def)
  then have now: "int64 (unixMilli (clock i))" "int64 (chExpires ch)" using before [of i] by (simp_all add: int64_def)
  show "0 < chExpires ch" using w before [of i] by linarith
  show "claims_wire (v1_claims ch co n (unixMilli (clock i)))" if "validatePoWParams (chCount ch) (chSize ch) (chDifficulty ch) = None"
    using that now assms(1,4)
    by (simp add: claims_wire_def v1_claims_def zero_claims_def signable_def validatePoWParams_None) (simp add: int64_def)
  show "claims_wire (v2_claims ch co n (unixMilli (clock i)) ev)" if "ascii ev"
    using that now assms(1,4) by (simp add: claims_wire_def v2_claims_def zero_claims_def signable_def) (simp add: int64_def)
qed

lemma Challenge_format2:
  assumes "Challenge pp g c co w = (Inr ch, w')" "chFormat ch = 2"
  obtains w1 where "challengeV2 pp g c co w1 = (Inr ch, w')" "wClock w1 = wClock w"
proof -
  obtain w1 where w1: "lazyCleanup c w = (Inr (), w1)" "wClock w1 = wClock w" using lazyCleanup_live [of c w] by auto
  have "challengeStored g c co w1 \<noteq> (Inr ch, w')" "challengeSigned g c co w1 \<noteq> (Inr ch, w')"
    using assms(2) by (auto elim: challengeStored_shape challengeSigned_shape)
  then show thesis
    using assms(1) w1 that by (auto simp: Challenge_def Let_def andThen_runs split: if_splits)
qed

lemma Challenge_signed1:
  assumes "Challenge pp g c co w = (Inr ch, w')" "chFormat ch = 1" "contains_char (chToken ch) (CHR ''.'')"
  obtains w1 where "challengeSigned g c co w1 = (Inr ch, w')" "wClock w1 = wClock w"
proof -
  obtain w1 where w1: "lazyCleanup c w = (Inr (), w1)" "wClock w1 = wClock w" using lazyCleanup_live [of c w] by auto
  have "challengeStored g c co w1 \<noteq> (Inr ch, w')"
    using assms(3) by (auto elim!: challengeStored_shape dest: hex_no_punctuation(2) simp: contains_char_def)
  moreover have "challengeV2 pp g c co w1 \<noteq> (Inr ch, w')" using assms(2) by (auto dest: challengeV2_shape)
  ultimately show thesis
    using assms(1) w1 that by (auto simp: Challenge_def Let_def andThen_runs split: if_splits)
qed

text \<open>Format 2: what the client computes for every public entry meets the sealed expectation.\<close>

lemma format2_claims:
  assumes "Challenge pp g c co w = (Inr ch, w')" "session (wClock w) c co"
    and "\<And>m. wMinters w' (oRSWIterations c) = Some m \<Longrightarrow> minter_sound m" "signable (wClock w) co ch" "chFormat ch = 2"
    and solved: "SolveChallenge ch = Some (Inr solutions)" "list_all small_nonce (chChallenges ch)"
  obtains claims key where "token_claims_of (oSecret c) (chToken ch) = Some (claims, key)" "tExp claims = chExpires ch"
    "tSk claims = coScope co" "0 < chExpires ch" "\<forall>j. unixMilli (wClock w j) < chExpires ch" "solutions \<noteq> []"
    "\<forall>now. verifySigned c claims (plain_request (chToken ch) solutions) now = None"
proof -
  obtain w1 where w1: "challengeV2 pp g c co w1 = (Inr ch, w')" "wClock w1 = wClock w"
    using Challenge_format2 [OF assms(1,5)] by blast
  from challengeV2_token [OF w1(1) assms(3)] obtain n ev expected where n:
    "chToken ch = jwtSign (str_bytes (enc_claims (v2_claims ch co n (unixMilli (wClock w (wReads w1))) ev))) (oSecret c)"
    "ascii n" "ascii ev" "decryptGCM (oSecret c) ''cap:fmt2-v1'' ev = Some (str_bytes (enc_envelope expected))"
    "list_all2 answered (chChallenges ch) expected" "chChallenges ch \<noteq> []"
    "chExpires ch = unixMilli (wClock w (wReads w1)) + milliseconds (challengeTTL c co)"
    unfolding w1(2) by blast
  let ?claims = "v2_claims ch co n (unixMilli (wClock w (wReads w1))) ev"
  note s = signable_claims [OF assms(4,2) n(7,2)]
  have "repair (tSk ?claims) = tSk ?claims" using assms(4) by (simp add: v2_claims_def signable_def)
  then obtain key where key: "token_claims_of (oSecret c) (chToken ch) = Some (?claims, key)"
    unfolding n(1) using token_claims_of_sign [OF s(2) [OF n(3)]] by blast
  obtain ss where ss: "solve_entries (chChallenges ch) = Some (Inr ss)" "solutions = enc_array ss"
    using solved(1) assms(5) by (auto simp: SolveChallenge_def split: option.splits sum.splits)
  have v: "verify_entries expected ss now = None" "length ss = length expected" "\<forall>s \<in> set ss. value_text json_depth s"
    "list_all expected_wire expected" for now
    using verify_all_solved [OF n(5) ss(1) solved(2)] by blast+
  have "expected \<noteq> []" using n(5,6) by auto
  then have "unmarshal dec_envelope (enc_envelope expected) None = Some (Some expected)" by (rule dec_envelope_enc [OF v(4)])
  then have "verifySigned c ?claims (plain_request (chToken ch) solutions) now = None" for now
    using n(4) v unmarshal_raws [OF v(3)] ss(2)
    by (simp add: verifySigned_def verifyV2_def v2_claims_def plain_request_def)
  moreover have "solutions \<noteq> []" by (simp add: ss(2) enc_array_def)
  ultimately show thesis using s(3,4) by (intro that [OF key]) (simp_all add: v2_claims_def)
qed

context live_store
begin

lemma Redeem_signed_live:
  assumes "own_tokens S c" "oSecret c \<noteq> []" "token_claims_of (oSecret c) (rqToken req) = Some (claims, key)"
    and "contains_char (rqToken req) (CHR ''.'')" "rqSolutions req \<noteq> []" "roScope ro = [] \<or> tSk claims = roScope ro"
    and "tExp claims \<noteq> 0" "unixMilli (wClock w (Suc (wReads w))) \<le> tExp claims"
    and "verifySigned c claims req (unixMilli (wClock w (Suc (wReads w)))) = None"
    and "\<And>e. nonce (wStore w) key = Some e \<Longrightarrow> e \<le> unixMilli (wClock w (Suc (wReads w)))" "23 \<le> length (wRandom w)"
  shows "redeemed_ok tok c req ro w (tSk claims) (tIat claims)"
proof -
  let ?now = "unixMilli (wClock w (Suc (wReads w)))"
  obtain w1 where w1: "lazyCleanup c w = (Inr (), w1)" "wRandom w1 = wRandom w" "wClock w1 = wClock w" "wReads w1 = Suc (wReads w)"
    "wStore w1 = wStore w \<or> wStore w1 = snd (StoreCleanup S (unixMilli (wClock w (wReads w))) (wStore w))"
    using lazyCleanup_live [of c w] assms(1) by auto
  have "nonce (wStore w1) \<subseteq>\<^sub>m nonce (wStore w)" using w1(5) cleanup_live(3) by auto
  then have "e \<le> ?now" if "nonce (wStore w1) key = Some e" for e
    using that assms(10) by (auto simp: map_le_def dom_def)
  then have claim: "fst (ClaimNonce S key (tExp claims) ?now (wStore w1)) = Inr True" by (rule claim_free)
  let ?w2 = "w1\<lparr>wReads := Suc (Suc (wReads w))\<rparr>"
  let ?w3 = "if roSkipNonce ro then ?w2 else ?w2\<lparr>wStore := snd (ClaimNonce S key (tExp claims) ?now (wStore w1))\<rparr>"
  have "23 \<le> length (wRandom ?w3)" using assms(11) w1 by simp
  from issue_live [OF assms(1) this, of "tSk claims" ?now "tIat claims"] obtain k tkey w' where k:
    "issueToken c (tSk claims) ?now (tIat claims) ?w3 = (Inr k, w')" "TokenKey (kToken k) = Some tkey"
    "tok (wStore w') tkey = Some \<lparr>tScope = tSk claims, tExpires = kExpires k\<rparr>" "kScope k = tSk claims" "kIssuedAt k = tIat claims"
    "kExpires k = ?now + milliseconds (oTokenTTL c)" "wClock w' = wClock ?w3" "wReads w' = wReads ?w3"
    by metis
  obtain payload sigHex where j: "jwtVerify (rqToken req) (oSecret c) = Some (payload, sigHex)" "key = ''nonce:'' @ sigHex"
    "unmarshal dec_claims (bytes_str payload) zero_claims = Some claims"
    using assms(3) by (auto simp: token_claims_of_def split: option.splits)
  have mapClaim: "mapError h (withStore (ClaimNonce S key (tExp claims) ?now)) ?w2
      = (Inr True, ?w2\<lparr>wStore := snd (ClaimNonce S key (tExp claims) ?now (wStore w1))\<rparr>)" for h
    using claim by (simp add: mapError_def withStore_def Let_def)
  have guard: "(if roSkipNonce ro then ret ()
       else andThen (mapError (storeErr ReasonNonceStoreError) (withStore (ClaimNonce S (''nonce:'' @ sigHex) (tExp claims) ?now)))
            (\<lambda>claimed. if claimed then ret () else throw (fail ReasonAlreadyRedeemed))) ?w2 = (Inr (), ?w3)"
    using mapClaim j(2) by (simp add: run)
  have "redeemSigned c req ro w1 = (Inr k, w')"
    using assms(1,2,6,7,8,9) j k(1) w1(3,4) guard
    by (auto simp: redeemSigned_def Let_def verifySigned_def run not_less)
  moreover have "rqToken req \<noteq> []" using assms(4) by (auto simp: contains_char_def)
  ultimately have "Redeem c req ro w = (Inr k, w')"
    using assms(4,5) w1(1) by (simp add: Redeem_def andThen_runs)
  then show ?thesis using k w1 unfolding redeemed_ok_def by auto
qed

lemma signed_flow:
  assumes "own_tokens S c" "Challenge pp g c co w = (Inr ch, w')" "oSecret c \<noteq> []" "session (wClock w) c co"
    and "unclaimed nonce c (chToken ch) (wStore w')" "23 \<le> length (wRandom w')" "solutions \<noteq> []"
    and claims: "token_claims_of (oSecret c) (chToken ch) = Some (claims, key)" "tExp claims = chExpires ch" "tSk claims = coScope co"
    and "0 < chExpires ch" "\<And>j. unixMilli (wClock w j) < chExpires ch"
    and "\<And>now. verifySigned c claims (plain_request (chToken ch) solutions) now = None"
  shows "\<exists>k w''. Redeem c (plain_request (chToken ch) solutions) \<lparr>roScope = coScope co, roSkipNonce = False\<rparr> w' = (Inr k, w'')
    \<and> kScope k = coScope co \<and> validates_once c k w''"
proof -
  let ?req = "plain_request (chToken ch) solutions" and ?ro = "\<lparr>roScope = coScope co, roSkipNonce = False\<rparr>"
  obtain payload sigHex where "jwtVerify (chToken ch) (oSecret c) = Some (payload, sigHex)"
    using claims(1) by (auto simp: token_claims_of_def split: option.splits)
  then have dot: "contains_char (chToken ch) (CHR ''.'')" by (rule jwtVerify_dot)
  have clock: "wClock w' = wClock w"
    using api_clock [OF own(2,3) [OF assms(1)], of pp g "AChallenge co" w] assms(2) by (simp add: answer_def)
  have n: "nonce (wStore w') key = None" using assms(5) claims(1) by (simp add: unclaimed_def)
  have "redeemed_ok tok c ?req ?ro w' (tSk claims) (tIat claims)"
    by (rule Redeem_signed_live [OF assms(1,3), where key = key])
      (use claims dot clock assms less_imp_le [OF assms(12)] in \<open>simp_all add: plain_request_def n\<close>)
  then show ?thesis using redeemed_validates [OF assms(1)] claims(3) assms(4) clock by simp
qed

text \<open>Format 1, signed: the client's nonces verify against the token the challenge carries.\<close>

lemma signed_flow1:
  assumes "own_tokens S c" "Challenge pp g c co w = (Inr ch, w')" "oSecret c \<noteq> []" "session (wClock w) c co"
    and "unclaimed nonce c (chToken ch) (wStore w')" "23 \<le> length (wRandom w')"
    and "instrumentationOptions c co = None" "signable (wClock w) co ch" "chFormat ch = 1" "contains_char (chToken ch) (CHR ''.'')"
    and solved: "SolveChallenge ch = Some (Inr (enc_array (map itoa sols)))" "list_all (\<lambda>n. n < 2 ^ 53) sols"
  shows "\<exists>k w''. Redeem c (plain_request (chToken ch) (enc_array (map itoa sols))) \<lparr>roScope = coScope co, roSkipNonce = False\<rparr> w' = (Inr k, w'')
    \<and> kScope k = coScope co \<and> validates_once c k w''"
proof -
  obtain w1 where w1: "challengeSigned g c co w1 = (Inr ch, w')" "wClock w1 = wClock w"
    using Challenge_signed1 [OF assms(2,9,10)] by blast
  from challengeSigned_token [OF w1(1) assms(7)] obtain n where n:
    "chToken ch = jwtSign (str_bytes (enc_claims (v1_claims ch co n (unixMilli (wClock w (wReads w1)))))) (oSecret c)"
    "ascii n" "chExpires ch = unixMilli (wClock w (wReads w1)) + milliseconds (challengeTTL c co)"
    "validatePoWParams (chCount ch) (chSize ch) (chDifficulty ch) = None"
    unfolding w1(2) by blast
  let ?claims = "v1_claims ch co n (unixMilli (wClock w (wReads w1)))"
  note s = signable_claims [OF assms(8,4) n(3,2)]
  have "repair (tSk ?claims) = tSk ?claims" using assms(8) by (simp add: v1_claims_def signable_def)
  then obtain key where key: "token_claims_of (oSecret c) (chToken ch) = Some (?claims, key)"
    unfolding n(1) using token_claims_of_sign [OF s(1) [OF n(4)]] by blast
  have "chFormat ch \<noteq> 2" using assms(9) by simp
  from solve_format1 [OF this solved(1)] obtain ns where ns: "enc_array (map itoa sols) = enc_array (map itoa ns)"
    "list_all (\<lambda>n. 0 \<le> n) ns" "verifyFormat1 (chToken ch) (chCount ch) (chSize ch) (chDifficulty ch) (map itoa ns) = None"
    by metis
  have ns': "ns = sols" using enc_array_itoa_inj [OF ns(1)] by simp
  have "list_all (\<lambda>i. \<bar>i\<bar> < 2 ^ 53) sols" using ns(2) solved(2) unfolding ns' by (auto simp: list_all_iff)
  then have p: "parseFormat1Solutions (enc_array (map itoa sols)) = Some (map itoa sols)" by (rule parseFormat1Solutions_itoa)
  have "verifySigned c ?claims (plain_request (chToken ch) (enc_array (map itoa sols))) now = None" for now
    using ns(3) p n(4) ns' by (simp add: verifySigned_def verifySignedV1_def v1_claims_def zero_claims_def plain_request_def)
  moreover have "enc_array (map itoa sols) \<noteq> []" by (simp add: enc_array_def)
  ultimately show ?thesis
    by (intro signed_flow [OF assms(1-6) _ key _ _ s(3,4)]) (simp_all add: v1_claims_def)
qed

text \<open>Format 2, by the claims of the token.\<close>

lemma signed_flow2:
  assumes "own_tokens S c" "Challenge pp g c co w = (Inr ch, w')" "oSecret c \<noteq> []" "session (wClock w) c co"
    and "unclaimed nonce c (chToken ch) (wStore w')" "23 \<le> length (wRandom w')"
    and "\<And>m. wMinters w' (oRSWIterations c) = Some m \<Longrightarrow> minter_sound m" "signable (wClock w) co ch" "chFormat ch = 2"
    and solved: "SolveChallenge ch = Some (Inr solutions)" "list_all small_nonce (chChallenges ch)"
  shows "\<exists>k w''. Redeem c (plain_request (chToken ch) solutions) \<lparr>roScope = coScope co, roSkipNonce = False\<rparr> w' = (Inr k, w'')
    \<and> kScope k = coScope co \<and> validates_once c k w''"
  using format2_claims [OF assms(2,4,7,8,9) solved] signed_flow [OF assms(1-6)] by metis

text \<open>A signed redemption leaves the key in the store until the token's expiry, and reads the clock twice.\<close>

lemma signed_redeem_leaves:
  assumes "own_tokens S c" "Redeem c req ro w = (Inr k, w')" "token_claims_of (oSecret c) (rqToken req) = Some (claims, key)"
    and "contains_char (rqToken req) (CHR ''.'')" "\<not> roSkipNonce ro" "23 \<le> length (wRandom w)"
  shows "nonce (wStore w') key = Some (tExp claims) \<and> wRandom w' = drop 23 (wRandom w) \<and> wClock w' = wClock w"
proof -
  obtain w1 where w1: "redeemSigned c req ro w1 = (Inr k, w')" "wClock w1 = wClock w" "wRandom w1 = wRandom w"
    using Redeem_signed_InrE [OF assms(2,4)] by metis
  obtain now w2 where w2: "fst (ClaimNonce S key (tExp claims) now (wStore w1)) = Inr True"
    "w2 = w1\<lparr>wReads := Suc (wReads w1), wStore := snd (ClaimNonce S key (tExp claims) now (wStore w1))\<rparr>"
    "issueToken c (tSk claims) now (tIat claims) w2 = (Inr k, w')"
    by (rule redeemSigned_InrE [OF w1(1)]) (use assms(1,3,5) in auto)
  have "23 \<le> length (wRandom w2)" using w2(2) w1(3) assms(6) by simp
  from issueToken_runs [OF own(2) [OF assms(1)] this, where scope = "tSk claims" and nowMs = now and iat = "tIat claims"] put_token_get(1) assms(1) obtain u k' where
    "issueToken c (tSk claims) now (tIat claims) w2 = (Inr k', w2\<lparr>wRandom := drop 23 (wRandom w2),
       wStore := snd (PutToken S u \<lparr>tScope = tSk claims, tExpires = kExpires k'\<rparr> (wStore w2))\<rparr>)"
    by auto
  with w2(3) have "w2\<lparr>wRandom := drop 23 (wRandom w2),
       wStore := snd (PutToken S u \<lparr>tScope = tSk claims, tExpires = kExpires k'\<rparr> (wStore w2))\<rparr> = w'" by auto
  then show ?thesis using w1 w2 claim_True [OF w2(1)] by auto
qed

text \<open>The instant of expiry: the token still counts as live, its nonce does not.\<close>

lemma replay_at_expiry:
  assumes "own_tokens S c" "oSecret c \<noteq> []" "token_claims_of (oSecret c) (rqToken req) = Some (claims, key)"
    and "contains_char (rqToken req) (CHR ''.'')" "rqSolutions req \<noteq> []" "roScope ro = [] \<or> tSk claims = roScope ro" "\<not> roSkipNonce ro"
    and "tExp claims \<noteq> 0" "\<And>i. unixMilli (wClock w i) = tExp claims" "verifySigned c claims req (tExp claims) = None"
    and "nonce (wStore w) key = None" "46 \<le> length (wRandom w)"
  shows "\<exists>k1 w1 k2 w2. Redeem c req ro w = (Inr k1, w1) \<and> Redeem c req ro w1 = (Inr k2, w2)"
proof -
  have "redeemed_ok tok c req ro w (tSk claims) (tIat claims)"
    by (rule Redeem_signed_live [OF assms(1-6,8)]) (use assms in simp_all)
  then obtain k1 w1 where r1: "Redeem c req ro w = (Inr k1, w1)" unfolding redeemed_ok_def by blast
  from signed_redeem_leaves [OF assms(1) r1 assms(3,4,7)] assms(12)
  have w1: "nonce (wStore w1) key = Some (tExp claims)" "wRandom w1 = drop 23 (wRandom w)" "wClock w1 = wClock w" by simp_all
  have "redeemed_ok tok c req ro w1 (tSk claims) (tIat claims)"
    by (rule Redeem_signed_live [OF assms(1-6,8)]) (use assms w1 in simp_all)
  with r1 show ?thesis unfolding redeemed_ok_def by blast
qed

end

section \<open>A session in full\<close>

text \<open>One squaring modulo seven times a large prime: a challenge, its solution and its claims.\<close>

lemma rsw_session:
  obtains q w ch w' solutions claims key where "is_prime q"
    "w = fresh_world NewMemoryStore (replicate (nat ((bitLen (7 * q) + 7) div 8) + 106) 0) 1700000000000000000"
    "Challenge is_prime (\<lambda>r io now. (Inr None, r)) (rsw_options q mem_ops) zero_challenge_options w = (Inr ch, w')"
    "chFormat ch = 2" "\<And>k. oRSWKeypair (rsw_options q mem_ops) = Some k \<Longrightarrow> strong_keypair (oRSWIterations (rsw_options q mem_ops)) k"
    "minters_ok (wMinters w)" "SolveChallenge ch = Some (Inr solutions)" "list_all small_nonce (chChallenges ch)"
    "session (wClock w) (rsw_options q mem_ops) zero_challenge_options" "signable (wClock w) zero_challenge_options ch"
    "nonces (wStore w') = Map.empty" "46 \<le> length (wRandom w')" "wClock w' = (\<lambda>_. 1700000000000000000)"
    "token_claims_of (oSecret (rsw_options q mem_ops)) (chToken ch) = Some (claims, key)" "tExp claims = 1700000600000" "tSk claims = []"
    "solutions \<noteq> []" "\<forall>now. verifySigned (rsw_options q mem_ops) claims (plain_request (chToken ch) solutions) now = None"
    "contains_char (chToken ch) (CHR ''.'')"
    "\<exists>k w''. Redeem (rsw_options q mem_ops) (plain_request (chToken ch) solutions) \<lparr>roScope = [], roSkipNonce = False\<rparr> w' = (Inr k, w'')"
    "2 ^ 1023 < q"
proof -
  let ?g = "\<lambda>r io now. (Inr None, r)" and ?co = zero_challenge_options
  obtain q where q: "is_prime q" "int (2 ^ 1023) < q" using big_prime_exists by blast
  then have q2: "2 ^ 1023 < q" by simp
  let ?c = "rsw_options q mem_ops"
  have "(2 :: int) ^ 3 \<le> 2 ^ 1023" by (rule power_increasing) auto
  then have strong: "\<And>k. oRSWKeypair ?c = Some k \<Longrightarrow> strong_keypair (oRSWIterations ?c) k"
    using seven_key_strong [OF q(1)] q2 by (simp add: rsw_options_facts)
  obtain w ch w' n x where w: "w = fresh_world NewMemoryStore (replicate (nat ((bitLen (7 * q) + 7) div 8) + 106) 0) 1700000000000000000"
    "Challenge is_prime ?g ?c ?co w = (Inr ch, w')" "46 \<le> length (wRandom w')"
    "nonces (wStore w') = Map.empty" "chFormat ch = 2" "chExpires ch = 1700000600000"
    "chChallenges ch = [\<lparr>eProtocol = ProtocolRSW, ePayload = RSWPayload n x 1\<rparr>]"
    by (rule rsw_world_runs [OF q(1) q2, of ?g])
  have ok: "minters_ok (wMinters w)" by (simp add: w(1) fresh_world_def minters_ok_empty)
  have "keeps minters_ok (Challenge is_prime ?g ?c ?co)" by (rule keeps_Challenge [OF cap_minter_keeps [OF _ strong]])
  from keepsD [OF this w(2) ok] have "minters_ok (wMinters w')" .
  then have m: "\<And>m. wMinters w' (oRSWIterations ?c) = Some m \<Longrightarrow> minter_sound m" by (auto simp: minters_ok_def)
  obtain w1 where v2: "challengeV2 is_prime ?g ?c ?co w1 = (Inr ch, w')" using Challenge_format2 [OF w(2,5)] by blast
  obtain expected where "list_all2 answered (chChallenges ch) expected" by (rule challengeV2_token [OF v2 m]) auto
  then obtain e where "answered \<lparr>eProtocol = ProtocolRSW, ePayload = RSWPayload n x 1\<rparr> e" unfolding w(7) by (auto simp: list_all2_Cons1)
  then have "\<exists>s. solve_entry \<lparr>eProtocol = ProtocolRSW, ePayload = RSWPayload n x 1\<rparr> = Some (Inr s)" by (auto simp: answered_def)
  then obtain solutions where sol: "SolveChallenge ch = Some (Inr solutions)"
    using w(5,7) by (auto simp: SolveChallenge_def simp del: solve_entry.simps)
  have clock: "wClock w = (\<lambda>_. 1700000000000000000)" by (simp add: w(1) fresh_world_def)
  have session: "session (wClock w) ?c ?co"
    unfolding session_def clock rsw_options_facts
    by (rule exI [of _ 1700000000000]) (simp add: unixMilli_def milliseconds_def)
  have signable: "signable (wClock w) ?co ch"
    unfolding signable_def clock w(6) by (simp add: unixMilli_def zero_challenge_options_def extra_ok_def)
  have small: "list_all small_nonce (chChallenges ch)" by (simp add: w(7) small_nonce_def)
  obtain claims key where c:
    "token_claims_of (oSecret ?c) (chToken ch) = Some (claims, key)" "tExp claims = chExpires ch" "tSk claims = coScope ?co" "solutions \<noteq> []"
    "\<forall>now. verifySigned ?c claims (plain_request (chToken ch) solutions) now = None"
    by (rule format2_claims [OF w(2) session m signable w(5) sol small])
  obtain payload sigHex where "jwtVerify (chToken ch) (oSecret ?c) = Some (payload, sigHex)"
    using c(1) by (auto simp: token_claims_of_def split: option.splits)
  then have dot: "contains_char (chToken ch) (CHR ''.'')" by (rule jwtVerify_dot)
  have clock': "wClock w' = wClock w"
    using api_clock [OF mem.own(2,3) [OF rsw_options_facts(9)], of is_prime ?g q "AChallenge ?co" w] w(2) by (simp add: answer_def)
  have "redeemed_ok tokens ?c (plain_request (chToken ch) solutions) \<lparr>roScope = [], roSkipNonce = False\<rparr> w' (tSk claims) (tIat claims)"
    by (rule mem.Redeem_signed_live [OF rsw_options_facts(9,2), where claims = claims and key = key])
      (use c w clock clock' dot in \<open>simp_all add: plain_request_def unixMilli_def\<close>)
  then have red: "\<exists>k w''. Redeem ?c (plain_request (chToken ch) solutions) \<lparr>roScope = [], roSkipNonce = False\<rparr> w' = (Inr k, w'')"
    unfolding redeemed_ok_def by blast
  show thesis
    by (rule that [OF q(1) w(1,2,5) strong ok sol small session signable w(4,3) _ c(1) _ _ c(4,5) dot red q2])
      (use c(2,3) w(6) clock clock' in \<open>simp_all add: zero_challenge_options_def\<close>)
qed

section \<open>Properties\<close>

text \<open>
  Property C4. An honest session on signed format-2 challenges succeeds: what the Go client computes
  for the entries of the challenge redeems the token, with the scope it was made for, and the
  verification token that comes back validates once. The primality test accepts primes only and the
  key is strong; the client's nonces stay below \<open>2 ^ 53\<close>, nobody has redeemed the token before, and
  the values of the token have a JSON form.
\<close>

theorem format2_session_succeeds:
  assumes "own_tokens mem_ops c" "oSecret c \<noteq> []" "Challenge pp g c co w = (Inr ch, w')" "chFormat ch = 2"
    and "\<And>n. pp n \<Longrightarrow> is_prime n" "\<And>k. oRSWKeypair c = Some k \<Longrightarrow> strong_keypair (oRSWIterations c) k" "minters_ok (wMinters w)"
    and "SolveChallenge ch = Some (Inr solutions)" "list_all small_nonce (chChallenges ch)"
    and "session (wClock w) c co" "signable (wClock w) co ch" "unclaimed nonces c (chToken ch) (wStore w')" "23 \<le> length (wRandom w')"
  shows "\<exists>k w''. Redeem c (plain_request (chToken ch) solutions) \<lparr>roScope = coScope co, roSkipNonce = False\<rparr> w' = (Inr k, w'')
    \<and> kScope k = coScope co \<and> validates_once c k w''"
proof -
  have "keeps minters_ok (Challenge pp g c co)" using keeps_Challenge cap_minter_keeps assms(5,6) by blast
  from keepsD [OF this assms(3,7)] have "minters_ok (wMinters w')" .
  then have "\<And>m. wMinters w' (oRSWIterations c) = Some m \<Longrightarrow> minter_sound m" by (auto simp: minters_ok_def)
  then show ?thesis by (intro mem.signed_flow2 [OF assms(1,3,2,10,12,13) _ assms(11,4,8,9)])
qed

theorem format2_session_succeeds_witness:
  "\<exists>q ch w' solutions k w''. is_prime q
    \<and> Challenge is_prime (\<lambda>r io now. (Inr None, r)) (rsw_options q mem_ops) zero_challenge_options
        (fresh_world NewMemoryStore (replicate (nat ((bitLen (7 * q) + 7) div 8) + 106) 0) 1700000000000000000) = (Inr ch, w')
    \<and> SolveChallenge ch = Some (Inr solutions)
    \<and> Redeem (rsw_options q mem_ops) (plain_request (chToken ch) solutions) \<lparr>roScope = [], roSkipNonce = False\<rparr> w' = (Inr k, w'')
    \<and> validates_once (rsw_options q mem_ops) k w''"
proof (rule rsw_session)
  fix q w ch w' solutions claims key
  let ?c = "rsw_options q mem_ops :: memory_store options"
  assume s: "is_prime q" "w = fresh_world NewMemoryStore (replicate (nat ((bitLen (7 * q) + 7) div 8) + 106) 0) 1700000000000000000"
    "Challenge is_prime (\<lambda>r io now. (Inr None, r)) ?c zero_challenge_options w = (Inr ch, w')" "chFormat ch = 2"
    "\<And>k. oRSWKeypair ?c = Some k \<Longrightarrow> strong_keypair (oRSWIterations ?c) k" "minters_ok (wMinters w)"
    "SolveChallenge ch = Some (Inr solutions)" "list_all small_nonce (chChallenges ch)"
    "session (wClock w) ?c zero_challenge_options" "signable (wClock w) zero_challenge_options ch"
    "nonces (wStore w') = Map.empty" "46 \<le> length (wRandom w')"
  have u: "unclaimed nonces ?c (chToken ch) (wStore w')" by (simp add: unclaimed_def s(11) split: option.split prod.split)
  have r: "23 \<le> length (wRandom w')" using s(12) by simp
  have p: "\<And>n. is_prime n \<Longrightarrow> is_prime n" .
  from format2_session_succeeds [OF rsw_options_facts(9,2) s(3,4) p s(5-10) u r]
  obtain k w'' where "Redeem ?c (plain_request (chToken ch) solutions) \<lparr>roScope = [], roSkipNonce = False\<rparr> w' = (Inr k, w'')"
    "validates_once ?c k w''"
    by (auto simp: zero_challenge_options_def)
  then show ?thesis using s(1,3,7) unfolding s(2) by blast
qed

text \<open>
  Property C2. A signed challenge is redeemed once: in every history in which the clock stays before
  \<open>E\<close> and every redemption of a token with the given replay key is guarded and names an expiry of
  \<open>E\<close> or later, at most one redemption of that key succeeds.
\<close>

theorem signed_token_redeemed_once:
  assumes "own_tokens mem_ops c" "\<forall>i. unixMilli (wClock w i) < E" "list_all (guarded (oSecret c) key E) as"
  shows "count_if (signed_redeemed (oSecret c) key) (fst (api_run pp g c as w)) \<le> 1"
  by (rule mem.signed_once [OF assms])

theorem signed_token_redeemed_once_witness:
  "\<exists>q w key req ro k1 w1 r. Redeem (rsw_options q mem_ops) req ro w = (Inr k1, w1)
    \<and> signed_redeemed (oSecret (rsw_options q mem_ops)) key (ARedeem req ro, PToken k1)
    \<and> fst (api_run is_prime (\<lambda>r io now. (Inr None, r)) (rsw_options q mem_ops) [ARedeem req ro, ARedeem req ro] w)
        = [(ARedeem req ro, PToken k1), (ARedeem req ro, r)]
    \<and> \<not> signed_redeemed (oSecret (rsw_options q mem_ops)) key (ARedeem req ro, r)"
proof (rule rsw_session)
  fix q and w :: "memory_store world" and ch and w' :: "memory_store world" and solutions claims key
  let ?c = "rsw_options q mem_ops :: memory_store options" and ?g = "\<lambda>r io now. (Inr None, r)"
  let ?req = "plain_request (chToken ch) solutions" and ?ro = "\<lparr>roScope = [], roSkipNonce = False\<rparr>"
  assume s: "nonces (wStore w') = Map.empty" "46 \<le> length (wRandom w')" "wClock w' = (\<lambda>_. 1700000000000000000)"
    "token_claims_of (oSecret ?c) (chToken ch) = Some (claims, key)" "tExp claims = 1700000600000"
    "contains_char (chToken ch) (CHR ''.'')" "\<exists>k w''. Redeem ?c ?req ?ro w' = (Inr k, w'')"
  obtain k1 w1 where r1: "Redeem ?c ?req ?ro w' = (Inr k1, w1)" using s(7) by blast
  have sr: "signed_redeemed (oSecret ?c) key (ARedeem ?req ?ro, PToken k1)" using s(4,6) by (simp add: plain_request_def)
  let ?r = "fst (api is_prime ?g ?c (ARedeem ?req ?ro) w1)"
  have h: "fst (api_run is_prime ?g ?c [ARedeem ?req ?ro, ARedeem ?req ?ro] w') = [(ARedeem ?req ?ro, PToken k1), (ARedeem ?req ?ro, ?r)]"
    using r1 by (simp add: Let_def answer_def)
  have "\<forall>i. unixMilli (wClock w' i) < 1700000600000" using s(3) by (simp add: unixMilli_def)
  moreover have "list_all (guarded (oSecret ?c) key 1700000600000) [ARedeem ?req ?ro, ARedeem ?req ?ro]"
    using s(4,5) by (simp add: plain_request_def)
  ultimately have "count_if (signed_redeemed (oSecret ?c) key) (fst (api_run is_prime ?g ?c [ARedeem ?req ?ro, ARedeem ?req ?ro] w')) \<le> 1"
    by (rule signed_token_redeemed_once [OF rsw_options_facts(9)])
  then have "\<not> signed_redeemed (oSecret ?c) key (ARedeem ?req ?ro, ?r)" using sr unfolding h by (auto split: if_splits)
  then show ?thesis using r1 sr h by blast
qed

text \<open>
  Property C23. The one instant the replay guard misses: a token is rejected as expired only after its
  expiry has passed, but the store holds its nonce only before. While the clock reads exactly the
  expiry, a signed token is redeemed twice with one set of solutions.
\<close>

theorem signed_token_replayed_at_expiry:
  assumes "own_tokens mem_ops c" "oSecret c \<noteq> []" "token_claims_of (oSecret c) (rqToken req) = Some (claims, key)"
    and "contains_char (rqToken req) (CHR ''.'')" "rqSolutions req \<noteq> []" "roScope ro = [] \<or> tSk claims = roScope ro" "\<not> roSkipNonce ro"
    and "tExp claims \<noteq> 0" "\<And>i. unixMilli (wClock w i) = tExp claims" "verifySigned c claims req (tExp claims) = None"
    and "nonces (wStore w) key = None" "46 \<le> length (wRandom w)"
  shows "\<exists>k1 w1 k2 w2. Redeem c req ro w = (Inr k1, w1) \<and> Redeem c req ro w1 = (Inr k2, w2)"
  by (rule mem.replay_at_expiry [OF assms])

theorem signed_token_replayed_at_expiry_witness:
  "\<exists>q w req k1 w1 k2 w2. own_tokens mem_ops (rsw_options q mem_ops)
    \<and> Redeem (rsw_options q mem_ops) req \<lparr>roScope = [], roSkipNonce = False\<rparr> w = (Inr k1, w1)
    \<and> Redeem (rsw_options q mem_ops) req \<lparr>roScope = [], roSkipNonce = False\<rparr> w1 = (Inr k2, w2)"
proof (rule rsw_session)
  fix q and w :: "memory_store world" and ch and w' :: "memory_store world" and solutions claims key
  let ?c = "rsw_options q mem_ops :: memory_store options"
  let ?req = "plain_request (chToken ch) solutions" and ?ro = "\<lparr>roScope = [], roSkipNonce = False\<rparr>"
  let ?w = "w'\<lparr>wClock := \<lambda>_. 1700000600000 * 10 ^ 6\<rparr>"
  assume s: "nonces (wStore w') = Map.empty" "46 \<le> length (wRandom w')"
    "token_claims_of (oSecret ?c) (chToken ch) = Some (claims, key)" "tExp claims = 1700000600000" "tSk claims = []"
    "solutions \<noteq> []" "\<forall>now. verifySigned ?c claims (plain_request (chToken ch) solutions) now = None"
    "contains_char (chToken ch) (CHR ''.'')"
  have "\<exists>k1 w1 k2 w2. Redeem ?c ?req ?ro ?w = (Inr k1, w1) \<and> Redeem ?c ?req ?ro w1 = (Inr k2, w2)"
    by (rule signed_token_replayed_at_expiry [OF rsw_options_facts(9,2), where claims = claims and key = key])
      (use s in \<open>simp_all add: plain_request_def unixMilli_def\<close>)
  then show ?thesis using rsw_options_facts(9) by blast
qed

text \<open>
  Property C7. What a redeemed signed token proves, with any store: its signature verifies under the
  secret, its scope is the one asked for, it has not expired, its solutions verify against what the
  claims demand, the replay guard claimed its key unless the caller skipped it, and the issued token
  carries its scope and time of issue.
\<close>

theorem signed_redemption_sound:
  assumes "Redeem c req ro w = (Inr k, w')" "contains_char (rqToken req) (CHR ''.'')"
  shows "\<exists>claims key s now. oSecret c \<noteq> [] \<and> token_claims_of (oSecret c) (rqToken req) = Some (claims, key)
    \<and> (roScope ro = [] \<or> tSk claims = roScope ro) \<and> tExp claims \<noteq> 0 \<and> now = unixMilli (wClock w (Suc (wReads w))) \<and> now \<le> tExp claims
    \<and> verifySigned c claims req now = None
    \<and> (if roSkipNonce ro then True else fst (ClaimNonce (capStore c) key (tExp claims) now s) = Inr True)
    \<and> kScope k = tSk claims \<and> kIssuedAt k = tIat claims \<and> kExpires k = now + milliseconds (oTokenTTL c)"
proof -
  obtain w1 where w1: "redeemSigned c req ro w1 = (Inr k, w')" "wClock w1 = wClock w" "wReads w1 = Suc (wReads w)"
    using Redeem_signed_InrE [OF assms] by metis
  from redeemSigned_InrE [OF w1(1)] obtain claims key w2 where r:
    "oSecret c \<noteq> []" "token_claims_of (oSecret c) (rqToken req) = Some (claims, key)"
    "roScope ro = [] \<or> tSk claims = roScope ro" "tExp claims \<noteq> 0" "unixMilli (wClock w1 (wReads w1)) \<le> tExp claims"
    "verifySigned c claims req (unixMilli (wClock w1 (wReads w1))) = None"
    "roSkipNonce ro \<or> fst (ClaimNonce (capStore c) key (tExp claims) (unixMilli (wClock w1 (wReads w1))) (wStore w1)) = Inr True"
    "issueToken c (tSk claims) (unixMilli (wClock w1 (wReads w1))) (tIat claims) w2 = (Inr k, w')"
    by metis
  from r(8) have "kScope k = tSk claims" "kIssuedAt k = tIat claims"
    "kExpires k = unixMilli (wClock w1 (wReads w1)) + milliseconds (oTokenTTL c)"
    by (auto simp: issueToken_def Let_def elim!: andThen_InrE split: option.splits)
  with r(1-7) show ?thesis unfolding w1(2,3)
    by (intro exI [of _ claims] exI [of _ key] exI [of _ "wStore w1"] exI [of _ "unixMilli (wClock w (Suc (wReads w)))"]) auto
qed

theorem signed_redemption_sound_witness:
  "\<exists>q w req k claims key now. (\<exists>w'. Redeem (rsw_options q mem_ops) req \<lparr>roScope = [], roSkipNonce = False\<rparr> w = (Inr k, w'))
    \<and> token_claims_of (oSecret (rsw_options q mem_ops)) (rqToken req) = Some (claims, key) \<and> now \<le> tExp claims
    \<and> verifySigned (rsw_options q mem_ops) claims req now = None \<and> kScope k = tSk claims"
proof (rule rsw_session)
  fix q and w :: "memory_store world" and ch and w' :: "memory_store world" and solutions claims key
  let ?c = "rsw_options q mem_ops :: memory_store options"
  let ?req = "plain_request (chToken ch) solutions" and ?ro = "\<lparr>roScope = [], roSkipNonce = False\<rparr>"
  assume s: "token_claims_of (oSecret ?c) (chToken ch) = Some (claims, key)"
    "contains_char (chToken ch) (CHR ''.'')" "\<exists>k w''. Redeem ?c ?req ?ro w' = (Inr k, w'')"
  obtain k w1 where r: "Redeem ?c ?req ?ro w' = (Inr k, w1)" using s(3) by blast
  have "contains_char (rqToken ?req) (CHR ''.'')" using s(2) by (simp add: plain_request_def)
  from signed_redemption_sound [OF r this] r show ?thesis by blast
qed

end
