(* ===== verification/Entropy.thy ===== *)
theory Entropy
  imports Rsw "HOL-Library.Multiset"
begin

text \<open>
  The randomness helpers of \<open>instrumentation.go\<close>. A function that reads an \<open>io.Reader\<close> maps the
  bytes still to come to a result and the bytes left over; a panic is an error value, and it ends
  every computation it occurs in.
\<close>

section \<open>Draws\<close>

type_synonym 'a drawn = "byte list \<Rightarrow> (go_error + 'a) \<times> byte list"

definition give :: "'a \<Rightarrow> 'a drawn" where
  "give x random = (Inr x, random)"

definition thenDraw :: "'a drawn \<Rightarrow> ('a \<Rightarrow> 'b drawn) \<Rightarrow> 'b drawn" where
  "thenDraw m f random = (case m random of (Inl e, rest) \<Rightarrow> (Inl e, rest) | (Inr x, rest) \<Rightarrow> f x rest)"

fun drawMany :: "nat \<Rightarrow> 'a drawn \<Rightarrow> 'a list drawn" where
  "drawMany 0 m = give []"
| "drawMany (Suc n) m = thenDraw m (\<lambda>x. thenDraw (drawMany n m) (\<lambda>xs. give (x # xs)))"

lemma thenDraw_Inr:
  "thenDraw m f random = (Inr y, rest) \<longleftrightarrow> (\<exists>x mid. m random = (Inr x, mid) \<and> f x mid = (Inr y, rest))"
  by (auto simp: thenDraw_def split: sum.splits prod.splits)

lemma thenDraw_InrE:
  assumes "thenDraw m f random = (Inr y, rest)"
  obtains x mid where "m random = (Inr x, mid)" "f x mid = (Inr y, rest)"
  using assms by (auto simp: thenDraw_Inr)

lemma give_Inr [simp]: "give x random = (Inr y, rest) \<longleftrightarrow> y = x \<and> rest = random"
  by (auto simp: give_def)

lemma drawMany_Inr: "drawMany n m random = (Inr xs, rest) \<Longrightarrow>
    length xs = n \<and> (\<forall>x \<in> set xs. \<exists>r r'. m r = (Inr x, r'))"
  by (induction n arbitrary: random xs) (auto elim!: thenDraw_InrE, blast)

section \<open>Numbers\<close>

definition source_failed :: "go_error \<Rightarrow> go_error" where
  "source_failed err = EPanic (''capgo: random source failed: '' @ error_text err)"

text \<open>
  \<open>rand.Int\<close> of the standard library: as many bytes as a value below \<open>bound\<close> needs, the superfluous
  high bits of the first one cleared, until the value is below \<open>bound\<close>; nothing is read when 0 is
  the only value.
\<close>

function rand_loop :: "nat \<Rightarrow> byte \<Rightarrow> int \<Rightarrow> byte list \<Rightarrow> (go_error + int) \<times> byte list" where
  "rand_loop k keepBits bound random =
     (if length random < Suc k then (Inl (EOther ''unexpected EOF''), [])
      else let raw = take (Suc k) random; rest = drop (Suc k) random; n = setBytes ((hd raw AND keepBits) # tl raw)
           in if n < bound then (Inr n, rest) else rand_loop k keepBits bound rest)"
  by pat_completeness auto
termination by (relation "measure (\<lambda>(k, keepBits, bound, random). length random)") auto

declare rand_loop.simps [simp del]

definition rand_Int :: "byte list \<Rightarrow> int \<Rightarrow> (go_error + int) \<times> byte list" where
  "rand_Int random bound =
     (if bound \<le> 0 then (Inl (EPanic ''crypto/rand: argument to Int is <= 0''), random)
      else let bits = nat (bitLen (bound - 1))
           in if bits = 0 then (Inr 0, random)
              else let k = (bits + 7) div 8; b = (if bits mod 8 = 0 then 8 else bits mod 8)
                   in rand_loop (k - 1) (word_of_nat (2 ^ b - 1)) bound random)"

definition randInt :: "int \<Rightarrow> int \<Rightarrow> int drawn" where
  "randInt lo hi random =
     (if hi \<le> lo then (Inr lo, random)
      else (case rand_Int random (hi - lo + 1) of
              (Inl err, rest) \<Rightarrow> (Inl (source_failed err), rest)
            | (Inr n, rest) \<Rightarrow> (Inr (lo + n), rest)))"

definition randHex :: "nat \<Rightarrow> string drawn" where
  "randHex n random =
     (case readFull ((n + 1) div 2) random of
        (Inl err, rest) \<Rightarrow> (Inl (source_failed err), rest)
      | (Inr raw, rest) \<Rightarrow> (Inr (take n (hex_encode raw)), rest))"

section \<open>Names and shuffles\<close>

definition varLetters :: string where
  "varLetters = ''abcdefghijklmnopqrstuvwxyz''"

definition varChars :: string where
  "varChars = ''abcdefghijklmnopqrstuvwxyz0123456789''"

definition randVar :: "int \<Rightarrow> string drawn" where
  "randVar n =
     thenDraw (if n = 0 then randInt 4 10 else give n) (\<lambda>n.
     thenDraw (randInt 0 25) (\<lambda>c.
     thenDraw (drawMany (nat (n - 1)) (randInt 0 35)) (\<lambda>cs.
     give (varLetters ! nat c # map (\<lambda>c. varChars ! nat c) cs))))"

definition swap :: "'a list \<Rightarrow> nat \<Rightarrow> nat \<Rightarrow> 'a list" where
  "swap xs i j = xs[i := xs ! j, j := xs ! i]"

fun shuffle_from :: "nat \<Rightarrow> 'a list \<Rightarrow> 'a list drawn" where
  "shuffle_from 0 items = give items"
| "shuffle_from (Suc i) items =
     thenDraw (randInt 0 (int (Suc i))) (\<lambda>j. shuffle_from i (swap items (Suc i) (nat j)))"

definition shuffleStrings :: "string list \<Rightarrow> string list drawn" where
  "shuffleStrings items = shuffle_from (length items - 1) items"

section \<open>Lemmas\<close>

lemma rand_loop_Inr:
  assumes "rand_loop k keepBits bound random = (Inr n, rest)"
  shows "0 \<le> n \<and> n < bound \<and> length rest < length random"
  using assms
proof (induction k keepBits bound random rule: rand_loop.induct)
  case (1 k keepBits bound random)
  note step = 1(2) [unfolded rand_loop.simps [of k keepBits bound random] Let_def]
  show ?case
  proof (cases "length random < Suc k \<or> setBytes ((hd (take (Suc k) random) AND keepBits) # tl (take (Suc k) random)) < bound")
    case True
    then show ?thesis using step by (auto simp: setBytes_nonneg split: if_splits)
  next
    case False
    then have "0 \<le> n \<and> n < bound \<and> length rest < length (drop (Suc k) random)"
      using step 1(1) by (auto split: if_splits)
    then show ?thesis by auto
  qed
qed

lemma rand_Int_Inr:
  assumes "rand_Int random bound = (Inr n, rest)"
  shows "0 \<le> n \<and> n < bound"
  using assms rand_loop_Inr by (fastforce simp: rand_Int_def Let_def split: if_splits)

text \<open>A drawn number lies between its bounds; the empty range gives its lower bound.\<close>

lemma randInt_Inr: "randInt lo hi random = (Inr n, rest) \<Longrightarrow> lo \<le> n \<and> n \<le> max lo hi"
  by (auto simp: randInt_def split: if_splits sum.splits prod.splits dest!: rand_Int_Inr)

lemma bitLen_pos: "0 < x \<Longrightarrow> 0 < bitLen x"
  using nat_bits_bound [of "nat x"] by (cases "nat_bits (nat x)") (auto simp: bitLen_def)

lemma randInt_consumes: "lo < hi \<Longrightarrow> randInt lo hi random = (Inr n, rest) \<Longrightarrow> length rest < length random"
  using bitLen_pos [of "hi - lo"] rand_loop_Inr
  by (fastforce simp: randInt_def rand_Int_def Let_def split: if_splits sum.splits prod.splits)

lemma randHex_Inr:
  assumes "randHex n random = (Inr s, rest)"
  shows "length s = n \<and> set s \<subseteq> hex_digits"
proof -
  obtain raw where "length raw = (n + 1) div 2" "s = take n (hex_encode raw)"
    using assms by (auto simp: randHex_def split: sum.splits prod.splits dest!: readFull_Inr)
  then show ?thesis using set_hex_encode [of raw] by (auto dest: in_set_takeD)
qed

lemma randVar_Inr:
  assumes "randVar n random = (Inr s, rest)"
  shows "s \<noteq> [] \<and> hd s \<in> set varLetters \<and> set s \<subseteq> set varChars \<and> (if 0 < n then length s = nat n else n = 0 \<longrightarrow> 4 \<le> length s \<and> length s \<le> 10)"
proof -
  obtain m r c r1 cs r2 r3 where m: "(if n = 0 then randInt 4 10 else give n) r = (Inr m, r1)" "randInt 0 25 r1 = (Inr c, r2)"
    "drawMany (nat (m - 1)) (randInt 0 35) r2 = (Inr cs, r3)" "s = varLetters ! nat c # map (\<lambda>c. varChars ! nat c) cs"
    using assms by (auto simp: randVar_def elim!: thenDraw_InrE)
  have c: "0 \<le> c" "c \<le> 25" using randInt_Inr [OF m(2)] by auto
  have l: "length varLetters = 26" "length varChars = 36" by (simp_all add: varLetters_def varChars_def)
  have first: "varLetters ! nat c \<in> set varLetters" using c l by (intro nth_mem) auto
  have "\<forall>c \<in> set cs. 0 \<le> c \<and> c \<le> 35" using drawMany_Inr [OF m(3)] randInt_Inr by fastforce
  then have "varChars ! nat c \<in> set varChars" if "c \<in> set cs" for c using that l by (intro nth_mem) auto
  moreover have "set varLetters \<subseteq> set varChars" by (simp add: varLetters_def varChars_def)
  moreover have "length cs = nat (m - 1)" using drawMany_Inr [OF m(3)] by simp
  moreover have "if n = 0 then 4 \<le> m \<and> m \<le> 10 else m = n" using m(1) randInt_Inr [of 4 10] by (auto split: if_splits)
  ultimately show ?thesis using first m(4) by (auto split: if_splits)
qed

lemma mset_swap: "i < length xs \<Longrightarrow> j < length xs \<Longrightarrow> mset (swap xs i j) = mset xs"
  by (simp add: swap_def mset_swap)

lemma length_swap [simp]: "length (swap xs i j) = length xs"
  by (simp add: swap_def)

lemma shuffle_from_mset:
  "shuffle_from i items random = (Inr out, rest) \<Longrightarrow> i < length items \<or> i = 0 \<Longrightarrow> mset out = mset items"
proof (induction i arbitrary: items random)
  case (Suc i)
  then obtain j mid where j: "randInt 0 (int (Suc i)) random = (Inr j, mid)"
    "shuffle_from i (swap items (Suc i) (nat j)) mid = (Inr out, rest)" by (auto elim!: thenDraw_InrE)
  have "0 \<le> j" "j \<le> int (Suc i)" using randInt_Inr [OF j(1)] by auto
  then have "mset (swap items (Suc i) (nat j)) = mset items" using Suc.prems(2) by (intro mset_swap) auto
  then show ?case using Suc.IH [OF j(2)] Suc.prems(2) by auto
qed auto

lemma shuffleStrings_mset: "shuffleStrings items random = (Inr out, rest) \<Longrightarrow> mset out = mset items"
  using shuffle_from_mset [of "length items - 1" items] by (cases items) (auto simp: shuffleStrings_def)

end
