(* ===== verification/Script.thy ===== *)
theory Script
  imports Entropy Json Prng
begin

text \<open>
  The client script of \<open>instrumentation.go\<close>: the checks for automated browsers, the checks of the
  browser environment and the function around the random program, as the code's templates spell
  them. The hash of a name is \<open>fnv1a32Resume\<close> from a random seed.
\<close>

section \<open>Formatting\<close>

text \<open>
  \<open>fmt.Sprintf\<close> for the verbs the templates use: \<open>%s\<close> of a string and \<open>%d\<close> of an integer, each for the
  next argument or for the one whose number stands in brackets, and a doubled percent sign. Every
  template passes the arguments its verbs name.
\<close>

datatype fmt_arg = FS string | FD int

fun arg_text :: "fmt_arg \<Rightarrow> string" where
  "arg_text (FS s) = s"
| "arg_text (FD i) = itoa i"

function sprintf_from :: "fmt_arg list \<Rightarrow> nat \<Rightarrow> string \<Rightarrow> string" where
  "sprintf_from args n [] = []"
| "sprintf_from args n (c # s) =
     (if c \<noteq> CHR ''%'' then c # sprintf_from args n s
      else if s \<noteq> [] \<and> hd s = CHR ''%'' then CHR ''%'' # sprintf_from args n (tl s)
      else if s \<noteq> [] \<and> hd s = CHR ''['' then
        (let digits = takeWhile is_digit (tl s); k = of_base 10 digits
         in arg_text (args ! (k - 1)) @ sprintf_from args k (drop (length digits + 3) s))
      else arg_text (args ! n) @ sprintf_from args (Suc n) (drop 1 s))"
  by pat_completeness auto
termination by (relation "measure (\<lambda>(args, n, s). length s)") auto

definition sprintf :: "string \<Rightarrow> fmt_arg list \<Rightarrow> string" where
  "sprintf template args = sprintf_from args 0 template"

text \<open>The characters that a literal cannot hold: quotes, a backslash, a line feed.\<close>

definition dq :: string where
  "dq = [CHR 0x22]"

definition sq :: string where
  "sq = [CHR 0x27]"

definition bslash :: string where
  "bslash = [CHR 0x5C]"

definition lf :: string where
  "lf = [CHR 0x0A]"

section \<open>Hashes and quoting\<close>

definition hashWith :: "u32 \<Rightarrow> string \<Rightarrow> u32" where
  "hashWith seed s = fnv1a32Resume seed s"

definition mapHash :: "(string \<Rightarrow> u32) \<Rightarrow> string list \<Rightarrow> u32 list" where
  "mapHash h items = map h items"

definition jsonArray :: "u32 list \<Rightarrow> string" where
  "jsonArray vs = enc_array (map (\<lambda>v. itoa (uint v)) vs)"

definition jsString :: "string \<Rightarrow> string" where
  "jsString s = json_quote False s"

section \<open>Markers of automated browsers\<close>

definition windowPropMarkers :: "string list" where
  "windowPropMarkers =
   [''_Selenium_IDE_Recorder'', ''_selenium'', ''calledSelenium'', ''__webdriverFunc'', ''__lastWatirAlert'',
    ''__lastWatirConfirm'', ''__lastWatirPrompt'', ''_WEBDRIVER_ELEM_CACHE'', ''ChromeDriverw'',
    ''awesomium'', ''CefSharp'', ''RunPerfTest'', ''fmget_targets'', ''geb'', ''spawn'', ''domAutomation'',
    ''domAutomationController'', ''wdioElectron'', ''callPhantom'', ''_phantom'', ''__nightmare'',
    ''nightmare'', ''__playwright__binding__'', ''__pwInitScripts'']"

definition docPropMarkers :: "string list" where
  "docPropMarkers =
   [''__selenium_evaluate'', ''selenium-evaluate'', ''__selenium_unwrapped'', ''__webdriver_script_fn'',
    ''__driver_evaluate'', ''__webdriver_evaluate'', ''__fxdriver_evaluate'', ''__driver_unwrapped'',
    ''__webdriver_unwrapped'', ''__fxdriver_unwrapped'', ''__webdriver_script_func'',
    ''__webdriver_script_function'']"

definition navOwnPropMarkers :: "string list" where
  "navOwnPropMarkers =
   [''webdriver'', ''userAgent'', ''appVersion'', ''userAgentData'', ''platform'', ''vendor'', ''product'',
    ''productSub'', ''languages'', ''language'', ''plugins'', ''mimeTypes'', ''hardwareConcurrency'',
    ''deviceMemory'', ''maxTouchPoints'', ''permissions'', ''connection'']"

definition attrSubMarkers :: "string list" where
  "attrSubMarkers =
   [''selenium'', ''webdriver'', ''driver'']"

definition stackSubMarkers :: "string list" where
  "stackSubMarkers =
   [''pptr:'', ''UtilityScript.'', ''PhantomJS'']"

definition windowPrefixMark :: "string list" where
  "windowPrefixMark =
   [''puppeteer_'', ''cdc_'', ''$cdc_'']"

definition uaTokenMarkers :: "string list" where
  "uaTokenMarkers =
   [''HeadlessChrome'', ''PhantomJS'', ''SlimerJS'', ''headless'']"

section \<open>Checks for automated browsers\<close>

definition checkWebdriver :: "string \<Rightarrow> string \<Rightarrow> (string \<Rightarrow> u32) \<Rightarrow> string" where
  "checkWebdriver b hashF h = sprintf
    (''if (!%[1]s) { try { var d = Object.getOwnPropertyDescriptors(navigator); var __wh = %[3]d; for (const k in d)'' @
     '' { if (%[2]s(k) === __wh) { %[1]s = true; break; } } if (!%[1]s) { var p = Object.getPrototypeOf(navigator);'' @
     '' while (p && !%[1]s) { for (const k of Object.getOwnPropertyNames(p)) { if (%[2]s(k) === __wh) { try { if'' @
     '' (navigator[k]) %[1]s = true; } catch {} break; } } p = Object.getPrototypeOf(p); } } } catch { %[1]s = true; } }'')
    [FS b, FS hashF, FD (uint (h ''webdriver''))]"

definition checkNavOwn :: "string \<Rightarrow> string \<Rightarrow> string \<Rightarrow> string \<Rightarrow> (string \<Rightarrow> u32) \<Rightarrow> string" where
  "checkNavOwn b a hashSet hashF h = sprintf
    (''if (!%[1]s) { try { var %[2]s = %[3]s; for (const k of Object.getOwnPropertyNames(navigator)) { if'' @
     '' (%[4]s(%[2]s, %[5]s(k))) { %[1]s = true; break; } } } catch { %[1]s = true; } }'')
    [FS b, FS a, FS (jsonArray (mapHash h navOwnPropMarkers)), FS hashSet, FS hashF]"

definition checkWindowPrefix :: "string \<Rightarrow> string \<Rightarrow> string \<Rightarrow> string \<Rightarrow> (string \<Rightarrow> u32) \<Rightarrow> string" where
  "checkWindowPrefix b a hashSet hashF h = sprintf
    (''if (!%[1]s) { var %[2]s = %[3]s; for (const k of Object.getOwnPropertyNames(window)) { for (var pl = 4; pl <='' @
     '' 5; pl++) { if (%[4]s(%[2]s, %[5]s(k.slice(0, pl)))) { %[1]s = true; break; } } if (%[1]s) break; } }'')
    [FS b, FS a, FS (jsonArray (mapHash h windowPrefixMark)), FS hashSet, FS hashF]"

definition checkWindow :: "string \<Rightarrow> string \<Rightarrow> string \<Rightarrow> string \<Rightarrow> (string \<Rightarrow> u32) \<Rightarrow> string" where
  "checkWindow b a hashSet hashF h = sprintf
    (''if (!%[1]s) { var %[2]s = %[3]s; for (const k of Object.getOwnPropertyNames(window)) { if (%[4]s(%[2]s,'' @
     '' %[5]s(k))) { %[1]s = true; break; } } }'')
    [FS b, FS a, FS (jsonArray (mapHash h windowPropMarkers)), FS hashSet, FS hashF]"

definition checkDocument :: "string \<Rightarrow> string \<Rightarrow> string \<Rightarrow> string \<Rightarrow> (string \<Rightarrow> u32) \<Rightarrow> string" where
  "checkDocument b a hashSet hashF h = sprintf
    (''if (!%[1]s) { var %[2]s = %[3]s; for (const k of Object.getOwnPropertyNames(document)) { if (%[4]s(%[2]s,'' @
     '' %[5]s(k))) { %[1]s = true; break; } } }'')
    [FS b, FS a, FS (jsonArray (mapHash h docPropMarkers)), FS hashSet, FS hashF]"

definition checkAttributes :: "string \<Rightarrow> string \<Rightarrow> string \<Rightarrow> string \<Rightarrow> (string \<Rightarrow> u32) \<Rightarrow> string" where
  "checkAttributes b a hashSet hashF h = sprintf
    (''if (!%[1]s) { try { var %[2]s = %[3]s; var an = document.documentElement.getAttributeNames(); for (const n of'' @
     '' an) { for (const t of n.split(/[^a-z]+/i)) { if (t && %[4]s(%[2]s, %[5]s(t.toLowerCase()))) { %[1]s = true;'' @
     '' break; } } if (%[1]s) break; } } catch { %[1]s = true; } }'')
    [FS b, FS a, FS (jsonArray (mapHash h attrSubMarkers)), FS hashSet, FS hashF]"

definition checkStack :: "string \<Rightarrow> string \<Rightarrow> string \<Rightarrow> string \<Rightarrow> string \<Rightarrow> (string \<Rightarrow> u32) \<Rightarrow> string" where
  "checkStack b a hashSet hashF st h = sprintf
    (''if (!%[1]s) { try { var %[2]s = %[3]s; var %[6]s = (new Error()).stack || '' @ sq @ sq @
     ''; for (var i = 0; i + 5 <= %[6]s.length; i++) { for (var sl = 5; sl <= 14; sl++) { if (i + sl > %[6]s.length)'' @
     '' break; if (%[4]s(%[2]s, %[5]s(%[6]s.substr(i, sl)))) { %[1]s = true; break; } } if (%[1]s) break; } } catch {} }'')
    [FS b, FS a, FS (jsonArray (mapHash h stackSubMarkers)), FS hashSet, FS hashF, FS st]"

definition checkExposed :: "string \<Rightarrow> string \<Rightarrow> (string \<Rightarrow> u32) \<Rightarrow> string" where
  "checkExposed b hashF h = sprintf
    (''if (!%[1]s) { try { if (typeof window.exposedFn !== 'undefined') { var s = window.exposedFn.toString(); for'' @
     '' (var i = 0; i + 19 <= s.length; i++) { if (%[2]s(s.substr(i, 19)) === %[3]d) { %[1]s = true; break; } } } }'' @
     '' catch {} }'')
    [FS b, FS hashF, FD (uint (h ''exposeBindingHandle''))]"

definition checkElectron :: "string \<Rightarrow> string \<Rightarrow> (string \<Rightarrow> u32) \<Rightarrow> string" where
  "checkElectron b hashF h = sprintf
    (''if (!%[1]s && typeof window.process !== 'undefined') { try { if (%[2]s(window.process.type || '' @ sq @ sq @
     '') === %[3]d || (window.process.versions && window.process.versions.electron)) %[1]s = true; } catch { %[1]s ='' @
     '' true; } }'')
    [FS b, FS hashF, FD (uint (h ''renderer''))]"

definition checkUserAgent :: "string \<Rightarrow> string \<Rightarrow> string \<Rightarrow> string \<Rightarrow> (string \<Rightarrow> u32) \<Rightarrow> string" where
  "checkUserAgent b a hashSet hashF h = sprintf
    (''if (!%[1]s) { try { var %[2]s = %[3]s; var ua = navigator.userAgent || '' @ sq @ sq @
     ''; for (const t of ua.split(/['' @ bslash @
     ''s/(),;]/)) { if (t && %[4]s(%[2]s, %[5]s(t))) { %[1]s = true; break; } } if (!%[1]s) { var av ='' @
     '' navigator.appVersion || '' @ sq @ sq @ ''; for (const t of av.split(/['' @ bslash @
     ''s/(),;]/)) { if (t && %[4]s(%[2]s, %[5]s(t))) { %[1]s = true; break; } } } } catch {} }'')
    [FS b, FS a, FS (jsonArray (mapHash h uaTokenMarkers)), FS hashSet, FS hashF]"

definition checkWebgl :: "string \<Rightarrow> string \<Rightarrow> (string \<Rightarrow> u32) \<Rightarrow> string" where
  "checkWebgl b hashF h = sprintf
    (''if (!%[1]s) { try { var c = document.createElement('canvas').getContext('webgl'); if (c) { var v ='' @
     '' c.getParameter(c.VENDOR); var r = c.getParameter(c.RENDERER); if (%[2]s(v || '' @ sq @ sq @
     '') === %[3]d && %[2]s(r || '' @ sq @ sq @ '') === %[4]d) %[1]s = true; } } catch {} }'')
    [FS b, FS hashF, FD (uint (h ''Brian Paul'')), FD (uint (h ''Mesa OffScreen''))]"

definition checkFocus :: "string \<Rightarrow> string" where
  "checkFocus b = sprintf
    (''if (!%[1]s) { try { if (document.hasFocus && document.hasFocus() && window.outerWidth === 0 &&'' @
     '' window.outerHeight === 0) %[1]s = true; } catch { %[1]s = true; } }'')
    [FS b]"

definition checkEval :: "string \<Rightarrow> string \<Rightarrow> (string \<Rightarrow> u32) \<Rightarrow> string" where
  "checkEval b hashF h = sprintf
    (''if (!%[1]s) { try { var es = Function.prototype.toString.call(eval); var found = false; for (var i = 0; i +'' @
     '' 13 <= es.length; i++) { if (%[2]s(es.substr(i, 13)) === %[3]d) { found = true; break; } } if (!found) %[1]s'' @
     '' = true; } catch {} }'')
    [FS b, FS hashF, FD (uint (h ''[native code]''))]"

definition checkBind :: "string \<Rightarrow> string" where
  "checkBind b = sprintf
    (''if (!%[1]s) { try { if (typeof Function.prototype.bind === 'undefined') %[1]s = true; } catch {} }'')
    [FS b]"

definition checkExternal :: "string \<Rightarrow> string \<Rightarrow> (string \<Rightarrow> u32) \<Rightarrow> string" where
  "checkExternal b hashF h = sprintf
    (''if (!%[1]s) { try { if (window.external && typeof window.external.toString === 'function') { var s ='' @
     '' window.external.toString(); for (var i = 0; i + 9 <= s.length; i++) { if (%[2]s(s.substr(i, 9)) === %[3]d) {'' @
     '' %[1]s = true; break; } } } } catch { %[1]s = true; } }'')
    [FS b, FS hashF, FD (uint (h ''Sequentum''))]"

definition checkMimeTypes :: "string \<Rightarrow> string \<Rightarrow> string \<Rightarrow> string" where
  "checkMimeTypes b ok i = sprintf
    (''if (!%[1]s) { try { if (navigator.mimeTypes) { var %[2]s = Object.getPrototypeOf(navigator.mimeTypes) ==='' @
     '' MimeTypeArray.prototype; for (var %[3]s = 0; %[3]s < navigator.mimeTypes.length && %[2]s; %[3]s++) { %[2]s ='' @
     '' Object.getPrototypeOf(navigator.mimeTypes[%[3]s]) === MimeType.prototype; } if (!%[2]s) %[1]s = true; } }'' @
     '' catch {} }'')
    [FS b, FS ok, FS i]"

definition checkProductSub :: "string \<Rightarrow> string \<Rightarrow> string \<Rightarrow> string \<Rightarrow> (string \<Rightarrow> u32) \<Rightarrow> string" where
  "checkProductSub b ua ps hashF h = sprintf
    (''if (!%[1]s) { try { var %[3]s = navigator.productSub; var %[2]s = navigator.userAgent || '' @ sq @ sq @
     ''; if (%[3]s && %[4]s(%[3]s) !== %[5]d) { var likeBlink = false; for (const t of %[2]s.toLowerCase().split(/['' @
     bslash @
     ''s/(),;]/)) { var hh = %[4]s(t); if (hh === %[6]d || hh === %[7]d || hh === %[8]d) { likeBlink = true; break;'' @
     '' } } if (likeBlink) %[1]s = true; } } catch {} }'')
    [FS b, FS ua, FS ps, FS hashF, FD (uint (h ''20030107'')), FD (uint (h ''chrome'')), FD (uint (h ''safari'')), FD (uint (h ''opera''))]"

definition checkSymbols :: "string \<Rightarrow> string \<Rightarrow> string \<Rightarrow> (string \<Rightarrow> u32) \<Rightarrow> string" where
  "checkSymbols b k hashF h = sprintf
    (''if (!%[1]s) { try { var %[2]s = Object.getOwnPropertyNames(window); for (const n of %[2]s) { var u ='' @
     '' n.lastIndexOf('_'); if (u > 3 && u < n.length - 1) { var suf = n.slice(u + 1); var hh = %[3]s(suf); if (hh'' @
     '' === %[4]d || hh === %[5]d || hh === %[6]d) { %[1]s = true; break; } } } } catch {} }'')
    [FS b, FS k, FS hashF, FD (uint (h ''Array'')), FD (uint (h ''Promise'')), FD (uint (h ''Symbol''))]"

text \<open>Thirteen local names are drawn in the order of the checks that use them; eight of the shuffled checks remain.\<close>

definition block_checks :: "string \<Rightarrow> string \<Rightarrow> string \<Rightarrow> (string \<Rightarrow> u32) \<Rightarrow> string list \<Rightarrow> string list" where
  "block_checks b hashF hashSet h v =
     [checkWebdriver b hashF h,
      checkNavOwn b (v ! 0) hashSet hashF h,
      checkWindowPrefix b (v ! 1) hashSet hashF h,
      checkWindow b (v ! 2) hashSet hashF h,
      checkDocument b (v ! 3) hashSet hashF h,
      checkAttributes b (v ! 4) hashSet hashF h,
      checkStack b (v ! 5) hashSet hashF (v ! 6) h,
      checkExposed b hashF h,
      checkElectron b hashF h,
      checkUserAgent b (v ! 7) hashSet hashF h,
      checkWebgl b hashF h,
      checkFocus b,
      checkEval b hashF h,
      checkBind b,
      checkExternal b hashF h,
      checkMimeTypes b (v ! 8) (v ! 9),
      checkProductSub b (v ! 10) (v ! 11) hashF h,
      checkSymbols b (v ! 12) hashF h]"

definition block_script :: "string \<Rightarrow> string \<Rightarrow> string list \<Rightarrow> string" where
  "block_script b ident sampled = sprintf
    (''let %[1]s = false;try {%[2]s} catch {%[1]s = true} if (%[1]s) {parent.postMessage({ type: 'cap:instr', nonce:'' @
     '' %[3]s, result: '' @ sq @ sq @ '', blocked: true }, '*');return;}'')
    [FS b, FS (concat sampled), FS (jsString ident)]"

definition buildBlockChecks :: "string \<Rightarrow> string \<Rightarrow> string \<Rightarrow> string \<Rightarrow> (string \<Rightarrow> u32) \<Rightarrow> string drawn" where
  "buildBlockChecks b ident hashF hashSet h =
     thenDraw (drawMany 13 (randVar 0)) (\<lambda>v.
     thenDraw (shuffleStrings (block_checks b hashF hashSet h v)) (\<lambda>checks.
     give (block_script b ident (if length checks > 8 then take 8 checks else checks))))"

section \<open>The script\<close>

definition script_helpers :: "string \<Rightarrow> string \<Rightarrow> u32 \<Rightarrow> string" where
  "script_helpers hashF hashSet seed = sprintf
    (''function %[1]s(s){let h=%[3]d>>>0;for(let'' @
     '' i=0;i<s.length;i++){h^=s.charCodeAt(i);h=(h+(h<<1)+(h<<4)+(h<<7)+(h<<8)+(h<<24))>>>0;}return h>>>0;}function'' @
     '' %[2]s(a,v){for(var i=0;i<a.length;i++)if(a[i]===v)return true;return false;}'')
    [FS hashF, FS hashSet, FD (uint seed)]"

definition env_stack :: "string \<Rightarrow> string" where
  "env_stack nKey = sprintf
    (''try { const %[1]sst = (new Error()).stack || '' @ sq @ sq @
     ''; if (%[1]sst.indexOf('node:internal') !== -1 || %[1]sst.indexOf('moduleEvaluation') !== -1 ||'' @
     '' %[1]sst.indexOf('loadAndEvaluateModule') !== -1 || %[1]sst.indexOf('file:///') !== -1 ||'' @
     '' %[1]sst.indexOf('[eval]') !== -1 || /'' @ bslash @ ''(native:/.test(%[1]sst)) return null; } catch { return null }'')
    [FS nKey]"

definition env_types :: string where
  "env_types =
    ''if (typeof HTMLElement !== 'function' || typeof Window !== 'function' || typeof Document !== 'function' ||'' @
    '' typeof Navigator !== 'function' || typeof Node !== 'function') return null; if (!(navigator instanceof'' @
    '' Navigator) || !(document instanceof Document) || !(window instanceof Window) || !(document.body instanceof'' @
    '' HTMLElement)) return null; if (globalThis !== window || window.self !== window || document.defaultView !=='' @
    '' window) return null;''"

definition env_tags :: "string \<Rightarrow> string \<Rightarrow> (string \<Rightarrow> u32) \<Rightarrow> string" where
  "env_tags nKey hashF h = sprintf
    (''try { const %[1]sots = Object.prototype.toString; if (%[2]s(%[1]sots.call(navigator)) !== %[3]d ||'' @
     '' %[2]s(%[1]sots.call(window)) !== %[4]d || %[2]s(%[1]sots.call(document)) !== %[5]d) return null; } catch {'' @
     '' return null }'')
    [FS nKey, FS hashF, FD (uint (h ''[object Navigator]'')), FD (uint (h ''[object Window]'')),
     FD (uint (h ''[object HTMLDocument]''))]"

definition env_events :: "string \<Rightarrow> string" where
  "env_events nKey = sprintf
    (''try { if (typeof EventTarget !== 'function' || !(document.body instanceof EventTarget) || !(window instanceof'' @
     '' EventTarget)) return null; const %[1]sprobe = document.createElement('div'); let %[1]sfired = 0; const'' @
     '' %[1]sev = '_c' + (Date.now() & 0xffff).toString(36); const %[1]sh = (e) => { if (e && e.detail === 0xc0de)'' @
     '' %[1]sfired++; }; %[1]sprobe.addEventListener(%[1]sev, %[1]sh); %[1]sprobe.dispatchEvent(new'' @
     '' CustomEvent(%[1]sev, { detail: 0xc0de })); %[1]sprobe.dispatchEvent(new CustomEvent(%[1]sev, { detail:'' @
     '' 0xc0de })); %[1]sprobe.removeEventListener(%[1]sev, %[1]sh); %[1]sprobe.dispatchEvent(new'' @
     '' CustomEvent(%[1]sev, { detail: 0xc0de })); if (%[1]sfired !== 2) return null; } catch { return null }'')
    [FS nKey]"

definition env_function :: "string \<Rightarrow> string \<Rightarrow> string \<Rightarrow> (string \<Rightarrow> u32) \<Rightarrow> string" where
  "env_function nKey hashSet hashF h = sprintf
    (''try { const %[1]sgf = new Function('return this'); const %[1]stg = %[1]sgf(); if (%[1]stg !== globalThis)'' @
     '' return null; const %[1]sleakHashes = %[2]s; for (const %[1]sk of Object.getOwnPropertyNames(%[1]stg)) { if'' @
     '' (%[3]s(%[1]sleakHashes, %[4]s(%[1]sk))) return null; } const %[1]sfnArgs = new Function('a','b','c','return'' @
     '' a+b+c'); if (%[1]sfnArgs.length !== 3) return null; if (%[1]sfnArgs(10,20,30) !== 60) return null; const'' @
     '' %[1]ssrc = Function.prototype.toString.call(%[1]sfnArgs); if (%[1]ssrc.indexOf('return a+b+c') === -1)'' @
     '' return null; if (%[1]ssrc.indexOf('apply') !== -1 || %[1]ssrc.indexOf('callArgs') !== -1 ||'' @
     '' %[1]ssrc.indexOf('Reflect.') !== -1) return null; let %[1]sthrown = null; try { new Function('throw new Error('' @
     dq @ ''x'' @ dq @
     '')')(); } catch (%[1]se) { %[1]sthrown = %[1]se; } if (!%[1]sthrown || !%[1]sthrown.stack) return null; const'' @
     '' %[1]sst2 = %[1]sthrown.stack; if (%[1]sst2.indexOf('node:internal') !== -1 ||'' @
     '' %[1]sst2.indexOf('moduleEvaluation') !== -1 || %[1]sst2.indexOf('file:///') !== -1 ||'' @
     '' %[1]sst2.indexOf('[eval]') !== -1 || /'' @ bslash @ ''(native:/.test(%[1]sst2)) return null; } catch { return null }'')
    [FS nKey, FS (jsonArray (mapHash h [''Bun'', ''process'', ''module'', ''require'', ''global'', ''__dirname'', ''Deno''])), FS hashSet, FS hashF]"

definition env_eval :: "string \<Rightarrow> string \<Rightarrow> string \<Rightarrow> (string \<Rightarrow> u32) \<Rightarrow> string" where
  "env_eval nKey hashSet hashF h = sprintf
    (''try { const %[1]sie = (0, eval); const %[1]seg = %[1]sie('this'); if (%[1]seg !== globalThis) return null;'' @
     '' const %[1]sleak2 = %[2]s; for (const %[1]sk of Object.getOwnPropertyNames(%[1]seg)) { if (%[3]s(%[1]sleak2,'' @
     '' %[4]s(%[1]sk))) return null; } } catch { return null }'')
    [FS nKey, FS (jsonArray (mapHash h [''Bun'', ''process'', ''require'', ''global'', ''__dirname'', ''Deno''])), FS hashSet, FS hashF]"

definition env_direct_eval :: "string \<Rightarrow> int \<Rightarrow> string \<Rightarrow> string \<Rightarrow> string \<Rightarrow> string" where
  "env_direct_eval evalLocalVar evalSecret evalA evalB evalC = sprintf
    (''try { var %[1]s = %[2]d; var %[3]s = '%[6]s'; var %[4]s = '%[7]s'; var %[5]s = %[3]s + %[4]s; var %[1]sr1 ='' @
     '' (0, eval)('typeof ' + %[5]s); if (%[1]sr1 !== 'undefined') return null; var %[1]sr2 = eval(%[5]s); if'' @
     '' (%[1]sr2 !== %[2]d) return null; var %[1]sr3 = eval(%[3]s + %[4]s + '+1'); if (%[1]sr3 !== %[8]d) return'' @
     '' null; var %[1]sarr = ['(', '(', ')', '=', '>', 't', 'h', 'i', 's', ')', '(', ')']; var %[1]sarrow = (0,'' @
     '' eval)(%[1]sarr.join('' @ sq @ sq @
     '')); if (%[1]sarrow !== globalThis) return null; var %[1]sr4 = eval('(function(){return ' + %[5]s '' @
     ''+ '*2;})()'); if (%[1]sr4 !== %[9]d) return null; } catch { return null }'')
    [FS evalLocalVar, FD evalSecret, FS evalA, FS evalB, FS evalC, FS (take 2 evalLocalVar), FS (drop 2 evalLocalVar),
     FD (evalSecret + 1), FD (evalSecret * 2)]"

text \<open>The frame around the program: its template up to the program's place, and from there on.\<close>

definition frame_head :: string where
  "frame_head =
    ''(function(){window.onload=async function(){try {%[1]sconst %[2]s=await (async function(){%[3]s%[4]s'' @ lf @
    ''      var %[5]s=%[9]d;var %[6]s=%[10]d;var %[7]s=%[11]d;var %[8]s=%[12]d;''"

definition frame_tail :: string where
  "frame_tail =
    lf @ ''      var %[14]s={};%[14]s['' @ dq @ ''%[5]s'' @ dq @ '']=%[5]s;%[14]s['' @ dq @ ''%[6]s'' @ dq @
    '']=%[6]s;%[14]s['' @ dq @ ''%[7]s'' @ dq @ '']=%[7]s;%[14]s['' @ dq @ ''%[8]s'' @ dq @
    '']=%[8]s;return %[14]s;})();if (!%[2]s || typeof %[2]s !== 'object') return;parent.postMessage({type'' @
    '': 'cap:instr',nonce:%[15]s,result:{i:%[15]s,state:%[2]s,ts:Date.now()}},'*');} catch {}};})();''"

definition script_frame ::
  "string \<Rightarrow> string \<Rightarrow> string list \<Rightarrow> string \<Rightarrow> string list \<Rightarrow> i32 list \<Rightarrow> string \<Rightarrow> string \<Rightarrow> string \<Rightarrow> string" where
  "script_frame helpers dvKey envChecks blockChecks vars initVals clientEqs outKey ident = sprintf (frame_head @ ''%[13]s'' @ frame_tail)
    [FS helpers, FS dvKey, FS (concat envChecks), FS blockChecks,
     FS (vars ! 0), FS (vars ! 1), FS (vars ! 2), FS (vars ! 3),
     FD (sint (initVals ! 0)), FD (sint (initVals ! 1)), FD (sint (initVals ! 2)), FD (sint (initVals ! 3)),
     FS clientEqs, FS outKey, FS (jsString ident)]"

definition buildClientScript :: "string \<Rightarrow> string list \<Rightarrow> i32 list \<Rightarrow> string \<Rightarrow> bool \<Rightarrow> string drawn" where
  "buildClientScript ident vars initVals clientEqs blockAutomatedBrowsers =
     thenDraw (randInt 1 0x7fffffff) (\<lambda>seed.
       let h = hashWith (word_of_int seed)
       in thenDraw (randVar 0) (\<lambda>hashF. thenDraw (randVar 0) (\<lambda>hashSet. thenDraw (randVar 0) (\<lambda>evalLocalVar.
          thenDraw (randInt 1000000 0x7fffffff) (\<lambda>evalSecret.
          thenDraw (randVar 0) (\<lambda>evalA. thenDraw (randVar 0) (\<lambda>evalB. thenDraw (randVar 0) (\<lambda>evalC.
          thenDraw (if blockAutomatedBrowsers then thenDraw (randVar 0) (\<lambda>b. buildBlockChecks b ident hashF hashSet h) else give [])
            (\<lambda>blockChecks.
          thenDraw (randVar 0) (\<lambda>dvKey. thenDraw (randVar 0) (\<lambda>nKey. thenDraw (randVar 0) (\<lambda>outKey.
          thenDraw (shuffleStrings
              [env_stack nKey, env_types, env_tags nKey hashF h, env_events nKey, env_function nKey hashSet hashF h,
               env_eval nKey hashSet hashF h, env_direct_eval evalLocalVar evalSecret evalA evalB evalC]) (\<lambda>envChecks.
          give (script_frame (script_helpers hashF hashSet (word_of_int seed)) dvKey envChecks blockChecks vars initVals clientEqs
                  outKey ident))))))))))))))"

end
