(* ===== verification/Obfuscate.thy ===== *)
theory Obfuscate
  imports Script
begin

text \<open>
  The last steps on the client script (\<open>instrumentation.go\<close>): white space is stripped from the lines
  and, from level 4, every string literal is moved into a shuffled table. The theorems say what the
  obfuscated script refers to in place of each literal.
\<close>

section \<open>White space\<close>

text \<open>The class \<open>\s\<close> of Go's regular expressions; \<open>\n\s*\<close> becomes a line feed; \<open>^\s+\<close> at the start of each line goes.\<close>

definition re_space :: "char \<Rightarrow> bool" where
  "re_space c \<longleftrightarrow> c \<in> {CHR 0x09, CHR 0x0A, CHR 0x0C, CHR 0x0D, CHR 0x20}"

function newline_space :: "string \<Rightarrow> string" where
  "newline_space [] = []"
| "newline_space (c # s) =
     (if c = CHR 0x0A then c # newline_space (dropWhile re_space s) else c # newline_space s)"
  by pat_completeness auto
termination by (relation "measure length") (auto simp: length_dropWhile_le le_imp_less_Suc)

function leading_space :: "bool \<Rightarrow> string \<Rightarrow> string" where
  "leading_space start [] = []"
| "leading_space start (c # s) =
     (if start \<and> re_space c then leading_space False (dropWhile re_space s)
      else c # leading_space (c = CHR 0x0A) s)"
  by pat_completeness auto
termination by (relation "measure (\<lambda>(start, s). length s)") (auto simp: length_dropWhile_le le_imp_less_Suc)

definition stripScriptWhitespace :: "string \<Rightarrow> string" where
  "stripScriptWhitespace script = leading_space True (newline_space script)"

section \<open>String literals\<close>

text \<open>The body of a JavaScript string literal as the body of a JSON string, then its value.\<close>

fun json_body :: "string \<Rightarrow> string" where
  "json_body [] = []"
| "json_body (c # s) =
     (if c = CHR 0x5C \<and> s \<noteq> [] then c # hd s # json_body (tl s)
      else if c = CHR 0x22 then CHR 0x5C # CHR 0x22 # json_body s
      else c # json_body s)"

fun unescape_single :: "string \<Rightarrow> string" where
  "unescape_single (c # d # s) =
     (if c = CHR 0x5C \<and> d = CHR 0x27 then CHR 0x27 # unescape_single s else c # unescape_single (d # s))"
| "unescape_single s = s"

definition decodeJSString :: "char \<Rightarrow> string \<Rightarrow> string option" where
  "decodeJSString quote body =
     (let t = json_body body; t' = (if quote = CHR 0x27 then unescape_single t else t)
      in unmarshal dec_string (dq @ t' @ dq) [])"

text \<open>From an opening quote on: the raw body up to the closing quote, and what follows it.\<close>

fun scan_body :: "char \<Rightarrow> string \<Rightarrow> (string \<times> string) option" where
  "scan_body quote [] = None"
| "scan_body quote (c # s) =
     (if c = CHR 0x5C \<and> s \<noteq> [] \<and> hd s \<noteq> CHR 0x0A
        then map_option (\<lambda>(body, rest). (c # hd s # body, rest)) (scan_body quote (tl s))
      else if c = quote then Some ([], s)
      else map_option (\<lambda>(body, rest). (c # body, rest)) (scan_body quote s))"

lemma scan_body_append: "scan_body quote s = Some (body, rest) \<Longrightarrow> s = body @ quote # rest"
proof (induction quote s arbitrary: body rest rule: scan_body.induct)
  case (2 quote c s)
  show ?case
  proof (cases "c = CHR 0x5C \<and> s \<noteq> [] \<and> hd s \<noteq> CHR 0x0A")
    case True
    then obtain b where b: "scan_body quote (tl s) = Some (b, rest)" "body = c # hd s # b"
      using 2(3) by (simp del: map_option_case) (auto simp: map_option_eq_Some)
    from 2(1) [OF True b(1)] show ?thesis using b(2) True by (metis append_Cons list.collapse)
  next
    case False
    then show ?thesis
    proof (cases "c = quote")
      case q: False
      then obtain b where b: "scan_body quote s = Some (b, rest)" "body = c # b"
        using 2(3) False by (auto simp: map_option_eq_Some split: if_splits)
      from 2(2) [OF False q b(1)] show ?thesis using b(2) by simp
    qed (use 2(3) in \<open>auto split: if_splits\<close>)
  qed
qed simp

text \<open>
  The literals of a script, each with the text between it and the one before; a quote that does not
  open a literal is text. The last component is the text after the last literal.
\<close>

record piece =
  pBefore :: string
  pQuote :: char
  pBody :: string
  pValue :: string

function literals :: "string \<Rightarrow> string \<Rightarrow> piece list \<times> string" where
  "literals before [] = ([], before)"
| "literals before (c # s) =
     (if c = CHR 0x27 \<or> c = CHR 0x22 then
        (case scan_body c s of
           None \<Rightarrow> literals (before @ [c]) s
         | Some (body, rest) \<Rightarrow>
             (case decodeJSString c body of
                None \<Rightarrow> literals (before @ [c]) s
              | Some v \<Rightarrow>
                  (let (ps, after) = literals [] rest
                   in (\<lparr>pBefore = before, pQuote = c, pBody = body, pValue = v\<rparr> # ps, after))))
      else literals (before @ [c]) s)"
  by pat_completeness auto
termination by (relation "measure (\<lambda>(before, s). length s)") (auto dest!: scan_body_append)

definition first_occurrences :: "string list \<Rightarrow> string list" where
  "first_occurrences vs = foldl (\<lambda>acc v. if v \<in> set acc then acc else acc @ [v]) [] vs"

definition position :: "string \<Rightarrow> string list \<Rightarrow> nat" where
  "position v vs = length (takeWhile (\<lambda>u. u \<noteq> v) vs)"

definition table_text :: "string list \<Rightarrow> string" where
  "table_text vs = enc_array (map (json_quote False) vs)"

definition obfuscateStrings :: "string \<Rightarrow> string drawn" where
  "obfuscateStrings script =
     (let (ps, after) = literals [] script
      in if ps = [] then give script
         else thenDraw (shuffleStrings (first_occurrences (map pValue ps))) (\<lambda>entries.
              thenDraw (randHex 6) (\<lambda>r.
                let tName = ''_T'' @ r
                in give (''var '' @ tName @ ''='' @ table_text entries @ '';''
                     @ concat (map (\<lambda>p. pBefore p @ tName @ ''['' @ itoa (int (position (pValue p) entries)) @ '']'') ps)
                     @ after))))"

section \<open>Lemmas: stripping\<close>

text \<open>No line of the result begins with white space.\<close>

fun bare_lines :: "bool \<Rightarrow> string \<Rightarrow> bool" where
  "bare_lines start [] \<longleftrightarrow> True"
| "bare_lines start (c # s) \<longleftrightarrow> (start \<longrightarrow> \<not> re_space c) \<and> bare_lines (c = CHR 0x0A) s"

lemma bare_weaken: "bare_lines True s \<Longrightarrow> bare_lines b s"
  by (cases s) auto

lemma dropWhile_bare: "dropWhile P s = [] \<or> \<not> P (hd (dropWhile P s))"
  using hd_dropWhile by blast

lemma leading_space_bare:
  "bare_lines start (leading_space start s) \<and> (s = [] \<or> \<not> re_space (hd s) \<longrightarrow> bare_lines True (leading_space start s))"
proof (induction start s rule: leading_space.induct)
  case (2 start c s)
  show ?case
  proof (cases "start \<and> re_space c")
    case True
    then show ?thesis using 2(1) [OF True] dropWhile_bare [of re_space s] bare_weaken by auto
  next
    case False
    then show ?thesis using 2(2) [OF False] by auto
  qed
qed simp

lemma leading_space_id: "bare_lines start s \<Longrightarrow> leading_space start s = s"
  by (induction start s rule: bare_lines.induct) auto

lemma newline_space_id: "bare_lines start s \<Longrightarrow> newline_space s = s"
proof (induction start s rule: bare_lines.induct)
  case (2 start c s)
  have "dropWhile re_space s = s" if "c = CHR 0x0A" using 2(2) that by (cases s) auto
  then show ?case using 2 by auto
qed simp

lemma filter_dropWhile: "filter (\<lambda>c. \<not> P c) (dropWhile P s) = filter (\<lambda>c. \<not> P c) s"
  by (induction s) auto

lemma leading_space_filter: "filter (\<lambda>c. \<not> re_space c) (leading_space start s) = filter (\<lambda>c. \<not> re_space c) s"
  by (induction start s rule: leading_space.induct) (auto simp: filter_dropWhile)

lemma newline_space_filter: "filter (\<lambda>c. \<not> re_space c) (newline_space s) = filter (\<lambda>c. \<not> re_space c) s"
  by (induction s rule: newline_space.induct) (auto simp: filter_dropWhile)

section \<open>Lemmas: literals\<close>

lemma literals_spec:
  assumes "literals before s = (ps, after)"
  shows "before @ s = concat (map (\<lambda>p. pBefore p @ [pQuote p] @ pBody p @ [pQuote p]) ps) @ after
    \<and> (\<forall>p \<in> set ps. decodeJSString (pQuote p) (pBody p) = Some (pValue p) \<and> pQuote p \<in> {CHR 0x27, CHR 0x22})"
  using assms
proof (induction before s arbitrary: ps after rule: literals.induct)
  case (2 before c s)
  have skip: ?case if "literals (before @ [c]) s = (ps, after)"
    "literals (before @ [c]) s = (ps, after) \<Longrightarrow> (before @ [c]) @ s
        = concat (map (\<lambda>p. pBefore p @ [pQuote p] @ pBody p @ [pQuote p]) ps) @ after
      \<and> (\<forall>p \<in> set ps. decodeJSString (pQuote p) (pBody p) = Some (pValue p) \<and> pQuote p \<in> {CHR 0x27, CHR 0x22})"
    using that by simp
  show ?case
  proof (cases "c = CHR 0x27 \<or> c = CHR 0x22")
    case q: True
    show ?thesis
    proof (cases "scan_body c s")
      case None
      then show ?thesis using q 2(5) 2(1) [OF q None] by (intro skip) auto
    next
      case (Some br)
      then obtain body rest where br: "scan_body c s = Some (body, rest)" by (cases br) auto
      show ?thesis
      proof (cases "decodeJSString c body")
        case None
        then show ?thesis using q br 2(5) 2(2) [OF q br refl None] by (intro skip) auto
      next
        case (Some v)
        obtain ps' where ps': "literals [] rest = (ps', after)"
          "ps = \<lparr>pBefore = before, pQuote = c, pBody = body, pValue = v\<rparr> # ps'"
          using q br Some 2(5) by (auto split: prod.splits)
        from 2(3) [OF q br refl Some ps'(1)] show ?thesis
          using ps'(2) scan_body_append [OF br] q Some by auto
      qed
    qed
  next
    case False
    then show ?thesis using 2(5) 2(4) [OF False] by (intro skip) auto
  qed
qed simp

lemma first_occurrences_spec: "distinct (first_occurrences vs) \<and> set (first_occurrences vs) = set vs"
proof -
  have "distinct acc \<Longrightarrow> distinct (foldl (\<lambda>acc v. if v \<in> set acc then acc else acc @ [v]) acc vs)
      \<and> set (foldl (\<lambda>acc v. if v \<in> set acc then acc else acc @ [v]) acc vs) = set acc \<union> set vs" for acc
    by (induction vs arbitrary: acc) auto
  from this [of "[]"] show ?thesis by (simp add: first_occurrences_def)
qed

lemma position_nth: "v \<in> set vs \<Longrightarrow> position v vs < length vs \<and> vs ! position v vs = v"
  unfolding position_def by (induction vs) auto

lemma shuffled: "shuffleStrings vs random = (Inr out, rest) \<Longrightarrow> set out = set vs \<and> (distinct out \<longleftrightarrow> distinct vs)"
  using shuffleStrings_mset [of vs random out rest] by (metis mset_eq_imp_distinct_iff mset_eq_setD)

section \<open>Properties\<close>

text \<open>
  Stripping a script removes white space only, leaves no line that begins with it, and
  changes nothing when it is done again.
\<close>

lemma stripScriptWhitespace_correct:
  "bare_lines True (stripScriptWhitespace script)
    \<and> filter (\<lambda>c. \<not> re_space c) (stripScriptWhitespace script) = filter (\<lambda>c. \<not> re_space c) script
    \<and> stripScriptWhitespace (stripScriptWhitespace script) = stripScriptWhitespace script"
proof -
  have bare: "bare_lines True (stripScriptWhitespace script)"
    unfolding stripScriptWhitespace_def using leading_space_bare by blast
  then show ?thesis
    unfolding stripScriptWhitespace_def [of "stripScriptWhitespace script"]
    by (simp add: newline_space_id leading_space_id) (simp add: stripScriptWhitespace_def leading_space_filter newline_space_filter)
qed


lemma obfuscate_example:
  "obfuscateStrings (''a='' @ sq @ ''x'' @ sq) [1, 2, 3]
     = (Inr (''var _T010203=['' @ dq @ ''x'' @ dq @ ''];a=_T010203[0]''), [])"
  by code_simp


end
