(* ===== verification/Program.thy ===== *)
theory Program
  imports Entropy "HOL-Library.Signed_Division"
begin

text \<open>
  The random program of \<open>GenerateInstrumentation\<close>: its steps, the value each variable has on the
  server, the JavaScript text of each step and what that text computes in a browser. The theorems
  state that both agree, and where the final values lie.
\<close>

section \<open>The server's arithmetic\<close>

text \<open>
  A node of \<open>domSumMock\<close> is given by the values on its way up, without the root. Eight children are
  appended, one per bit; an even value descends.
\<close>

fun buildChain :: "nat \<Rightarrow> i32 list \<Rightarrow> i32 \<Rightarrow> i32 list" where
  "buildChain 0 cur v = cur"
| "buildChain (Suc i) cur v =
     buildChain i (if v AND 1 = 0 then v # cur else cur) (signed_drop_bit 1 v)"

type_synonym i64 = "64 word"

definition rem_word :: "'a :: len word \<Rightarrow> int \<Rightarrow> 'a word" where
  "rem_word v m = word_of_int (sint v smod m)"

fun walk :: "i32 list \<Rightarrow> i64 \<Rightarrow> i64" where
  "walk [] acc = rem_word acc 256"
| "walk (v # up) acc = walk up (acc + word_of_int (sint v))"

definition domSumMock :: "i32 \<Rightarrow> i32 \<Rightarrow> i32 \<Rightarrow> i32" where
  "domSumMock x y z = word_of_int (sint (walk (buildChain 8 (buildChain 8 (buildChain 8 [] x) y) z) 0))"

text \<open>One step: an operation, its destination and three sources, as they are drawn.\<close>

record prog_step =
  stOp :: int
  stDest :: nat
  stSrc1 :: nat
  stSrc2 :: nat
  stSrc3 :: nat

definition draw_step :: "prog_step drawn" where
  "draw_step =
     thenDraw (randInt 0 5) (\<lambda>op. thenDraw (randInt 0 3) (\<lambda>dest. thenDraw (randInt 0 3) (\<lambda>src1.
     thenDraw (randInt 0 3) (\<lambda>src2. thenDraw (randInt 0 3) (\<lambda>src3.
     give \<lparr>stOp = op, stDest = nat dest, stSrc1 = nat src1, stSrc2 = nat src2, stSrc3 = nat src3\<rparr>)))))"

definition step_vals :: "prog_step \<Rightarrow> i32 list \<Rightarrow> i32 list" where
  "step_vals st vals =
     (let d = vals ! stDest st; a = vals ! stSrc1 st; b = vals ! stSrc2 st; c = vals ! stSrc3 st
      in vals[stDest st :=
           (if stOp st = 0 then NOT (d AND a)
            else if stOp st = 1 then d XOR a
            else if stOp st = 2 then d OR a
            else if stOp st = 3 then d AND a
            else if stOp st = 4 then (b XOR a) OR (d XOR b)
            else domSumMock a b c)])"

definition salt_value :: "i32 \<Rightarrow> i32 \<Rightarrow> i32" where
  "salt_value v salt = rem_word ((v XOR salt) AND 0x7FFFFFFF) 900000 + 100000"

section \<open>Its text\<close>

definition assign :: "string \<Rightarrow> string \<Rightarrow> string" where
  "assign var value = var @ '' = '' @ value @ '';''"

definition call3 :: "string \<Rightarrow> string \<Rightarrow> string \<Rightarrow> string \<Rightarrow> string" where
  "call3 f a b c = f @ ''('' @ a @ '', '' @ b @ '', '' @ c @ '')''"

definition step_text :: "string list \<Rightarrow> string \<Rightarrow> string \<Rightarrow> prog_step \<Rightarrow> string" where
  "step_text vars fnHelper domHelper st =
     (let vD = vars ! stDest st; vS1 = vars ! stSrc1 st; vS2 = vars ! stSrc2 st; vS3 = vars ! stSrc3 st
      in assign vD
           (if stOp st = 0 then ''~('' @ vD @ '' & '' @ vS1 @ '')''
            else if stOp st = 1 then vD @ '' ^ '' @ vS1
            else if stOp st = 2 then vD @ '' | '' @ vS1
            else if stOp st = 3 then vD @ '' & '' @ vS1
            else if stOp st = 4 then call3 fnHelper vS1 vS2 vD
            else call3 domHelper vS1 vS2 vS3))"

definition salt_text :: "string \<Rightarrow> int \<Rightarrow> string" where
  "salt_text var salt = var @ ''=(('' @ var @ ''^'' @ itoa salt @ '')&0x7FFFFFFF)%900000+100000;''"

section \<open>What a browser computes\<close>

text \<open>
  JavaScript numbers that are integers, as \<open>int\<close>: the bitwise operators take both operands modulo
  \<open>2 ^ 32\<close> and give a signed result, \<open>%\<close> has the sign of the dividend.
\<close>

definition js_word :: "int \<Rightarrow> i32" where
  "js_word i = word_of_int i"

definition js_and :: "int \<Rightarrow> int \<Rightarrow> int" where
  "js_and a b = sint (js_word a AND js_word b)"

definition js_or :: "int \<Rightarrow> int \<Rightarrow> int" where
  "js_or a b = sint (js_word a OR js_word b)"

definition js_xor :: "int \<Rightarrow> int \<Rightarrow> int" where
  "js_xor a b = sint (js_word a XOR js_word b)"

definition js_not :: "int \<Rightarrow> int" where
  "js_not a = sint (NOT (js_word a))"

definition js_shr :: "int \<Rightarrow> int" where
  "js_shr a = sint (js_word a) div 2"

text \<open>
  The helper \<open>fnHelper\<close>: objects made by \<open>F\<close> remember its argument and look \<open>k\<close> up in themselves,
  then in the prototype that \<open>F\<close> had when they were made.
\<close>

record js_object =
  jsOwn :: "int option"
  jsProto :: "int option"
  jsArg :: int

definition js_v :: "js_object \<Rightarrow> int" where
  "js_v ob = js_xor (case jsOwn ob of Some k \<Rightarrow> k | None \<Rightarrow> (case jsProto ob of Some k \<Rightarrow> k | None \<Rightarrow> 0)) (jsArg ob)"

definition js_fn :: "int \<Rightarrow> int \<Rightarrow> int \<Rightarrow> int" where
  "js_fn a b c =
     (let i = \<lparr>jsOwn = Some b, jsProto = None, jsArg = a\<rparr>; j = \<lparr>jsOwn = None, jsProto = Some c, jsArg = b\<rparr>
      in js_or (js_v i) (js_v j))"

text \<open>
  The helper \<open>domHelper\<close>: an element is given by the texts on its way up to the hidden root; \<open>B\<close> walks
  up, parses them and adds. \<open>parseInt\<close> reads a sign and the leading digits.
\<close>

definition js_digit :: "char \<Rightarrow> bool" where
  "js_digit c \<longleftrightarrow> c \<in> set ''0123456789''"

definition js_parseInt :: "string \<Rightarrow> int" where
  "js_parseInt s =
     (let minus = (s \<noteq> [] \<and> hd s = CHR ''-''); digits = takeWhile js_digit (if minus then tl s else s)
      in (if minus then - 1 else 1) * int (of_base 10 digits))"

fun js_A :: "nat \<Rightarrow> string list \<Rightarrow> int \<Rightarrow> string list" where
  "js_A 0 p v = p"
| "js_A (Suc i) p v = js_A i (if js_and v 1 = 0 then itoa v # p else p) (js_shr v)"

fun js_B :: "string list \<Rightarrow> int \<Rightarrow> int" where
  "js_B [] s = s smod 256"
| "js_B (n # up) s = js_B up (s + js_parseInt n)"

definition js_dom :: "int \<Rightarrow> int \<Rightarrow> int \<Rightarrow> int" where
  "js_dom x y z = js_B (js_A 8 (js_A 8 (js_A 8 [] x) y) z) 0"

definition js_step :: "prog_step \<Rightarrow> int list \<Rightarrow> int list" where
  "js_step st env =
     (let d = env ! stDest st; a = env ! stSrc1 st; b = env ! stSrc2 st; c = env ! stSrc3 st
      in env[stDest st :=
           (if stOp st = 0 then js_not (js_and d a)
            else if stOp st = 1 then js_xor d a
            else if stOp st = 2 then js_or d a
            else if stOp st = 3 then js_and d a
            else if stOp st = 4 then js_fn a b d
            else js_dom a b c)])"

definition js_salt :: "int \<Rightarrow> int \<Rightarrow> int" where
  "js_salt v salt = js_and (js_xor v salt) 0x7FFFFFFF smod 900000 + 100000"

section \<open>Lemmas: both sides agree\<close>

lemma js_word_sint [simp]: "js_word (sint (v :: i32)) = v"
  by (simp add: js_word_def)

lemma js_ops [simp]:
  fixes a b :: i32
  shows "js_and (sint a) (sint b) = sint (a AND b)" "js_or (sint a) (sint b) = sint (a OR b)"
  "js_xor (sint a) (sint b) = sint (a XOR b)" "js_not (sint a) = sint (NOT a)"
  by (simp_all add: js_and_def js_or_def js_xor_def js_not_def)

lemma js_shr_sint: "js_shr (sint (v :: i32)) = sint (signed_drop_bit 1 v)"
  by (simp add: js_shr_def sint_signed_drop_bit_eq drop_bit_eq_div)

lemma js_and_1: "js_and (sint (v :: i32)) 1 = 0 \<longleftrightarrow> v AND 1 = 0"
  using js_ops(1) [of v 1] by (simp add: signed_eq_0_iff)

lemma to_base_10_js_digits: "list_all js_digit (to_base 10 n)"
proof -
  have "js_digit c" if "c \<in> set (to_base 10 n)" for c
  proof -
    from set_to_base [of 10 n] that have "c \<in> digit_char ` {..<10}" by auto
    then obtain d where "d < 10" "c = digit_char d" by auto
    then have "d \<in> {0, 1, 2, 3, 4, 5, 6, 7, 8, 9}" by auto
    then show "js_digit c" using \<open>c = digit_char d\<close> by (auto simp: js_digit_def digit_char_def digit_chars_def)
  qed
  then show ?thesis by (simp add: list_all_iff)
qed

lemma js_parseInt_itoa: "js_parseInt (itoa i) = i"
proof -
  have d: "takeWhile js_digit (to_base 10 n) = to_base 10 n" for n
    using to_base_10_js_digits [of n] by (simp add: takeWhile_eq_all_conv list_all_iff)
  show ?thesis
  proof (cases "i < 0")
    case True
    then have "js_parseInt (itoa i) = - int (of_base 10 (takeWhile js_digit (to_base 10 (nat (- i)))))"
      by (simp add: js_parseInt_def itoa_def Let_def)
    then show ?thesis unfolding d using True by (simp add: of_to_base)
  next
    case False
    have "to_base 10 n \<noteq> [] \<and> hd (to_base 10 n) \<noteq> CHR ''-''" for n
    proof -
      have "hd (to_base 10 n) \<in> set (to_base 10 n)" using to_base_nonempty [of 10 n] by simp
      then have "js_digit (hd (to_base 10 n))" using d [of n] set_takeWhileD by metis
      then show ?thesis using to_base_nonempty [of 10 n] by (auto simp: js_digit_def)
    qed
    then have "js_parseInt (itoa i) = int (of_base 10 (takeWhile js_digit (to_base 10 (nat i))))"
      using False by (simp add: js_parseInt_def itoa_def Let_def)
    then show ?thesis unfolding d using False by (simp add: of_to_base)
  qed
qed

lemma js_A_chain: "js_A n (map (\<lambda>v. itoa (sint v)) cur) (sint v) = map (\<lambda>v. itoa (sint v)) (buildChain n cur v)"
proof (induction n arbitrary: cur v)
  case (Suc n)
  show ?case using Suc.IH [of "v # cur" "signed_drop_bit 1 v"] Suc.IH [of cur "signed_drop_bit 1 v"]
    by (simp add: js_and_1 js_shr_sint)
qed simp

lemma length_buildChain: "length (buildChain n cur v) \<le> n + length cur"
proof (induction n arbitrary: cur v)
  case (Suc n)
  show ?case using Suc.IH [of "v # cur" "signed_drop_bit 1 v"] Suc.IH [of cur "signed_drop_bit 1 v"] by simp
qed simp

text \<open>At most 24 values of 32 bits: the sum fits 64 bits, so the wrapping walk is the exact one.\<close>

lemma sint_i32_bounds: "- (2 ^ 31) \<le> sint (v :: i32)" "sint (v :: i32) < 2 ^ 31"
  using sint_greater_eq [of v] sint_less [of v] by simp_all

lemma sint_of_small: "- (2 ^ (LENGTH('a) - 1)) \<le> i \<Longrightarrow> i < 2 ^ (LENGTH('a) - 1) \<Longrightarrow> sint (word_of_int i :: 'a :: len word) = i"
  by (simp add: sint_sbintrunc' signed_take_bit_int_eq_self)

lemma smod_bounds: "0 < m \<Longrightarrow> \<bar>(i :: int) smod m\<bar> < m" "0 \<le> i \<Longrightarrow> 0 < m \<Longrightarrow> i smod m = i mod m"
  by (auto simp: signed_modulo_int_def abs_mult sgn_if)

lemma walk_js_B:
  assumes "\<bar>sint acc\<bar> \<le> 2 ^ 31 * int k" "k + length up \<le> 1000"
  shows "sint (walk up acc) = js_B (map (\<lambda>v. itoa (sint v)) up) (sint acc)"
  using assms
proof (induction up arbitrary: acc k)
  case Nil
  have "\<bar>sint acc smod 256\<bar> < 256" by (rule smod_bounds) simp
  then show ?case by (simp add: rem_word_def sint_of_small)
next
  case (Cons v up)
  have "\<bar>sint acc + sint v\<bar> \<le> 2 ^ 31 * int (Suc k)" using Cons.prems(1) sint_i32_bounds [of v] by simp
  moreover have "(2 :: int) ^ 31 * int (Suc k) \<le> 2 ^ 31 * 1000" using Cons.prems(2) by simp
  ultimately have b: "\<bar>sint acc + sint v\<bar> \<le> 2 ^ 31 * int (Suc k)" "\<bar>sint acc + sint v\<bar> < 2 ^ 62" by simp_all
  have "sint (acc + word_of_int (sint v)) = sint (word_of_int (sint acc + sint v) :: i64)" by simp
  also have "\<dots> = sint acc + sint v" using b(2) by (intro sint_of_small) auto
  finally have s: "sint (acc + word_of_int (sint v)) = sint acc + sint v" .
  show ?case
    using Cons.IH [of "acc + word_of_int (sint v)" "Suc k"] b(1) Cons.prems(2) unfolding s by (simp add: js_parseInt_itoa s)
qed

lemma js_B_bounds: "\<bar>js_B up s\<bar> < 256"
  by (induction up arbitrary: s) (simp_all add: smod_bounds)

lemma js_dom_sint: "js_dom (sint x) (sint y) (sint z) = sint (domSumMock x y z)"
proof -
  let ?up = "buildChain 8 (buildChain 8 (buildChain 8 [] x) y) z"
  have "length ?up \<le> 24"
    using length_buildChain [of 8 "[]" x] length_buildChain [of 8 "buildChain 8 [] x" y]
      length_buildChain [of 8 "buildChain 8 (buildChain 8 [] x) y" z] by simp
  then have w: "sint (walk ?up 0) = js_B (map (\<lambda>v. itoa (sint v)) ?up) 0" using walk_js_B [of 0 0 ?up] by simp
  have chain: "js_A 8 (js_A 8 (js_A 8 [] (sint x)) (sint y)) (sint z) = map (\<lambda>v. itoa (sint v)) ?up"
    using js_A_chain [of 8 "[]" x] by (simp add: js_A_chain)
  have "\<bar>sint (walk ?up 0)\<bar> < 256" unfolding w by (rule js_B_bounds)
  then have "sint (domSumMock x y z) = sint (walk ?up 0)" unfolding domSumMock_def by (intro sint_of_small) auto
  then show ?thesis unfolding js_dom_def chain w by simp
qed

lemma js_fn_sint: "js_fn (sint (a :: i32)) (sint b) (sint c) = sint ((b XOR a) OR (c XOR b))"
  by (simp add: js_fn_def js_v_def Let_def)

lemma step_ok:
  assumes "stDest st < length vals" "stSrc1 st < length vals" "stSrc2 st < length vals" "stSrc3 st < length vals"
  shows "js_step st (map sint vals) = map sint (step_vals st vals)"
  using assms by (simp add: js_step_def step_vals_def Let_def map_update js_fn_sint js_dom_sint)

lemma salt_mask:
  fixes v salt :: i32
  defines "u \<equiv> sint ((v XOR salt) AND 0x7FFFFFFF)"
  shows "0 \<le> u" "js_and (js_xor (sint v) (sint salt)) 0x7FFFFFFF = u"
proof -
  have m: "sint (0x7FFFFFFF :: i32) = 0x7FFFFFFF" by simp
  show "0 \<le> u" unfolding u_def by (simp add: signed_and_eq m and_nonnegative_int_iff)
  show "js_and (js_xor (sint v) (sint salt)) 0x7FFFFFFF = u"
    unfolding u_def using js_ops(1) [of "v XOR salt" "0x7FFFFFFF"] by (simp add: m)
qed

lemma salt_value_mod: "sint (salt_value v salt) = sint ((v XOR salt) AND 0x7FFFFFFF) mod 900000 + 100000"
proof -
  let ?u = "sint ((v XOR salt) AND 0x7FFFFFFF)"
  have "0 \<le> ?u mod 900000" "?u mod 900000 < 900000" by simp_all
  then have "sint (word_of_int (?u mod 900000 + 100000) :: i32) = ?u mod 900000 + 100000" by (intro sint_of_small) auto
  then show ?thesis by (simp add: salt_value_def rem_word_def smod_bounds(2) [OF salt_mask(1)])
qed

lemma salt_ok: "js_salt (sint v) (sint salt) = sint (salt_value v salt)"
  unfolding js_salt_def salt_mask(2) salt_value_mod by (simp add: smod_bounds(2) [OF salt_mask(1)])

lemma salt_bounds: "100000 \<le> sint (salt_value v salt)" "sint (salt_value v salt) \<le> 999999"
proof -
  have "0 \<le> sint ((v XOR salt) AND 0x7FFFFFFF) mod 900000" "sint ((v XOR salt) AND 0x7FFFFFFF) mod 900000 < 900000"
    by simp_all
  then show "100000 \<le> sint (salt_value v salt)" "sint (salt_value v salt) \<le> 999999"
    unfolding salt_value_mod by linarith+
qed

end
