(* ===== verification/Generate.thy ===== *)
theory Generate
  imports Obfuscate Program Challenge
begin

text \<open>
  \<open>GenerateInstrumentation\<close>: a random program over four variables, its script and the values the
  server expects. DEFLATE is an argument; no theorem depends on what it computes. The theorems tie
  the script to the metadata: what a browser that runs it reports is what the server accepts.
\<close>

section \<open>The random program\<close>

record program =
  gID :: string
  gVars :: "string list"
  gInit :: "i32 list"
  gKey :: int
  gBadKey :: int
  gFn :: string
  gDom :: string
  gSteps :: "prog_step list"
  gSalts :: "int list"

text \<open>Keys are drawn until one differs from the correct one; every draw consumes entropy.\<close>

function draw_bad_key :: "int \<Rightarrow> int drawn" where
  "draw_bad_key key random =
     (case randInt 1000 9000 random of
        (Inl err, rest) \<Rightarrow> (Inl err, rest)
      | (Inr bad, rest) \<Rightarrow> if bad = key then draw_bad_key key rest else (Inr bad, rest))"
  by pat_completeness auto
termination by (relation "measure (\<lambda>(key, random). length random)") (auto dest: sym intro: randInt_consumes [of 1000 9000])

declare draw_bad_key.simps [simp del]

definition draw_program :: "program drawn" where
  "draw_program =
     thenDraw (randHex 32) (\<lambda>ident. thenDraw (drawMany 4 (randVar 12)) (\<lambda>vars.
     thenDraw (drawMany 4 (randInt 10 250)) (\<lambda>initVals. thenDraw (randInt 1000 9000) (\<lambda>correctKey.
     thenDraw (draw_bad_key correctKey) (\<lambda>badKey. thenDraw (randVar 0) (\<lambda>fnHelper. thenDraw (randVar 0) (\<lambda>domHelper.
     thenDraw (drawMany 20 draw_step) (\<lambda>steps. thenDraw (drawMany 4 (randInt 100000 999999)) (\<lambda>salts.
     give \<lparr>gID = ident, gVars = vars, gInit = map word_of_int initVals, gKey = correctKey, gBadKey = badKey,
           gFn = fnHelper, gDom = domHelper, gSteps = steps, gSalts = salts\<rparr>)))))))))"

text \<open>The values the server expects.\<close>

definition program_vals :: "program \<Rightarrow> i32 list" where
  "program_vals p =
     (let vals = (gInit p)[0 := (gInit p ! 0) XOR word_of_int (gKey p)]
      in map2 (\<lambda>v salt. salt_value v (word_of_int salt)) (fold step_vals (gSteps p) vals) (gSalts p))"

text \<open>The statements of the script.\<close>

definition helper_text :: "string \<Rightarrow> string \<Rightarrow> string" where
  "helper_text fnHelper domHelper = sprintf
    (''function %[1]s(a,b,c){function F(d){this.v=function(){return this.k^d;}};var p={k:c};var i=new'' @
     '' F(a);i.k=b;F.prototype=p;return i.v()|(new F(b)).v();}function %[2]s(x,y,z){var'' @
     '' d=document.createElement('div');d.style.display='none';document.body.appendChild(d);function A(p,v){for(var'' @
     '' i=0;i<8;i++){var c=document.createElement('div');p.appendChild(c);c.innerText=v;if((v&1)==0)p=c;v=v>>1;}retur'' @
     ''n p;}function B(n,r,s){if(!n||n==r)return'' @
     '' s%%256;while(n.children.length>0)n.removeChild(n.lastElementChild);return'' @
     '' B(n.parentNode,r,s+parseInt(n.innerText));}var s=B(A(A(A(d,x),y),z),d,0);d.parentNode.removeChild(d);return s;}'')
    [FS fnHelper, FS domHelper]"

definition key_text :: "string \<Rightarrow> int \<Rightarrow> int \<Rightarrow> string" where
  "key_text var correctKey badKey = sprintf ''%s = %s ^ (navigator.userAgent ? %d : %d);''
    [FS var, FS var, FD correctKey, FD badKey]"

definition program_text :: "program \<Rightarrow> string" where
  "program_text p =
     helper_text (gFn p) (gDom p) @ key_text (gVars p ! 0) (gKey p) (gBadKey p)
     @ concat (map (step_text (gVars p) (gFn p) (gDom p)) (gSteps p))
     @ concat (map2 salt_text (gVars p) (gSalts p))"

section \<open>The challenge\<close>

definition defaultInstrumentationTTL :: int where
  "defaultInstrumentationTTL = 5 * 60 * 10 ^ 9"

definition clamp_level :: "int \<Rightarrow> int" where
  "clamp_level level = (let l = (if level = 0 then 3 else level) in if l < 1 then 1 else if l > 10 then 10 else l)"

definition generate :: "(byte list \<Rightarrow> byte list) \<Rightarrow> instr_options \<Rightarrow> int \<Rightarrow> instrumentation drawn" where
  "generate deflate opts now =
     thenDraw draw_program (\<lambda>p.
     thenDraw (buildClientScript (gID p) (gVars p) (gInit p) (program_text p) (BlockAutomatedBrowsers opts)) (\<lambda>script.
     thenDraw (if clamp_level (ObfuscationLevel opts) \<le> 3 then give script else obfuscateStrings script) (\<lambda>script'.
       let finalScript = stripScriptWhitespace script';
           ttl = (if optTTL opts \<le> 0 then defaultInstrumentationTTL else optTTL opts)
       in give \<lparr>iBlob = std_encode (deflate (str_bytes finalScript)),
                iMeta = \<lparr>mID = gID p, mExpectedVals = program_vals p, mVars = gVars p,
                         mBlock = BlockAutomatedBrowsers opts, mExpires = unixMilli now + milliseconds ttl\<rparr>\<rparr>)))"

definition GenerateInstrumentation :: "(byte list \<Rightarrow> byte list) \<Rightarrow> generator" where
  "GenerateInstrumentation deflate random opts now =
     thenDraw (generate deflate opts now) (\<lambda>i. give (Some i)) random"

section \<open>A browser that runs the script\<close>

text \<open>
  The variables after the statements of the program; \<open>userAgent\<close> tells whether the browser has one. The
  helpers are the functions that \<open>helper_text\<close> declares.
\<close>

definition js_program :: "bool \<Rightarrow> program \<Rightarrow> int list" where
  "js_program userAgent p =
     (let env = map sint (gInit p); env' = env[0 := js_xor (env ! 0) (if userAgent then gKey p else gBadKey p)]
      in map2 js_salt (fold js_step (gSteps p) env') (gSalts p))"

text \<open>The script's hash function, as its text in \<open>script_helpers\<close> computes it, over UTF-16 code units.\<close>

definition js_shl :: "int \<Rightarrow> nat \<Rightarrow> int" where
  "js_shl a k = sint (push_bit k (js_word a))"

definition js_hash_unit :: "int \<Rightarrow> nat \<Rightarrow> int" where
  "js_hash_unit h u =
     (let h' = js_xor h (int u)
      in uint (js_word (h' + js_shl h' 1 + js_shl h' 4 + js_shl h' 7 + js_shl h' 8 + js_shl h' 24)))"

definition js_hash :: "u32 \<Rightarrow> string \<Rightarrow> int" where
  "js_hash seed s = foldl js_hash_unit (uint seed) (utf16_units s)"

section \<open>Lemmas\<close>

lemma draw_bad_key_Inr: "draw_bad_key key random = (Inr bad, rest) \<Longrightarrow> bad \<noteq> key \<and> 1000 \<le> bad \<and> bad \<le> 9000"
proof (induction key random rule: draw_bad_key.induct)
  case (1 key random)
  obtain b mid where b: "randInt 1000 9000 random = (Inr b, mid)"
    using 1(2) by (subst (asm) draw_bad_key.simps) (auto split: prod.splits sum.splits)
  then show ?case
    using 1 randInt_Inr [OF b] by (subst (asm) (2) draw_bad_key.simps) (auto split: if_splits)
qed

text \<open>The names and numbers that the text of a program is made of.\<close>

definition program_names :: "program \<Rightarrow> bool" where
  "program_names p \<longleftrightarrow>
     (\<forall>v \<in> set (gFn p # gDom p # gVars p). v \<noteq> [] \<and> hd v \<in> set varLetters \<and> set v \<subseteq> set varChars)
     \<and> length (gFn p) \<le> 10 \<and> length (gDom p) \<le> 10 \<and> (\<forall>i \<in> set (gInit p). 0 \<le> sint i) \<and> 0 \<le> gBadKey p"

definition program_ok :: "program \<Rightarrow> bool" where
  "program_ok p \<longleftrightarrow>
     length (gID p) = 32 \<and> set (gID p) \<subseteq> hex_digits \<and> length (gVars p) = 4
     \<and> (\<forall>v \<in> set (gVars p). length v = 12 \<and> set v \<subseteq> set varChars) \<and> length (gInit p) = 4
     \<and> 1000 \<le> gKey p \<and> gKey p \<le> 9000 \<and> gBadKey p \<noteq> gKey p
     \<and> (\<forall>st \<in> set (gSteps p). stDest st < 4 \<and> stSrc1 st < 4 \<and> stSrc2 st < 4 \<and> stSrc3 st < 4)
     \<and> length (gSalts p) = 4 \<and> (\<forall>salt \<in> set (gSalts p). 100000 \<le> salt \<and> salt \<le> 999999) \<and> program_names p"

lemma draw_program_ok:
  assumes "draw_program random = (Inr p, rest)"
  shows "program_ok p"
proof -
  from assms obtain ident vars vals key bad fnHelper domHelper steps salts r0 r1 r2 r3 r4 r5 r6 r7 r8 where d:
    "randHex 32 random = (Inr ident, r0)" "drawMany 4 (randVar 12) r0 = (Inr vars, r1)"
    "drawMany 4 (randInt 10 250) r1 = (Inr vals, r2)" "randInt 1000 9000 r2 = (Inr key, r3)" "draw_bad_key key r3 = (Inr bad, r4)"
    "drawMany 20 draw_step r6 = (Inr steps, r7)" "drawMany 4 (randInt 100000 999999) r7 = (Inr salts, r8)"
    "randVar 0 r4 = (Inr fnHelper, r5)" "randVar 0 r5 = (Inr domHelper, r6)"
    and p: "p = \<lparr>gID = ident, gVars = vars, gInit = map word_of_int vals, gKey = key, gBadKey = bad,
           gFn = fnHelper, gDom = domHelper, gSteps = steps, gSalts = salts\<rparr>"
    by (auto simp: draw_program_def elim!: thenDraw_InrE)
  have vars: "length vars = 4" "\<forall>v \<in> set vars. length v = 12 \<and> set v \<subseteq> set varChars"
    "\<forall>v \<in> set vars. v \<noteq> [] \<and> hd v \<in> set varLetters \<and> set v \<subseteq> set varChars"
    using drawMany_Inr [OF d(2)] by (auto dest!: randVar_Inr)
  have "0 \<le> sint (word_of_int i :: i32)" if "i \<in> set vals" for i
    using that drawMany_Inr [OF d(3)] sint_of_small [of i, where ?'a = 32] by (auto dest!: randInt_Inr)
  then have names: "program_names p"
    using vars(3) randVar_Inr [OF d(8)] randVar_Inr [OF d(9)] draw_bad_key_Inr [OF d(5)] unfolding p program_names_def by auto
  have steps: "\<forall>st \<in> set steps. stDest st < 4 \<and> stSrc1 st < 4 \<and> stSrc2 st < 4 \<and> stSrc3 st < 4"
    using drawMany_Inr [OF d(6)] by (auto simp: draw_step_def elim!: thenDraw_InrE dest!: randInt_Inr)
  have salts: "length salts = 4" "\<forall>salt \<in> set salts. 100000 \<le> salt \<and> salt \<le> 999999"
    using drawMany_Inr [OF d(7)] by (auto dest!: randInt_Inr)
  show ?thesis
    using randHex_Inr [OF d(1)] vars drawMany_Inr [OF d(3)] randInt_Inr [OF d(4)] draw_bad_key_Inr [OF d(5)] steps salts names
    unfolding p program_ok_def by simp
qed

lemma length_step_vals [simp]: "length (step_vals st vals) = length vals"
  by (simp add: step_vals_def Let_def)

lemma length_steps [simp]: "length (fold step_vals sts vals) = length vals"
  by (induction sts arbitrary: vals) simp_all

lemma steps_agree:
  "\<forall>st \<in> set sts. stDest st < length vals \<and> stSrc1 st < length vals \<and> stSrc2 st < length vals \<and> stSrc3 st < length vals
    \<Longrightarrow> fold js_step sts (map sint vals) = map sint (fold step_vals sts vals)"
  by (induction sts arbitrary: vals) (simp_all add: step_ok)

lemma sint_small_key: "0 \<le> k \<Longrightarrow> k \<le> 999999 \<Longrightarrow> sint (word_of_int k :: i32) = k"
  by (intro sint_of_small) auto

lemma program_agrees:
  assumes "program_ok p"
  shows "js_program True p = map sint (program_vals p)"
    and "\<forall>v \<in> set (program_vals p). 100000 \<le> sint v \<and> sint v \<le> 999999" "length (program_vals p) = 4"
proof -
  let ?vals = "(gInit p)[0 := (gInit p ! 0) XOR word_of_int (gKey p)]"
  have l: "length (gInit p) = 4" "length (gSalts p) = 4" using assms by (simp_all add: program_ok_def)
  have k: "sint (word_of_int (gKey p) :: i32) = gKey p" using assms by (intro sint_small_key) (auto simp: program_ok_def)
  have "js_xor (sint (gInit p ! 0)) (gKey p) = sint ((gInit p ! 0) XOR word_of_int (gKey p))"
    using js_ops(3) [of "gInit p ! 0" "word_of_int (gKey p)"] k by simp
  then have env: "(map sint (gInit p))[0 := js_xor (map sint (gInit p) ! 0) (gKey p)] = map sint ?vals"
    using l by (simp add: map_update)
  have steps: "fold js_step (gSteps p) (map sint ?vals) = map sint (fold step_vals (gSteps p) ?vals)"
    using assms l by (intro steps_agree) (simp add: program_ok_def)
  have salts: "map2 js_salt (map sint vs) ss = map sint (map2 (\<lambda>v salt. salt_value v (word_of_int salt)) vs ss)"
    if "\<forall>s \<in> set ss. 100000 \<le> s \<and> s \<le> 999999" for vs ss
    using that
  proof (induction vs arbitrary: ss)
    case (Cons v vs)
    show ?case
    proof (cases ss)
      case (Cons s ss')
      then have "sint (word_of_int s :: i32) = s" using Cons.prems by (intro sint_small_key) auto
      then have "js_salt (sint v) s = sint (salt_value v (word_of_int s))" using salt_ok [of v "word_of_int s"] by simp
      then show ?thesis using Cons.IH [of ss'] Cons.prems \<open>ss = s # ss'\<close> by simp
    qed simp
  qed simp
  show "js_program True p = map sint (program_vals p)"
    unfolding js_program_def program_vals_def Let_def if_True env steps
    using assms by (intro salts) (simp add: program_ok_def)
  show "\<forall>v \<in> set (program_vals p). 100000 \<le> sint v \<and> sint v \<le> 999999"
    unfolding program_vals_def Let_def using salt_bounds by (auto simp: set_zip)
  show "length (program_vals p) = 4" unfolding program_vals_def Let_def using l by simp
qed

text \<open>The hash: five shifts and six summands are the multiplication by the FNV prime.\<close>

lemma js_hash_unit_agrees: "js_hash_unit (uint (h :: u32)) u = uint ((h XOR word_of_nat u) * 16777619)"
proof -
  have "js_word (uint h) = h" "js_word (int u) = word_of_nat u" by (simp_all add: js_word_def)
  then have x: "js_xor (uint h) (int u) = sint (h XOR word_of_nat u)" by (simp add: js_xor_def)
  have p: "push_bit k w = 2 ^ k * w" for k and w :: u32 by (simp add: push_bit_eq_mult mult.commute)
  have s: "js_word (sint a + sint b + sint c + sint d + sint e + sint f) = a + b + c + d + e + f" for a b c d e f :: i32
    by (simp add: js_word_def)
  show ?thesis
    unfolding js_hash_unit_def Let_def x js_shl_def js_word_sint s by (simp add: p algebra_simps)
qed

text \<open>A template whose verbs end inside it formats to text followed by the format of what comes after.\<close>

function aligned :: "string \<Rightarrow> bool" where
  "aligned [] \<longleftrightarrow> True"
| "aligned (c # s) \<longleftrightarrow>
     (if c \<noteq> CHR ''%'' then aligned s
      else if s \<noteq> [] \<and> hd s = CHR ''%'' then aligned (tl s)
      else if s \<noteq> [] \<and> hd s = CHR ''['' then
        (let digits = takeWhile is_digit (tl s) in length digits + 3 \<le> length s \<and> aligned (drop (length digits + 3) s))
      else s \<noteq> [] \<and> aligned (drop 1 s))"
  by pat_completeness auto
termination by (relation "measure length") auto

lemma takeWhile_inside: "length (takeWhile P s) < length s \<Longrightarrow> takeWhile P (s @ t) = takeWhile P s"
  by (induction s) auto

lemma sprintf_aligned:
  "aligned s \<Longrightarrow> \<exists>out n'. sprintf_from args n (s @ t) = out @ sprintf_from args n' t"
proof (induction s arbitrary: n rule: aligned.induct)
  case 1
  show ?case by (intro exI [of _ "[]"] exI [of _ n]) simp
next
  case (2 c s)
  have step: ?case if "sprintf_from args n ((c # s) @ t) = u @ sprintf_from args n' (s' @ t)"
      "\<exists>out n''. sprintf_from args n' (s' @ t) = out @ sprintf_from args n'' t" for u n' s'
    using that by (metis append.assoc)
  have ne: "c = CHR ''%'' \<Longrightarrow> s \<noteq> []" using 2(5) by (auto split: if_splits)
  consider (plain) "c \<noteq> CHR ''%''" | (percent) "c = CHR ''%''" "s \<noteq> []" "hd s = CHR ''%''"
    | (index) "c = CHR ''%''" "s \<noteq> []" "hd s = CHR ''[''" | (verb) "c = CHR ''%''" "s \<noteq> []" "hd s \<noteq> CHR ''%''" "hd s \<noteq> CHR ''[''"
    using ne by blast
  then show ?case
  proof cases
    case plain
    then show ?thesis using 2(1) [OF plain] 2(5) by (intro step [of "[c]" n s]) auto
  next
    case percent
    then show ?thesis using 2(2) 2(5) by (intro step [of "''%''" n "tl s"]) auto
  next
    case index
    let ?d = "takeWhile is_digit (tl s)"
    have l: "length ?d + 3 \<le> length s" "aligned (drop (length ?d + 3) s)" using index 2(5) by (auto simp: Let_def)
    then have "length ?d < length (tl s)" by simp
    from takeWhile_inside [OF this, of t] have d: "takeWhile is_digit (tl (s @ t)) = ?d" using index by simp
    show ?thesis
      using index l d 2(3) [OF _ _ _ refl] by (intro step [of "arg_text (args ! (of_base 10 ?d - 1))" "of_base 10 ?d" "drop (length ?d + 3) s"])
        (auto simp: Let_def)
  next
    case verb
    moreover have "Suc 0 - length s = 0" using verb(2) by (cases s) auto
    ultimately show ?thesis using 2(4) 2(5) by (intro step [of "arg_text (args ! n)" "Suc n" "drop 1 s"]) auto
  qed
qed

definition declarations :: "string list \<Rightarrow> i32 list \<Rightarrow> string" where
  "declarations vars vals = concat (map2 (\<lambda>v i. ''var '' @ v @ ''='' @ itoa (sint i) @ '';'') vars vals)"

definition frame_front :: string where
  "frame_front =
    ''(function(){window.onload=async function(){try {%[1]sconst %[2]s=await (async function(){%[3]s%[4]s'' @ lf @ ''      ''"

lemma frame_head_eq: "frame_head = frame_front @ ''var %[5]s=%[9]d;var %[6]s=%[10]d;var %[7]s=%[11]d;var %[8]s=%[12]d;''"
  by (simp add: frame_head_def frame_front_def)

lemma frame_front_aligned: "aligned frame_front"
  by code_simp

lemma four: "length xs = 4 \<Longrightarrow> xs = [xs ! 0, xs ! 1, xs ! 2, xs ! 3]"
  by (cases xs rule: list.exhaust; simp; cases "tl xs"; simp; cases "tl (tl xs)"; simp; cases "tl (tl (tl xs))"; simp)

lemma script_frame_contains:
  assumes "length vars = 4" "length initVals = 4"
  shows "\<exists>a b. script_frame helpers dvKey envChecks blockChecks vars initVals clientEqs outKey ident
    = a @ declarations vars initVals @ clientEqs @ b"
proof -
  let ?args = "[FS helpers, FS dvKey, FS (concat envChecks), FS blockChecks,
     FS (vars ! 0), FS (vars ! 1), FS (vars ! 2), FS (vars ! 3),
     FD (sint (initVals ! 0)), FD (sint (initVals ! 1)), FD (sint (initVals ! 2)), FD (sint (initVals ! 3)),
     FS clientEqs, FS outKey, FS (jsString ident)]"
  have d: "takeWhile is_digit (''13]s'' @ frame_tail) = ''13''" "of_base 10 ''13'' = 13" by (simp add: is_digit_def) code_simp
  have p: "sprintf_from ?args n (''%[13]s'' @ frame_tail) = clientEqs @ sprintf_from ?args 13 frame_tail" for n
    using d by (simp add: Let_def)
  have v: "declarations vars initVals = declarations [vars ! 0, vars ! 1, vars ! 2, vars ! 3] [initVals ! 0, initVals ! 1, initVals ! 2, initVals ! 3]"
    using four [OF assms(1)] four [OF assms(2)] by metis
  have b: "of_base 10 ''5'' = 5" "of_base 10 ''6'' = 6" "of_base 10 ''7'' = 7" "of_base 10 ''8'' = 8" "of_base 10 ''9'' = 9"
    "of_base 10 ''10'' = 10" "of_base 10 ''11'' = 11" "of_base 10 ''12'' = 12" by (simp_all add: of_base_def digit_val_def)
  have "sprintf_from ?args n (''var %[5]s=%[9]d;var %[6]s=%[10]d;var %[7]s=%[11]d;var %[8]s=%[12]d;'' @ ''%[13]s'' @ frame_tail)
      = declarations vars initVals @ sprintf_from ?args 12 (''%[13]s'' @ frame_tail)" for n
    unfolding v by (simp add: Let_def is_digit_def b declarations_def)
  then have "\<exists>b. sprintf_from ?args n (''var %[5]s=%[9]d;var %[6]s=%[10]d;var %[7]s=%[11]d;var %[8]s=%[12]d;'' @ ''%[13]s'' @ frame_tail)
      = declarations vars initVals @ clientEqs @ b" for n
    unfolding p by blast
  then show ?thesis
    unfolding script_frame_def sprintf_def frame_head_eq append_assoc
    using sprintf_aligned [OF frame_front_aligned, of ?args 0] by metis
qed

lemma buildClientScript_contains:
  assumes "buildClientScript ident vars initVals clientEqs block random = (Inr script, rest)" "length vars = 4" "length initVals = 4"
  shows "\<exists>a b. script = a @ declarations vars initVals @ clientEqs @ b"
  using assms(1) script_frame_contains [OF assms(2,3)] by (fastforce simp: buildClientScript_def Let_def elim!: thenDraw_InrE)

text \<open>What the generator puts together.\<close>

lemma generated:
  assumes "GenerateInstrumentation deflate random opts now = (Inr (Some i), rest)"
  obtains p script script' r r' a b where "program_ok p" "script = a @ declarations (gVars p) (gInit p) @ program_text p @ b"
    "if clamp_level (ObfuscationLevel opts) \<le> 3 then script' = script else obfuscateStrings script r = (Inr script', r')"
    "iBlob i = std_encode (deflate (str_bytes (stripScriptWhitespace script')))"
    "mID (iMeta i) = gID p" "mVars (iMeta i) = gVars p" "mExpectedVals (iMeta i) = program_vals p"
    "mBlock (iMeta i) = BlockAutomatedBrowsers opts"
    "mExpires (iMeta i) = unixMilli now + milliseconds (if optTTL opts \<le> 0 then defaultInstrumentationTTL else optTTL opts)"
    "fst (draw_program random) = Inr p"
proof -
  from assms obtain p script script' r1 r2 r3 where d: "draw_program random = (Inr p, r1)"
    "buildClientScript (gID p) (gVars p) (gInit p) (program_text p) (BlockAutomatedBrowsers opts) r1 = (Inr script, r2)"
    "(if clamp_level (ObfuscationLevel opts) \<le> 3 then give script else obfuscateStrings script) r2 = (Inr script', r3)"
    and i: "i = \<lparr>iBlob = std_encode (deflate (str_bytes (stripScriptWhitespace script'))),
                iMeta = \<lparr>mID = gID p, mExpectedVals = program_vals p, mVars = gVars p, mBlock = BlockAutomatedBrowsers opts,
                  mExpires = unixMilli now + milliseconds (if optTTL opts \<le> 0 then defaultInstrumentationTTL else optTTL opts)\<rparr>\<rparr>"
    by (auto simp: GenerateInstrumentation_def generate_def Let_def elim!: thenDraw_InrE)
  note ok = draw_program_ok [OF d(1)]
  obtain a b where "script = a @ declarations (gVars p) (gInit p) @ program_text p @ b"
    using buildClientScript_contains [OF d(2)] ok unfolding program_ok_def by blast
  then show thesis
    using ok d(1,3) i by (intro that [of p script a b script' r2 r3]) (auto split: if_splits)
qed

lemma varChars_ascii: "set s \<subseteq> set varChars \<Longrightarrow> ascii s"
  by (auto simp: ascii_def list_all_iff varChars_def)

lemma hex_text_ascii: "set s \<subseteq> hex_digits \<Longrightarrow> ascii s"
  by (auto simp: ascii_def list_all_iff hex_digits_def)

section \<open>An example\<close>

text \<open>Entropy of small bytes: names made of few letters, and keys that differ.\<close>

definition script_entropy :: "byte list" where
  "script_entropy = [0, 0, 0, 0] @ replicate 5 0 @ replicate 5 0 @ replicate 5 0 @ [0, 0, 0, 0] @ replicate 5 0 @ replicate 5 0
     @ replicate 5 0 @ replicate 5 0 @ replicate 5 0 @ replicate 5 0 @ [0, 0, 0, 0, 0, 0]"

definition example_entropy :: "byte list" where
  "example_entropy = replicate 16 0 @ (0 # replicate 11 0) @ (1 # replicate 11 0) @ (2 # replicate 11 0) @ (3 # replicate 11 0)
     @ concat (replicate 4 [0]) @ [0, 0] @ [0, 1] @ replicate 5 0 @ [0, 1, 0, 0, 0] @ concat (replicate 20 (replicate 5 0))
     @ concat (replicate 4 [0, 0, 0]) @ script_entropy"

lemma randInt_zero:
  "randInt 4 10 (0 # r) = (Inr 4, r)" "randInt 0 25 (0 # r) = (Inr 0, r)" "randInt 0 25 (1 # r) = (Inr 1, r)"
  "randInt 0 25 (2 # r) = (Inr 2, r)" "randInt 0 25 (3 # r) = (Inr 3, r)" "randInt 0 35 (0 # r) = (Inr 0, r)"
  "randInt 0 3 (0 # r) = (Inr 0, r)" "randInt 0 5 (0 # r) = (Inr 0, r)" "randInt 10 250 (0 # r) = (Inr 10, r)"
  "randInt 1000 9000 (0 # 0 # r) = (Inr 1000, r)" "randInt 1000 9000 (0 # 1 # r) = (Inr 1001, r)"
  "randInt 100000 999999 (0 # 0 # 0 # r) = (Inr 100000, r)" "randInt 1 0x7fffffff (0 # 0 # 0 # 0 # r) = (Inr 1, r)"
  "randInt 1000000 0x7fffffff (0 # 0 # 0 # 0 # r) = (Inr 1000000, r)"
  "randInt 0 6 (0 # r) = (Inr 0, r)" "randInt 0 4 (0 # r) = (Inr 0, r)" "randInt 0 2 (0 # r) = (Inr 0, r)" "randInt 0 1 (0 # r) = (Inr 0, r)"
  by (simp_all add: randInt_def rand_Int_def bitLen_def nat_bits.simps rand_loop.simps setBytes_def Let_def)

lemma unroll:
  "replicate (numeral k) x = x # replicate (pred_numeral k) x"
  "drawMany (numeral k) m = thenDraw m (\<lambda>x. thenDraw (drawMany (pred_numeral k) m) (\<lambda>xs. give (x # xs)))"
  by (simp_all add: numeral_eq_Suc)

lemma run_draws:
  "thenDraw m f random = (case m random of (Inl e, rest) \<Rightarrow> (Inl e, rest) | (Inr x, rest) \<Rightarrow> f x rest)" "give x random = (Inr x, random)"
  by (simp_all add: thenDraw_def give_def)

lemma example_var: "i \<in> {0, 1, 2, 3} \<Longrightarrow> randVar 12 (i # replicate 11 0 @ r) = (Inr (varLetters ! unat i # replicate 11 (CHR ''a'')), r)"
  by (auto simp: randVar_def run_draws unroll randInt_zero varChars_def)

lemma example_name: "randVar 0 (replicate 5 0 @ r) = (Inr ''aaaa'', r)"
  by (simp add: randVar_def run_draws unroll randInt_zero varChars_def varLetters_def)

lemma example_second: "randVar 0 ([0, 1, 0, 0, 0] @ r) = (Inr ''baaa'', r)"
  by (simp add: randVar_def run_draws unroll randInt_zero varChars_def varLetters_def)

lemma example_step: "draw_step (replicate 5 0 @ r) = (Inr \<lparr>stOp = 0, stDest = 0, stSrc1 = 0, stSrc2 = 0, stSrc3 = 0\<rparr>, r)"
  by (simp add: draw_step_def run_draws unroll randInt_zero)

lemma drawMany_feeds: "(\<And>r. m (xs @ r) = (Inr y, r)) \<Longrightarrow> drawMany n m (concat (replicate n xs) @ r) = (Inr (replicate n y), r)"
  by (induction n arbitrary: r) (simp_all add: run_draws)

lemma example_vars:
  "drawMany 4 (randVar 12) ((0 # replicate 11 0) @ (1 # replicate 11 0) @ (2 # replicate 11 0) @ (3 # replicate 11 0) @ r)
     = (Inr (map (\<lambda>c. c # replicate 11 (CHR ''a'')) ''abcd''), r)"
  using example_var [of 0] example_var [of 1] example_var [of 2] example_var [of 3]
  by (simp add: unroll(2) run_draws varLetters_def)

lemma example_id: "randHex 32 (replicate 16 0 @ r) = (Inr (hex_encode (replicate 16 0)), r)"
  by (simp add: randHex_def readFull_def)

lemma example_key:
  "randInt 1000 9000 ([0, 0] @ r) = (Inr 1000, r)" "draw_bad_key 1000 ([0, 1] @ r) = (Inr 1001, r)"
  by (simp_all add: randInt_zero draw_bad_key.simps)

lemma example_lists:
  "drawMany 4 (randInt 10 250) (concat (replicate 4 [0]) @ r) = (Inr (replicate 4 10), r)"
  "drawMany 20 draw_step (concat (replicate 20 (replicate 5 0)) @ r)
     = (Inr (replicate 20 \<lparr>stOp = 0, stDest = 0, stSrc1 = 0, stSrc2 = 0, stSrc3 = 0\<rparr>), r)"
  "drawMany 4 (randInt 100000 999999) (concat (replicate 4 [0, 0, 0]) @ r) = (Inr (replicate 4 100000), r)"
  by (rule drawMany_feeds; simp add: randInt_zero example_step)+

lemma example_program:
  obtains p where "draw_program example_entropy = (Inr p, script_entropy)" "distinct (gVars p)" "gFn p = ''aaaa''" "gDom p = ''baaa''"
proof -
  have "\<exists>p. draw_program example_entropy = (Inr p, script_entropy) \<and> gVars p = map (\<lambda>c. c # replicate 11 (CHR ''a'')) ''abcd''
      \<and> gFn p = ''aaaa'' \<and> gDom p = ''baaa''"
    unfolding example_entropy_def draw_program_def
    by (simp only: run_draws example_id example_vars example_lists example_key example_name example_second prod.case sum.case append_assoc) simp
  then show thesis using that by auto
qed

lemma example_script:
  obtains script where "buildClientScript ident vars initVals clientEqs False script_entropy = (Inr script, [])"
proof -
  have "\<exists>script. buildClientScript ident vars initVals clientEqs False script_entropy = (Inr script, [])"
    unfolding buildClientScript_def script_entropy_def
    by (simp add: run_draws randInt_zero example_name shuffleStrings_def Let_def)
  then show thesis using that by auto
qed

lemma example_generated:
  obtains i p where "GenerateInstrumentation deflate example_entropy \<lparr>BlockAutomatedBrowsers = False, ObfuscationLevel = 0, optTTL = 0\<rparr> now
      = (Inr (Some i), [])" "distinct (mVars (iMeta i))" "draw_program example_entropy = (Inr p, script_entropy)" "distinct (gVars p)"
      "gFn p = ''aaaa''" "gDom p = ''baaa''"
proof -
  obtain p where p: "draw_program example_entropy = (Inr p, script_entropy)" "distinct (gVars p)" "gFn p = ''aaaa''" "gDom p = ''baaa''"
    by (rule example_program)
  obtain script where "buildClientScript (gID p) (gVars p) (gInit p) (program_text p) False script_entropy = (Inr script, [])"
    by (rule example_script)
  then show thesis
    using p by (intro that) (auto simp: GenerateInstrumentation_def generate_def run_draws clamp_level_def Let_def)
qed

lemma vars_distinct_iff: "vars_distinct seen vs \<longleftrightarrow> distinct vs \<and> set vs \<inter> seen = {} \<and> [] \<notin> set vs"
  by (induction vs arbitrary: seen) auto

lemma std_encode_Nil: "std_encode bs = [] \<longleftrightarrow> bs = []"
  by (auto simp: std_encode_def b64_raw_encode_def)

text \<open>Nothing but the end of entropy stops the generator, and it stops it by a panic.\<close>

definition only_panics :: "'a drawn \<Rightarrow> bool" where
  "only_panics m \<longleftrightarrow> (\<forall>random e rest. m random = (Inl e, rest) \<longrightarrow> (\<exists>s. e = EPanic s))"

named_theorems panics

lemma only_panics_basic [panics]:
  "only_panics (give x)" "only_panics (randInt lo hi)" "only_panics (randHex n)"
  by (auto simp: only_panics_def give_def randInt_def randHex_def source_failed_def split: if_splits sum.splits prod.splits)

lemma only_panics_thenDraw [panics]: "only_panics m \<Longrightarrow> (\<And>x. only_panics (f x)) \<Longrightarrow> only_panics (thenDraw m f)"
  unfolding only_panics_def thenDraw_def by (auto split: sum.splits prod.splits)

lemma only_panics_many [panics]: "only_panics m \<Longrightarrow> only_panics (drawMany n m)"
  by (induction n) (auto intro!: panics)

lemma only_panics_names [panics]: "only_panics (randVar n)" "only_panics (shuffle_from i items)" "only_panics (shuffleStrings items)"
proof -
  show s: "only_panics (shuffle_from i items)" for i and items :: "'a list"
    by (induction i arbitrary: items) (auto intro!: panics)
  show "only_panics (shuffleStrings items)" unfolding shuffleStrings_def by (rule s)
  show "only_panics (randVar n)" unfolding randVar_def by (auto intro!: panics)
qed

lemma only_panics_bad_key [panics]: "only_panics (draw_bad_key key)"
proof -
  have "draw_bad_key key random = (Inl e, rest) \<Longrightarrow> \<exists>s. e = EPanic s" for random e rest
  proof (induction key random rule: draw_bad_key.induct)
    case (1 key random)
    then show ?case
      using only_panics_basic(2) [of 1000 9000]
      by (subst (asm) (2) draw_bad_key.simps) (auto simp: only_panics_def split: if_splits sum.splits prod.splits)
  qed
  then show ?thesis by (simp add: only_panics_def)
qed

lemma only_panics_scripts [panics]:
  "only_panics draw_program" "only_panics (buildClientScript ident vars initVals clientEqs block)" "only_panics (obfuscateStrings script)"
  unfolding draw_program_def draw_step_def buildClientScript_def buildBlockChecks_def obfuscateStrings_def Let_def
  by (auto intro!: panics split: prod.splits)

section \<open>Properties\<close>

text \<open>
  The script's hash of a name is the hash that the server compares with: the shifts and
  additions on JavaScript numbers are the multiplication by the FNV prime modulo \<open>2 ^ 32\<close>.
\<close>

lemma script_hash_agrees: "js_hash seed s = int (unat (hashWith seed s))"
proof -
  have "foldl js_hash_unit (uint h) us = uint (foldl (\<lambda>h u. (h XOR word_of_nat u) * 16777619) h us)" for us and h :: u32
    by (induction us arbitrary: h) (simp_all add: js_hash_unit_agrees)
  then show ?thesis by (simp add: js_hash_def hashWith_def fnv1a32Resume_def)
qed

text \<open>
  Property C35. What \<open>Cap\<close> checks on a generator's output holds for the built-in generator whenever the
  four variable names differ, so its challenge is used as it is; its policy flag and its lifetime are
  those of the options. Without entropy it panics; it has no other error. A DEFLATE stream is never
  empty.
\<close>

theorem built_in_generator_accepted:
  assumes "\<And>bs. deflate bs \<noteq> []" "0 < unixMilli now"
  shows "case GenerateInstrumentation deflate random opts now of
      (Inl e, rest) \<Rightarrow> \<exists>s. e = EPanic s
    | (Inr None, rest) \<Rightarrow> False
    | (Inr (Some i), rest) \<Rightarrow>
        (if distinct (mVars (iMeta i)) then accept_instrumentation opts now (Some i) = Inr i
         else accept_instrumentation opts now (Some i) = Inl (configErr ''instrumentation generator returned invalid variables''))
        \<and> length (mID (iMeta i)) = 32 \<and> length (mVars (iMeta i)) = 4 \<and> mBlock (iMeta i) = BlockAutomatedBrowsers opts
        \<and> mExpires (iMeta i) = unixMilli now + milliseconds (if optTTL opts \<le> 0 then defaultInstrumentationTTL else optTTL opts)"
proof (cases "GenerateInstrumentation deflate random opts now")
  case (Pair r rest)
  show ?thesis
  proof (cases r)
    case (Inl e)
    have "only_panics (thenDraw (generate deflate opts now) (\<lambda>i. give (Some i)))"
      unfolding generate_def Let_def by (auto intro!: panics)
    then show ?thesis using Pair Inl by (auto simp: GenerateInstrumentation_def only_panics_def)
  next
    case (Inr q)
    then obtain i where i: "GenerateInstrumentation deflate random opts now = (Inr (Some i), rest)" "q = Some i"
      using Pair by (auto simp: GenerateInstrumentation_def elim!: thenDraw_InrE)
    obtain p script script' r r' a b where g: "program_ok p" "iBlob i = std_encode (deflate (str_bytes (stripScriptWhitespace script')))"
      "mID (iMeta i) = gID p" "mVars (iMeta i) = gVars p" "mExpectedVals (iMeta i) = program_vals p"
      "mBlock (iMeta i) = BlockAutomatedBrowsers opts"
      "mExpires (iMeta i) = unixMilli now + milliseconds (if optTTL opts \<le> 0 then defaultInstrumentationTTL else optTTL opts)"
      by (rule generated [OF i(1)])
    have "0 \<le> milliseconds (if optTTL opts \<le> 0 then defaultInstrumentationTTL else optTTL opts)"
      by (simp add: milliseconds_def defaultInstrumentationTTL_def pos_imp_zdiv_nonneg_iff)
    then have e: "mExpires (iMeta i) \<noteq> 0" using g(7) assms(2) by linarith
    have p: "length (gID p) = 32" "length (gVars p) = 4" "[] \<notin> set (gVars p)" "length (program_vals p) = 4"
      using g(1) program_agrees(3) [OF g(1)] unfolding program_ok_def by auto
    have "iBlob i \<noteq> []" "mID (iMeta i) \<noteq> []" "mVars (iMeta i) \<noteq> []" "length (mVars (iMeta i)) = length (mExpectedVals (iMeta i))"
      using g p assms(1) by (auto simp: std_encode_Nil)
    then show ?thesis
      using i(1) e g p by (simp add: accept_instrumentation_def Let_def vars_distinct_iff)
  qed
qed

theorem built_in_generator_accepted_witness:
  "\<exists>i. GenerateInstrumentation (\<lambda>bs. 1 # bs) example_entropy \<lparr>BlockAutomatedBrowsers = False, ObfuscationLevel = 0, optTTL = 0\<rparr> (17 * 10 ^ 17)
      = (Inr (Some i), [])
    \<and> accept_instrumentation \<lparr>BlockAutomatedBrowsers = False, ObfuscationLevel = 0, optTTL = 0\<rparr> (17 * 10 ^ 17) (Some i) = Inr i"
proof (rule example_generated)
  fix i
  assume i: "GenerateInstrumentation (\<lambda>bs. 1 # bs) example_entropy \<lparr>BlockAutomatedBrowsers = False, ObfuscationLevel = 0, optTTL = 0\<rparr> (17 * 10 ^ 17)
      = (Inr (Some i), [])" "distinct (mVars (iMeta i))"
  have "0 < unixMilli (17 * 10 ^ 17)" by (simp add: unixMilli_def)
  from built_in_generator_accepted [where deflate = "\<lambda>bs. 1 # bs" and random = example_entropy
      and opts = "\<lparr>BlockAutomatedBrowsers = False, ObfuscationLevel = 0, optTTL = 0\<rparr>", OF _ this] i show ?thesis by simp
qed

end
