(* ===== verification/Js.thy ===== *)
theory Js
  imports Program Json
begin

text \<open>
  The statements of the client script as text: an executable meaning of the part of JavaScript that
  \<open>GenerateInstrumentation\<close> writes. The text is cut into tokens, each statement is parsed with
  JavaScript's operator precedence, and evaluated on the variables. The helper functions are given
  as \<open>js_fn\<close> and \<open>js_dom\<close>; every other construct has no meaning, the value \<open>None\<close>.
\<close>

section \<open>Tokens\<close>

datatype js_token = JWord string | JLit int | JSym char

definition js_letter :: "char \<Rightarrow> bool" where
  "js_letter c \<longleftrightarrow> c \<in> set ''abcdefghijklmnopqrstuvwxyzABCDEFGHIJKLMNOPQRSTUVWXYZ_$''"

definition js_word_char :: "char \<Rightarrow> bool" where
  "js_word_char c \<longleftrightarrow> js_letter c \<or> js_digit c"

definition js_hex_digit :: "char \<Rightarrow> bool" where
  "js_hex_digit c \<longleftrightarrow> js_digit c \<or> c \<in> set ''abcdefABCDEF''"

definition js_number :: "string \<Rightarrow> int option" where
  "js_number w =
     (if take 2 w = ''0x'' then (if drop 2 w \<noteq> [] \<and> list_all js_hex_digit (drop 2 w) then Some (int (of_base 16 (drop 2 w))) else None)
      else if list_all js_digit w \<and> (hd w \<noteq> CHR ''0'' \<or> length w = 1) then Some (int (of_base 10 w)) else None)"

function js_tokens :: "string \<Rightarrow> js_token list option" where
  "js_tokens [] = Some []"
| "js_tokens (c # s) =
     (if c = CHR '' '' then js_tokens s
      else if js_letter c then map_option ((#) (JWord (c # takeWhile js_word_char s))) (js_tokens (dropWhile js_word_char s))
      else if js_digit c then
        (case js_number (c # takeWhile js_word_char s) of None \<Rightarrow> None
         | Some n \<Rightarrow> map_option ((#) (JLit n)) (js_tokens (dropWhile js_word_char s)))
      else if c \<in> set ''=~&|^?:()%+,;.'' then map_option ((#) (JSym c)) (js_tokens s)
      else None)"
  by pat_completeness auto
termination by (relation "measure length") (auto simp: less_Suc_eq_le length_dropWhile_le)

declare js_tokens.simps(2) [simp del]

section \<open>Expressions\<close>

datatype js_expr =
    JNum int
  | JVar string
  | JMember string string
  | JNot js_expr
  | JBin char js_expr js_expr
  | JCond js_expr js_expr js_expr
  | JCall string "js_expr list"

text \<open>The reserved words, strict mode and literals included; none of them is a name.\<close>

definition js_reserved :: "string list" where
  "js_reserved =
     [''await'', ''break'', ''case'', ''catch'', ''class'', ''const'', ''continue'', ''debugger'', ''default'', ''delete'', ''do'',
      ''else'', ''enum'', ''export'', ''extends'', ''false'', ''finally'', ''for'', ''function'', ''if'', ''implements'', ''import'',
      ''in'', ''instanceof'', ''interface'', ''let'', ''new'', ''null'', ''package'', ''private'', ''protected'', ''public'',
      ''return'', ''static'', ''super'', ''switch'', ''this'', ''throw'', ''true'', ''try'', ''typeof'', ''var'', ''void'',
      ''while'', ''with'', ''yield'']"

definition js_prec :: "char \<Rightarrow> nat option" where
  "js_prec c =
     (if c = CHR ''|'' then Some 1 else if c = CHR ''^'' then Some 2 else if c = CHR ''&'' then Some 3
      else if c = CHR ''+'' then Some 4 else if c = CHR ''%'' then Some 5 else None)"

text \<open>Precedence climbing; the first argument bounds the depth of the recursion.\<close>

fun js_parse :: "nat \<Rightarrow> js_token list \<Rightarrow> (js_expr \<times> js_token list) option"
  and js_parse_from :: "nat \<Rightarrow> nat \<Rightarrow> js_token list \<Rightarrow> (js_expr \<times> js_token list) option"
  and js_operators :: "nat \<Rightarrow> nat \<Rightarrow> js_expr \<Rightarrow> js_token list \<Rightarrow> (js_expr \<times> js_token list) option"
  and js_operand :: "nat \<Rightarrow> js_token list \<Rightarrow> (js_expr \<times> js_token list) option"
  and js_arguments :: "nat \<Rightarrow> js_token list \<Rightarrow> (js_expr list \<times> js_token list) option"
where
  "js_parse 0 ts = None"
| "js_parse (Suc k) ts =
     (case js_parse_from k 1 ts of
        Some (e, JSym c # r) \<Rightarrow>
          if c = CHR ''?'' then
            (case js_parse k r of
               Some (a, JSym d # r1) \<Rightarrow>
                 if d = CHR '':'' then map_option (\<lambda>(b, r2). (JCond e a b, r2)) (js_parse k r1) else None
             | _ \<Rightarrow> None)
          else Some (e, JSym c # r)
      | x \<Rightarrow> x)"
| "js_parse_from 0 n ts = None"
| "js_parse_from (Suc k) n ts = (case js_operand k ts of None \<Rightarrow> None | Some (e, r) \<Rightarrow> js_operators k n e r)"
| "js_operators 0 n e ts = None"
| "js_operators (Suc k) n e ts =
     (case ts of
        JSym c # r \<Rightarrow>
          (case js_prec c of
             Some m \<Rightarrow>
               if n \<le> m then (case js_parse_from k (m + 1) r of None \<Rightarrow> None | Some (e', r') \<Rightarrow> js_operators k n (JBin c e e') r')
               else Some (e, ts)
           | None \<Rightarrow> Some (e, ts))
      | _ \<Rightarrow> Some (e, ts))"
| "js_operand 0 ts = None"
| "js_operand (Suc k) ts =
     (case ts of
        JLit i # r \<Rightarrow> Some (JNum i, r)
      | JSym c # r \<Rightarrow>
          if c = CHR ''~'' then map_option (\<lambda>(e, r'). (JNot e, r')) (js_operand k r)
          else if c = CHR ''('' then
            (case js_parse k r of
               Some (e, JSym d # r') \<Rightarrow> if d = CHR '')'' then Some (e, r') else None
             | _ \<Rightarrow> None)
          else None
      | JWord v # r \<Rightarrow>
          if v \<in> set js_reserved then None
          else (case r of
                  JSym c # r1 \<Rightarrow>
                    if c = CHR ''('' then map_option (\<lambda>(es, r2). (JCall v es, r2)) (js_arguments k r1)
                    else if c = CHR ''.'' then (case r1 of JWord m # r2 \<Rightarrow> Some (JMember v m, r2) | _ \<Rightarrow> None)
                    else Some (JVar v, r)
                | _ \<Rightarrow> Some (JVar v, r))
      | [] \<Rightarrow> None)"
| "js_arguments 0 ts = None"
| "js_arguments (Suc k) ts =
     (case js_parse k ts of
        Some (e, JSym c # r) \<Rightarrow>
          if c = CHR '','' then map_option (\<lambda>(es, r'). (e # es, r')) (js_arguments k r)
          else if c = CHR '')'' then Some ([e], r) else None
      | _ \<Rightarrow> None)"

definition js_binary :: "char \<Rightarrow> int \<Rightarrow> int \<Rightarrow> int option" where
  "js_binary c a b =
     (if c = CHR ''|'' then Some (js_or a b) else if c = CHR ''^'' then Some (js_xor a b)
      else if c = CHR ''&'' then Some (js_and a b) else if c = CHR ''+'' then Some (a + b)
      else if c = CHR ''%'' \<and> b \<noteq> 0 then Some (a smod b) else None)"

type_synonym js_env = "string \<Rightarrow> int option"
type_synonym js_functions = "(string \<times> (int list \<Rightarrow> int option)) list"

text \<open>\<open>navigator.userAgent\<close> is a string, of which only the truth is used; a declared \<open>navigator\<close> would hide it.\<close>

fun js_eval :: "js_functions \<Rightarrow> bool \<Rightarrow> js_env \<Rightarrow> js_expr \<Rightarrow> int option" where
  "js_eval fs ua env (JNum i) = Some i"
| "js_eval fs ua env (JVar v) = env v"
| "js_eval fs ua env (JMember v m) = None"
| "js_eval fs ua env (JNot e) = map_option js_not (js_eval fs ua env e)"
| "js_eval fs ua env (JBin c a b) =
     Option.bind (js_eval fs ua env a) (\<lambda>x. Option.bind (js_eval fs ua env b) (js_binary c x))"
| "js_eval fs ua env (JCond c a b) =
     (case (if c = JMember ''navigator'' ''userAgent''
            then (if env ''navigator'' = None \<and> map_of fs ''navigator'' = None then Some ua else None)
            else map_option (\<lambda>x. x \<noteq> 0) (js_eval fs ua env c)) of
        None \<Rightarrow> None
      | Some t \<Rightarrow> if t then js_eval fs ua env a else js_eval fs ua env b)"
| "js_eval fs ua env (JCall f es) =
     (case map_of fs f of None \<Rightarrow> None
      | Some g \<Rightarrow> if env f = None then Option.bind (those (map (js_eval fs ua env) es)) g else None)"

section \<open>Statements\<close>

definition js_depth :: nat where
  "js_depth = 30"

definition js_value :: "js_functions \<Rightarrow> bool \<Rightarrow> js_env \<Rightarrow> js_token list \<Rightarrow> int option" where
  "js_value fs ua env ts = (case js_parse js_depth ts of Some (e, []) \<Rightarrow> js_eval fs ua env e | _ \<Rightarrow> None)"

text \<open>An assignment to a declared variable, or a declaration.\<close>

definition js_statement :: "js_functions \<Rightarrow> bool \<Rightarrow> js_token list \<Rightarrow> js_env \<Rightarrow> js_env option" where
  "js_statement fs ua ts env =
     (case ts of
        JWord v # JSym c # r \<Rightarrow>
          if c = CHR ''='' \<and> v \<notin> set js_reserved \<and> env v \<noteq> None
          then map_option (\<lambda>i. env(v \<mapsto> i)) (js_value fs ua env r) else None
      | JWord k # JWord v # JSym c # r \<Rightarrow>
          if k = ''var'' \<and> c = CHR ''='' \<and> v \<notin> set js_reserved
          then map_option (\<lambda>i. env(v \<mapsto> i)) (js_value fs ua env r) else None
      | _ \<Rightarrow> None)"

fun js_split :: "js_token list \<Rightarrow> js_token list list" where
  "js_split [] = [[]]"
| "js_split (t # ts) = (if t = JSym (CHR '';'') then [] # js_split ts else (t # hd (js_split ts)) # tl (js_split ts))"

fun js_statements :: "js_functions \<Rightarrow> bool \<Rightarrow> js_token list list \<Rightarrow> js_env \<Rightarrow> js_env option" where
  "js_statements fs ua [] env = None"
| "js_statements fs ua (s # ss) env =
     (if ss = [] then (if s = [] then Some env else None)
      else Option.bind (js_statement fs ua s env) (js_statements fs ua ss))"

definition js_run :: "js_functions \<Rightarrow> bool \<Rightarrow> string \<Rightarrow> js_env \<Rightarrow> js_env option" where
  "js_run fs ua s env = (case js_tokens s of None \<Rightarrow> None | Some ts \<Rightarrow> js_statements fs ua (js_split ts) env)"

section \<open>Lemmas: tokens\<close>

definition js_ident :: "string \<Rightarrow> bool" where
  "js_ident v \<longleftrightarrow> v \<noteq> [] \<and> js_letter (hd v) \<and> list_all js_word_char v \<and> v \<notin> set js_reserved"

definition word_ends :: "string \<Rightarrow> bool" where
  "word_ends rest \<longleftrightarrow> rest = [] \<or> \<not> js_word_char (hd rest)"

lemma word_ends_simps [simp]:
  "word_ends []" "word_ends (CHR '' '' # s)" "word_ends (CHR '';'' # s)" "word_ends (CHR ''='' # s)" "word_ends (CHR '')'' # s)"
  "word_ends (CHR '','' # s)" "word_ends (CHR ''('' # s)" "word_ends (CHR ''^'' # s)" "word_ends (CHR ''+'' # s)" "word_ends (CHR ''.'' # s)"
  by (simp_all add: word_ends_def js_word_char_def js_letter_def js_digit_def)

lemma word_splits:
  assumes "list_all js_word_char w" "word_ends rest"
  shows "takeWhile js_word_char (w @ rest) = w" "dropWhile js_word_char (w @ rest) = rest"
proof -
  have "takeWhile js_word_char rest = []" "dropWhile js_word_char rest = rest" using assms(2) by (cases rest; simp add: word_ends_def)+
  then show "takeWhile js_word_char (w @ rest) = w" "dropWhile js_word_char (w @ rest) = rest"
    using assms(1) by (simp_all add: list_all_iff takeWhile_append2 dropWhile_append2)
qed

lemma js_letter_not: "js_letter c \<Longrightarrow> c \<noteq> CHR '' '' \<and> \<not> js_digit c"
  by (auto simp: js_letter_def js_digit_def)

lemma tokens_word:
  assumes "js_letter (hd v)" "v \<noteq> []" "list_all js_word_char v" "word_ends rest"
  shows "js_tokens (v @ rest) = map_option ((#) (JWord v)) (js_tokens rest)"
proof -
  obtain c w where v: "v = c # w" using assms(2) by (cases v) auto
  then have "list_all js_word_char w" using assms(3) by simp
  from word_splits [OF this assms(4)] show ?thesis
    using assms(1) js_letter_not [of c] by (simp add: v js_tokens.simps(2))
qed

lemma js_number_digits: "list_all js_digit w \<Longrightarrow> hd w \<noteq> CHR ''0'' \<or> length w = 1 \<Longrightarrow> js_number w = Some (int (of_base 10 w))"
proof -
  assume d: "list_all js_digit w" "hd w \<noteq> CHR ''0'' \<or> length w = 1"
  have "\<not> js_digit (CHR ''x'')" by (simp add: js_digit_def)
  then have "CHR ''x'' \<notin> set w" using d(1) by (auto simp: list_all_iff)
  then have "take 2 w \<noteq> ''0x''" using in_set_takeD [of "CHR ''x''" 2 w] by auto
  then show ?thesis using d by (simp add: js_number_def)
qed

lemma js_number_nat: "js_number (to_base 10 n) = Some (int n)"
  using js_number_digits [of "to_base 10 n"] to_base_10_js_digits [of n] hd_to_base_10 [of n]
  by (auto simp: to_base.simps [of 10 0])

lemma tokens_itoa:
  assumes "0 \<le> i" "word_ends rest"
  shows "js_tokens (itoa i @ rest) = map_option ((#) (JLit i)) (js_tokens rest)"
proof -
  obtain c w where cw: "to_base 10 (nat i) = c # w" by (cases "to_base 10 (nat i)") auto
  have d: "js_digit c" "list_all js_word_char w"
    using to_base_10_js_digits [of "nat i"] by (auto simp: cw list_all_iff js_word_char_def)
  have "\<not> js_letter c" "c \<noteq> CHR '' ''" using d(1) by (auto simp: js_letter_def js_digit_def)
  then show ?thesis
    using assms(1) d word_splits [OF d(2) assms(2)] js_number_nat [of "nat i"]
    by (simp add: itoa_def cw js_tokens.simps(2))
qed

lemma tokens_space [simp]: "js_tokens (CHR '' '' # s) = js_tokens s"
  by (simp add: js_tokens.simps(2))

lemma sym_plain: "c \<in> set ''=~&|^?:()%+,;.'' \<Longrightarrow> c \<noteq> CHR '' '' \<and> \<not> js_letter c \<and> \<not> js_digit c"
  by (auto simp: js_letter_def js_digit_def)

lemma tokens_sym: "c \<in> set ''=~&|^?:()%+,;.'' \<Longrightarrow> js_tokens (c # s) = map_option ((#) (JSym c)) (js_tokens s)"
  using sym_plain [of c] by (simp only: js_tokens.simps(2) if_False if_True simp_thms)

lemmas tokens_syms [simp] = tokens_sym [of "CHR ''=''", simplified] tokens_sym [of "CHR ''~''", simplified]
  tokens_sym [of "CHR ''&''", simplified] tokens_sym [of "CHR ''|''", simplified] tokens_sym [of "CHR ''^''", simplified]
  tokens_sym [of "CHR ''?''", simplified] tokens_sym [of "CHR '':''", simplified] tokens_sym [of "CHR ''(''", simplified]
  tokens_sym [of "CHR '')''", simplified] tokens_sym [of "CHR ''%''", simplified] tokens_sym [of "CHR ''+''", simplified]
  tokens_sym [of "CHR '',''", simplified] tokens_sym [of "CHR '';''", simplified] tokens_sym [of "CHR ''.''", simplified]

text \<open>The literals of the salting statement and of the key statement.\<close>

lemma tokens_mask: "js_tokens (''0x7FFFFFFF'' @ CHR '')'' # s) = map_option ((#) (JLit 0x7FFFFFFF)) (js_tokens (CHR '')'' # s))"
proof -
  have w: "list_all js_word_char ''x7FFFFFFF''" by (simp add: js_word_char_def js_letter_def js_digit_def)
  have n: "js_number ''0x7FFFFFFF'' = Some 0x7FFFFFFF"
    by (simp add: js_number_def js_hex_digit_def js_digit_def of_base_def digit_val_def)
  show ?thesis
    using word_splits [OF w, of "CHR '')'' # s"] n
    by (simp add: js_tokens.simps(2) [of "CHR ''0''"] js_letter_def js_digit_def)
qed

lemma numeral_texts: "''900000'' = itoa 900000" "''100000'' = itoa 100000"
  by (simp_all add: itoa_def to_base.simps digit_char_def digit_chars_def)

section \<open>Lemmas: statements one by one\<close>

lemma js_split_append: "JSym (CHR '';'') \<notin> set ts \<Longrightarrow> js_split (ts @ JSym (CHR '';'') # rest) = ts # js_split rest"
  by (induction ts) auto

lemma js_split_ne [simp]: "js_split ts \<noteq> []"
  by (induction ts) auto

text \<open>A text whose tokens are those of one statement is run first.\<close>

lemma js_run_statement:
  assumes "js_tokens (s @ rest) = map_option (\<lambda>r. ts @ JSym (CHR '';'') # r) (js_tokens rest)" "JSym (CHR '';'') \<notin> set ts"
    and "js_statement fs ua ts env = Some env'"
  shows "js_run fs ua (s @ rest) env = js_run fs ua rest env'"
  using assms by (cases "js_tokens rest") (simp_all add: js_run_def js_split_append)

lemma js_depth_Suc: "js_depth = Suc (Suc (Suc (Suc (Suc (Suc (Suc (Suc (Suc (Suc (Suc (Suc (Suc (Suc (Suc (Suc (Suc (Suc (Suc (Suc
    (Suc (Suc (Suc (Suc (Suc (Suc (Suc (Suc (Suc (Suc 0)))))))))))))))))))))))))))))"
  by (simp add: js_depth_def)

lemma tokens_ident: "js_ident v \<Longrightarrow> word_ends rest \<Longrightarrow> js_tokens (v @ rest) = map_option ((#) (JWord v)) (js_tokens rest)"
  by (simp add: js_ident_def tokens_word)

lemma ident_free [simp]: "js_ident v \<Longrightarrow> v \<notin> set js_reserved"
  by (simp add: js_ident_def)

text \<open>The helpers; a later declaration of the same name would hide the first.\<close>

definition js_helpers :: "string \<Rightarrow> string \<Rightarrow> js_functions" where
  "js_helpers fnHelper domHelper =
     [(domHelper, \<lambda>xs. case xs of [x, y, z] \<Rightarrow> Some (js_dom x y z) | _ \<Rightarrow> None),
      (fnHelper, \<lambda>xs. case xs of [a, b, c] \<Rightarrow> Some (js_fn a b c) | _ \<Rightarrow> None)]"

text \<open>The tokens of one step.\<close>

definition step_tokens :: "string list \<Rightarrow> string \<Rightarrow> string \<Rightarrow> prog_step \<Rightarrow> js_token list" where
  "step_tokens vars fnHelper domHelper st =
     (let d = JWord (vars ! stDest st); a = JWord (vars ! stSrc1 st); b = JWord (vars ! stSrc2 st); c = JWord (vars ! stSrc3 st);
          call = (\<lambda>f x y z. [JWord f, JSym (CHR ''(''), x, JSym (CHR '',''), y, JSym (CHR '',''), z, JSym (CHR '')'')])
      in d # JSym (CHR ''='')
         # (if stOp st = 0 then [JSym (CHR ''~''), JSym (CHR ''(''), d, JSym (CHR ''&''), a, JSym (CHR '')'')]
            else if stOp st = 1 then [d, JSym (CHR ''^''), a]
            else if stOp st = 2 then [d, JSym (CHR ''|''), a]
            else if stOp st = 3 then [d, JSym (CHR ''&''), a]
            else if stOp st = 4 then call fnHelper a b d
            else call domHelper a b c))"

lemma step_text_tokens:
  assumes "js_ident (vars ! stDest st)" "js_ident (vars ! stSrc1 st)" "js_ident (vars ! stSrc2 st)" "js_ident (vars ! stSrc3 st)"
    and "js_ident fnHelper" "js_ident domHelper"
  shows "js_tokens (step_text vars fnHelper domHelper st @ rest)
    = map_option (\<lambda>r. step_tokens vars fnHelper domHelper st @ JSym (CHR '';'') # r) (js_tokens rest)"
  using assms by (simp add: step_text_def step_tokens_def assign_def call3_def Let_def tokens_ident option.map_comp o_def)

lemma step_statement:
  assumes "js_ident (vars ! stDest st)" "js_ident (vars ! stSrc1 st)" "js_ident (vars ! stSrc2 st)" "js_ident (vars ! stSrc3 st)"
    and "js_ident fnHelper" "js_ident domHelper" "fnHelper \<noteq> domHelper" "env fnHelper = None" "env domHelper = None"
    and "env (vars ! stDest st) = Some d" "env (vars ! stSrc1 st) = Some a" "env (vars ! stSrc2 st) = Some b" "env (vars ! stSrc3 st) = Some c"
  shows "js_statement (js_helpers fnHelper domHelper) ua (step_tokens vars fnHelper domHelper st) env
    = Some (env(vars ! stDest st \<mapsto> (if stOp st = 0 then js_not (js_and d a) else if stOp st = 1 then js_xor d a
        else if stOp st = 2 then js_or d a else if stOp st = 3 then js_and d a else if stOp st = 4 then js_fn a b d else js_dom a b c)))"
  using assms
  by (simp add: js_statement_def step_tokens_def Let_def js_value_def js_depth_Suc js_prec_def js_binary_def js_helpers_def)
end
