(* ===== verification/Script_Run.thy ===== *)
theory Script_Run
  imports Generate Js
begin

text \<open>
  What the text of the client script computes: the declarations of the frame and the statements of
  the program, run as text by \<open>js_run\<close>, leave in the variables the values that the server expects.
\<close>

section \<open>Declarations, key and salts\<close>

lemma declaration_runs:
  assumes "js_ident v" "0 \<le> i"
  shows "js_run fs ua ((''var '' @ v @ ''='' @ itoa i @ '';'') @ rest) env = js_run fs ua rest (env(v \<mapsto> i))"
proof (rule js_run_statement [where ts = "[JWord ''var'', JWord v, JSym (CHR ''=''), JLit i]"])
  have "js_tokens (''var'' @ CHR '' '' # s) = map_option ((#) (JWord ''var'')) (js_tokens s)" for s
    using tokens_word [of "''var''" "CHR '' '' # s"] by (simp add: js_word_char_def js_letter_def)
  then show "js_tokens ((''var '' @ v @ ''='' @ itoa i @ '';'') @ rest)
      = map_option (\<lambda>r. [JWord ''var'', JWord v, JSym (CHR ''=''), JLit i] @ JSym (CHR '';'') # r) (js_tokens rest)"
    using assms by (simp add: tokens_ident tokens_itoa option.map_comp o_def)
  show "js_statement fs ua [JWord ''var'', JWord v, JSym (CHR ''=''), JLit i] env = Some (env(v \<mapsto> i))"
    using assms by (simp add: js_statement_def js_value_def js_depth_Suc)
qed simp

lemma key_text_eq: "key_text v k b = v @ '' = '' @ v @ '' ^ (navigator.userAgent ? '' @ itoa k @ '' : '' @ itoa b @ '');''"
  by (simp add: key_text_def sprintf_def)

lemma key_runs:
  assumes "js_ident v" "0 \<le> k" "0 \<le> b" "env v = Some x" "env ''navigator'' = None" "map_of fs ''navigator'' = None"
  shows "js_run fs ua (key_text v k b @ rest) env = js_run fs ua rest (env(v \<mapsto> js_xor x (if ua then k else b)))"
proof (rule js_run_statement)
  let ?ts = "[JWord v, JSym (CHR ''=''), JWord v, JSym (CHR ''^''), JSym (CHR ''(''), JWord ''navigator'', JSym (CHR ''.''), JWord ''userAgent'',
    JSym (CHR ''?''), JLit k, JSym (CHR '':''), JLit b, JSym (CHR '')'')]"
  have "js_tokens (''navigator'' @ CHR ''.'' # s) = map_option ((#) (JWord ''navigator'')) (js_tokens (CHR ''.'' # s))"
    "js_tokens (''userAgent'' @ CHR '' '' # s) = map_option ((#) (JWord ''userAgent'')) (js_tokens s)" for s
    using tokens_word [of "''navigator''" "CHR ''.'' # s"] tokens_word [of "''userAgent''" "CHR '' '' # s"]
    by (simp_all add: js_word_char_def js_letter_def)
  then show "js_tokens (key_text v k b @ rest) = map_option (\<lambda>r. ?ts @ JSym (CHR '';'') # r) (js_tokens rest)"
    using assms(1-3) by (simp add: key_text_eq tokens_ident tokens_itoa option.map_comp o_def)
  have "''navigator'' \<notin> set js_reserved" by (simp add: js_reserved_def)
  then show "js_statement fs ua ?ts env = Some (env(v \<mapsto> js_xor x (if ua then k else b)))"
    using assms by (simp add: js_statement_def js_value_def js_depth_Suc js_prec_def js_binary_def)
qed simp

lemma salt_runs:
  assumes "js_ident v" "0 \<le> salt" "env v = Some x"
  shows "js_run fs ua (salt_text v salt @ rest) env = js_run fs ua rest (env(v \<mapsto> js_salt x salt))"
proof (rule js_run_statement)
  let ?ts = "[JWord v, JSym (CHR ''=''), JSym (CHR ''(''), JSym (CHR ''(''), JWord v, JSym (CHR ''^''), JLit salt, JSym (CHR '')''), JSym (CHR ''&''),
    JLit 0x7FFFFFFF, JSym (CHR '')''), JSym (CHR ''%''), JLit 900000, JSym (CHR ''+''), JLit 100000]"
  have "js_tokens (''900000'' @ CHR ''+'' # s) = map_option ((#) (JLit 900000)) (js_tokens (CHR ''+'' # s))"
    "js_tokens (''100000'' @ CHR '';'' # s) = map_option ((#) (JLit 100000)) (js_tokens (CHR '';'' # s))" for s
    unfolding numeral_texts by (simp_all add: tokens_itoa del: tokens_syms)
  moreover note tokens_mask
  ultimately show "js_tokens (salt_text v salt @ rest) = map_option (\<lambda>r. ?ts @ JSym (CHR '';'') # r) (js_tokens rest)"
    using assms(1,2) by (simp add: salt_text_def tokens_ident tokens_itoa option.map_comp o_def)
  show "js_statement fs ua ?ts env = Some (env(v \<mapsto> js_salt x salt))"
    using assms by (simp add: js_statement_def js_value_def js_depth_Suc js_prec_def js_binary_def js_salt_def)
qed simp

section \<open>Sequences of statements\<close>

lemma env_nth: "map env vars = map Some vals \<Longrightarrow> i < length vars \<Longrightarrow> env (vars ! i) = Some (vals ! i)"
  by (metis length_map nth_map)

lemma map_update_nth:
  assumes "distinct vars" "i < length vars" "map env vars = map Some vals"
  shows "map (env(vars ! i \<mapsto> x)) vars = map Some (vals[i := x])"
proof (rule nth_equalityI)
  have l: "length vals = length vars" using arg_cong [OF assms(3), of length] by simp
  then show "length (map (env(vars ! i \<mapsto> x)) vars) = length (map Some (vals[i := x]))" by simp
  fix j assume "j < length (map (env(vars ! i \<mapsto> x)) vars)"
  then show "map (env(vars ! i \<mapsto> x)) vars ! j = map Some (vals[i := x]) ! j"
    using assms(1,2) l env_nth [OF assms(3), of j] by (simp add: nth_list_update nth_eq_iff_index_eq)
qed

lemma declarations_run:
  assumes "\<forall>v \<in> set vars. js_ident v" "\<forall>i \<in> set vals. 0 \<le> sint i" "distinct vars" "length vals = length vars"
  shows "\<exists>env'. js_run fs ua (declarations vars vals @ rest) env = js_run fs ua rest env' \<and> map env' vars = map (\<lambda>i. Some (sint i)) vals
    \<and> (\<forall>x. x \<notin> set vars \<longrightarrow> env' x = env x)"
  using assms
proof (induction vars arbitrary: vals env)
  case (Cons v vars)
  obtain i vals' where vals: "vals = i # vals'" using Cons.prems(4) by (cases vals) auto
  have "\<exists>env'. js_run fs ua (declarations vars vals' @ rest) (env(v \<mapsto> sint i)) = js_run fs ua rest env'
    \<and> map env' vars = map (\<lambda>i. Some (sint i)) vals' \<and> (\<forall>x. x \<notin> set vars \<longrightarrow> env' x = (env(v \<mapsto> sint i)) x)"
    by (rule Cons.IH) (use Cons.prems vals in auto)
  then obtain env' where e: "js_run fs ua (declarations vars vals' @ rest) (env(v \<mapsto> sint i)) = js_run fs ua rest env'"
    "map env' vars = map (\<lambda>i. Some (sint i)) vals'" "\<forall>x. x \<notin> set vars \<longrightarrow> env' x = (env(v \<mapsto> sint i)) x"
    by blast
  have "js_run fs ua (declarations (v # vars) vals @ rest) env = js_run fs ua (declarations vars vals' @ rest) (env(v \<mapsto> sint i))"
    using declaration_runs [of v "sint i" fs ua "declarations vars vals' @ rest" env] Cons.prems by (simp add: declarations_def vals)
  then show ?case using e Cons.prems vals by (intro exI [of _ env']) auto
qed (auto simp: declarations_def)

lemma steps_run:
  assumes "\<forall>v \<in> set vars. js_ident v" "distinct vars" "js_ident fnHelper" "js_ident domHelper" "fnHelper \<noteq> domHelper"
    and "fnHelper \<notin> set vars" "domHelper \<notin> set vars" "env fnHelper = None" "env domHelper = None" "map env vars = map Some vals"
    and "\<forall>st \<in> set sts. stDest st < length vars \<and> stSrc1 st < length vars \<and> stSrc2 st < length vars \<and> stSrc3 st < length vars"
  shows "\<exists>env'. js_run (js_helpers fnHelper domHelper) ua (concat (map (step_text vars fnHelper domHelper) sts) @ rest) env
      = js_run (js_helpers fnHelper domHelper) ua rest env' \<and> map env' vars = map Some (fold js_step sts vals)"
  using assms(8-)
proof (induction sts arbitrary: env vals)
  case (Cons st sts)
  let ?fs = "js_helpers fnHelper domHelper" and ?s = "step_text vars fnHelper domHelper" and ?t = "step_tokens vars fnHelper domHelper st"
  have i: "stDest st < length vars" "stSrc1 st < length vars" "stSrc2 st < length vars" "stSrc3 st < length vars" using Cons.prems(4) by auto
  then have n: "js_ident (vars ! stDest st)" "js_ident (vars ! stSrc1 st)" "js_ident (vars ! stSrc2 st)" "js_ident (vars ! stSrc3 st)"
    using assms(1) by auto
  note v = env_nth [OF Cons.prems(3) i(1)] env_nth [OF Cons.prems(3) i(2)] env_nth [OF Cons.prems(3) i(3)] env_nth [OF Cons.prems(3) i(4)]
  obtain x where x: "js_step st vals = vals[stDest st := x]" "js_statement ?fs ua ?t env = Some (env(vars ! stDest st \<mapsto> x))"
    using step_statement [OF n assms(3-5) Cons.prems(1,2) v] by (simp add: js_step_def Let_def)
  let ?env = "env(vars ! stDest st \<mapsto> x)"
  have "JSym (CHR '';'') \<notin> set ?t" by (simp add: step_tokens_def Let_def)
  then have r: "js_run ?fs ua (?s st @ concat (map ?s sts) @ rest) env = js_run ?fs ua (concat (map ?s sts) @ rest) ?env"
    using step_text_tokens [OF n assms(3,4)] x(2) by (intro js_run_statement)
  have "vars ! stDest st \<in> set vars" using i(1) by simp
  then have "?env fnHelper = None" "?env domHelper = None" using Cons.prems(1,2) assms(6,7) by auto
  from Cons.IH [OF this map_update_nth [OF assms(2) i(1) Cons.prems(3)]] Cons.prems(4) obtain env' where "js_run ?fs ua (concat (map ?s sts) @ rest) ?env = js_run ?fs ua rest env'"
    "map env' vars = map Some (fold js_step sts (vals[stDest st := x]))"
    by (metis list.set_intros(2))
  then show ?case using r x(1) by auto
qed auto

lemma salts_run:
  assumes "\<forall>v \<in> set vars. js_ident v" "\<forall>salt \<in> set salts. 0 \<le> salt" "distinct vars" "length salts = length vars" "map env vars = map Some vals"
  shows "\<exists>env'. js_run fs ua (concat (map2 salt_text vars salts) @ rest) env = js_run fs ua rest env'
    \<and> map env' vars = map Some (map2 js_salt vals salts) \<and> (\<forall>x. x \<notin> set vars \<longrightarrow> env' x = env x)"
  using assms
proof (induction vars arbitrary: salts vals env)
  case (Cons v vars)
  obtain s salts' where s: "salts = s # salts'" using Cons.prems(4) by (cases salts) auto
  obtain x vals' where vals: "vals = x # vals'" using Cons.prems(5) by (cases vals) auto
  let ?env = "env(v \<mapsto> js_salt x s)"
  have "map ?env vars = map env vars" using Cons.prems(3) by auto
  also have "map env vars = map Some vals'" using Cons.prems(5) vals by simp
  finally have m: "map ?env vars = map Some vals'" .
  have "\<exists>env'. js_run fs ua (concat (map2 salt_text vars salts') @ rest) ?env = js_run fs ua rest env'
    \<and> map env' vars = map Some (map2 js_salt vals' salts') \<and> (\<forall>x. x \<notin> set vars \<longrightarrow> env' x = ?env x)"
    by (rule Cons.IH [OF _ _ _ _ m]) (use Cons.prems s in auto)
  then obtain env' where e: "js_run fs ua (concat (map2 salt_text vars salts') @ rest) ?env = js_run fs ua rest env'"
    "map env' vars = map Some (map2 js_salt vals' salts')" "\<forall>x. x \<notin> set vars \<longrightarrow> env' x = ?env x"
    by blast
  have "js_run fs ua (concat (map2 salt_text (v # vars) salts) @ rest) env = js_run fs ua (concat (map2 salt_text vars salts') @ rest) ?env"
    using salt_runs [of v s env x fs ua "concat (map2 salt_text vars salts') @ rest"] Cons.prems s vals by simp
  then show ?case using e Cons.prems s vals by (intro exI [of _ env']) auto
qed auto

section \<open>The whole program\<close>

text \<open>Names of helpers that the script does not already use; variables have twelve characters and no reserved word has.\<close>

definition free_helpers :: "program \<Rightarrow> bool" where
  "free_helpers p \<longleftrightarrow> gFn p \<noteq> gDom p \<and> set [gFn p, gDom p] \<inter> set ([''navigator'', ''document''] @ js_reserved) = {}"

lemma letters_ident: "v \<noteq> [] \<Longrightarrow> hd v \<in> set varLetters \<Longrightarrow> set v \<subseteq> set varChars \<Longrightarrow> v \<notin> set js_reserved \<Longrightarrow> js_ident v"
proof -
  have "set varLetters \<subseteq> Collect js_letter" "set varChars \<subseteq> Collect js_word_char"
    by (simp_all add: varLetters_def varChars_def js_word_char_def js_letter_def js_digit_def)
  then show "v \<noteq> [] \<Longrightarrow> hd v \<in> set varLetters \<Longrightarrow> set v \<subseteq> set varChars \<Longrightarrow> v \<notin> set js_reserved \<Longrightarrow> js_ident v"
    by (auto simp: js_ident_def list_all_iff)
qed

lemma reserved_length: "w \<in> set js_reserved \<Longrightarrow> length w \<le> 10"
  by (auto simp: js_reserved_def)

lemma program_runs:
  assumes "program_ok p" "distinct (gVars p)" "free_helpers p"
  obtains code env where "program_text p = helper_text (gFn p) (gDom p) @ code"
    "js_run (js_helpers (gFn p) (gDom p)) ua (declarations (gVars p) (gInit p) @ code) Map.empty = Some env"
    "map env (gVars p) = map Some (js_program ua p)"
proof -
  let ?vars = "gVars p" and ?fs = "js_helpers (gFn p) (gDom p)" and ?key = "if ua then gKey p else gBadKey p"
  have names: "program_names p" and len: "length ?vars = 4" "length (gInit p) = 4" "length (gSalts p) = 4" and twelve: "\<forall>v \<in> set ?vars. length v = 12"
    using assms(1) by (auto simp: program_ok_def)
  then have "v \<notin> set js_reserved" if "v \<in> set ?vars" for v using that reserved_length by fastforce
  then have ids: "\<forall>v \<in> set ?vars. js_ident v" using names letters_ident unfolding program_names_def by (meson list.set_intros(2))
  have fresh: "gFn p \<notin> set js_reserved" "gDom p \<notin> set js_reserved" "gFn p \<noteq> gDom p" "gFn p \<noteq> ''navigator''" "gDom p \<noteq> ''navigator''"
    using assms(3) by (auto simp: free_helpers_def)
  then have helpers: "js_ident (gFn p)" "js_ident (gDom p)" "gFn p \<noteq> gDom p" "gFn p \<noteq> ''navigator''" "gDom p \<noteq> ''navigator''"
    using names letters_ident unfolding program_names_def by (meson list.set_intros)+
  have out: "gFn p \<notin> set ?vars" "gDom p \<notin> set ?vars" "''navigator'' \<notin> set ?vars"
    using twelve names by (auto simp: program_names_def)
  define steps where "steps = concat (map (step_text ?vars (gFn p) (gDom p)) (gSteps p))"
  define salts where "salts = concat (map2 salt_text ?vars (gSalts p))"
  define key where "key = key_text (?vars ! 0) (gKey p) (gBadKey p)"
  have nonneg: "\<forall>i \<in> set (gInit p). 0 \<le> sint i" and same: "length (gInit p) = length ?vars" using names len by (auto simp: program_names_def)
  obtain e1 where e1: "js_run ?fs ua (declarations ?vars (gInit p) @ key @ steps @ salts) Map.empty = js_run ?fs ua (key @ steps @ salts) e1"
    "map e1 ?vars = map (\<lambda>i. Some (sint i)) (gInit p)" "\<forall>x. x \<notin> set ?vars \<longrightarrow> e1 x = None"
    using declarations_run [OF ids nonneg assms(2) same, where fs = ?fs and ua = ua and rest = "key @ steps @ salts" and env = Map.empty] by blast
  let ?vals = "map sint (gInit p)"
  have v1: "map e1 ?vars = map Some ?vals" using e1(2) by simp
  have first: "?vars ! 0 \<in> set ?vars" using len by simp
  let ?e2 = "e1(?vars ! 0 \<mapsto> js_xor (?vals ! 0) ?key)"
  have r2: "js_run ?fs ua (key @ steps @ salts) e1 = js_run ?fs ua (steps @ salts) ?e2"
    unfolding key_def using ids first out helpers assms(1) names e1(3) env_nth [OF v1, of 0] len
    by (intro key_runs) (auto simp: program_ok_def program_names_def js_helpers_def)
  have v2: "map ?e2 ?vars = map Some (?vals[0 := js_xor (?vals ! 0) ?key])" using map_update_nth [OF assms(2) _ v1, of 0] len by simp
  have "?e2 (gFn p) = None" "?e2 (gDom p) = None" using e1(3) out first by auto
  from steps_run [OF ids assms(2) helpers(1-3) out(1,2) this v2, of "gSteps p" ua salts] obtain e3 where
    e3: "js_run ?fs ua (steps @ salts) ?e2 = js_run ?fs ua salts e3"
    "map e3 ?vars = map Some (fold js_step (gSteps p) (?vals[0 := js_xor (?vals ! 0) ?key]))"
    unfolding steps_def using assms(1) len by (auto simp: program_ok_def)
  have "\<forall>salt \<in> set (gSalts p). 0 \<le> salt" using assms(1) by (fastforce simp: program_ok_def)
  from salts_run [OF ids this assms(2) _ e3(2), of ?fs ua "[]"] obtain e4 where
    e4: "js_run ?fs ua salts e3 = js_run ?fs ua [] e4" "map e4 ?vars = map Some (js_program ua p)"
    unfolding salts_def js_program_def Let_def using assms(1) len by (auto simp: program_ok_def)
  have "js_run ?fs ua (declarations ?vars (gInit p) @ key @ steps @ salts) Map.empty = Some e4"
    using e1(1) r2 e3(1) e4(1) by (simp add: js_run_def)
  then show thesis
    using e4(2) by (intro that) (simp_all add: program_text_def key_def steps_def salts_def)
qed

text \<open>The condition is needed: a reserved word can be drawn as a helper's name, and a call of it is not JavaScript.\<close>

lemma reserved_name_drawn: "randVar 0 ([0, 21, 14, 8, 3] @ r) = (Inr ''void'', r)" "''void'' \<in> set js_reserved"
proof -
  have "randInt 0 25 (21 # s) = (Inr 21, s)" "randInt 0 35 (14 # s) = (Inr 14, s)" "randInt 0 35 (8 # s) = (Inr 8, s)"
    "randInt 0 35 (3 # s) = (Inr 3, s)" for s
    by (simp_all add: randInt_def rand_Int_def bitLen_def nat_bits.simps rand_loop.simps setBytes_def Let_def)
  then show "randVar 0 ([0, 21, 14, 8, 3] @ r) = (Inr ''void'', r)"
    by (simp add: randVar_def run_draws unroll randInt_zero varChars_def varLetters_def)
qed (simp add: js_reserved_def)

lemma reserved_helper_breaks:
  "fnHelper \<in> set js_reserved \<Longrightarrow> stOp st = 4 \<Longrightarrow> js_statement fs ua (step_tokens vars fnHelper domHelper st) env = None"
  by (simp add: js_statement_def step_tokens_def Let_def js_value_def js_depth_Suc)

lemma generated_report_iff:
  assumes "program_ok p" "mID m = gID p" "mVars m = gVars p" "mExpectedVals m = program_vals p" "distinct (gVars p)"
    and "- (2 ^ 63) \<le> ts" "ts < 2 ^ 63" "length us = 4" "list_all (\<lambda>u. \<bar>u\<bar> < 2 ^ 53) us"
  shows "VerifyInstrumentationResult (Some m) (widget_report (mID m) (mVars m) us ts) = None \<longleftrightarrow> us = js_program True p"
proof -
  have ok: "ascii (mID m)" "mID m \<noteq> []" "list_all ascii (mVars m)" "mVars m \<noteq> []" "length (mVars m) = 4"
    using assms(1-3) varChars_ascii hex_text_ascii unfolding program_ok_def list_all_iff by auto
  then show ?thesis
    using widget_report_iff [of m us ts] assms(3-9) program_agrees(1,3) [OF assms(1)] by simp
qed

section \<open>Properties\<close>

text \<open>
  Property C21. The text computes what the server computes: in a browser with a user agent the declarations and
  the statements of a drawn program, run as JavaScript text, end with exactly the values that the server
  computed on 32-bit words, each of six digits. The four variables must differ and the two helper names must be
  free, which nothing in the generator ensures.
\<close>

theorem program_runs_alike:
  assumes "draw_program random = (Inr p, rest)" "distinct (gVars p)" "free_helpers p"
  shows "\<exists>code env. program_text p = helper_text (gFn p) (gDom p) @ code
    \<and> js_run (js_helpers (gFn p) (gDom p)) True (declarations (gVars p) (gInit p) @ code) Map.empty = Some env
    \<and> map env (gVars p) = map (\<lambda>v. Some (sint v)) (program_vals p)
    \<and> length (program_vals p) = 4 \<and> (\<forall>v. v \<in> set (program_vals p) \<longrightarrow> 100000 \<le> sint v \<and> sint v \<le> 999999)"
proof -
  note ok = draw_program_ok [OF assms(1)]
  obtain code env where "program_text p = helper_text (gFn p) (gDom p) @ code"
    "js_run (js_helpers (gFn p) (gDom p)) True (declarations (gVars p) (gInit p) @ code) Map.empty = Some env"
    "map env (gVars p) = map Some (js_program True p)"
    by (rule program_runs [OF ok assms(2,3)])
  then show ?thesis using program_agrees [OF ok] by (intro exI conjI) (auto simp: o_def)
qed

theorem program_runs_alike_witness:
  "\<exists>p code env. draw_program example_entropy = (Inr p, script_entropy) \<and> program_text p = helper_text ''aaaa'' ''baaa'' @ code
    \<and> js_run (js_helpers ''aaaa'' ''baaa'') True (declarations (gVars p) (gInit p) @ code) Map.empty = Some env
    \<and> map env (gVars p) = map (\<lambda>v. Some (sint v)) (program_vals p)"
proof (rule example_program)
  fix p
  assume p: "draw_program example_entropy = (Inr p, script_entropy)" "distinct (gVars p)" "gFn p = ''aaaa''" "gDom p = ''baaa''"
  then have "free_helpers p" by (simp add: free_helpers_def js_reserved_def)
  from program_runs_alike [OF p(1,2) this] p show ?thesis by metis
qed



end
