(* ===== verification/Redis.thy ===== *)
theory Redis
  imports Wire Store
begin

text \<open>
  \<open>capredis/store.go\<close>: the store on Redis. The server and its client library are an argument of the
  model, with the documented behaviour of the commands as the laws of a locale; the key names, the
  JSON of the records, the two Lua scripts and the Go code around them are translated here. The
  theorems say that the store hands out each entry once across all its clients, that it answers
  as \<open>MemoryStore\<close> does while the clocks agree, and that \<open>Reset\<close> ends and clears the store.
\<close>

section \<open>Client\<close>

text \<open>
  What the store uses of Redis: the clock of the process, \<open>SET\<close> with a time to live, \<open>SET NX\<close> (\<open>None\<close> is
  \<open>redis.Nil\<close>), \<open>EVAL\<close> of a script, the two commands the scripts call, \<open>SCAN\<close>, \<open>DEL\<close>, and \<open>cjson.decode\<close>
  as far as the scripts read its result: the members \<open>scope\<close> and \<open>expires\<close> (\<open>None\<close> where the script fails).
  Durations are nanoseconds.
\<close>

record 'r redis =
  rNow :: "'r \<Rightarrow> int"
  rSet :: "string \<Rightarrow> string \<Rightarrow> int \<Rightarrow> 'r \<Rightarrow> (go_error + unit) \<times> 'r"
  rSetNX :: "string \<Rightarrow> string \<Rightarrow> int \<Rightarrow> 'r \<Rightarrow> (go_error + string option) \<times> 'r"
  rEval :: "('r \<Rightarrow> (go_error + string option) \<times> 'r) \<Rightarrow> 'r \<Rightarrow> (go_error + string option) \<times> 'r"
  rGet :: "string \<Rightarrow> 'r \<Rightarrow> string option"
  rDelKey :: "string \<Rightarrow> 'r \<Rightarrow> 'r"
  rScan :: "nat \<Rightarrow> string \<Rightarrow> 'r \<Rightarrow> (go_error + string list \<times> nat) \<times> 'r"
  rDel :: "string \<Rightarrow> 'r \<Rightarrow> (go_error + unit) \<times> 'r"
  rDecode :: "string \<Rightarrow> (string option \<times> int) option"

section \<open>Keys and records\<close>

definition challengeKey :: "string \<Rightarrow> string \<Rightarrow> string" where
  "challengeKey prefix token = prefix @ ''challenge:'' @ token"

definition nonceKey :: "string \<Rightarrow> string \<Rightarrow> string" where
  "nonceKey prefix key = prefix @ ''nonce:'' @ key"

definition tokenKey :: "string \<Rightarrow> string \<Rightarrow> string" where
  "tokenKey prefix key = prefix @ ''token:'' @ key"

definition ttlFor :: "int \<Rightarrow> int \<Rightarrow> int" where
  "ttlFor expires now = (let ms = expires - now in (if ms < 1 then 1 else ms) * 10 ^ 6)"

definition zero_record :: challenge_record where
  "zero_record = \<lparr>cCount = 0, cSize = 0, cDifficulty = 0, cScope = [], cExpires = 0, cInstr = None\<rparr>"

definition zero_token :: token_record where
  "zero_token = \<lparr>tScope = [], tExpires = 0\<rparr>"

definition enc_record :: "challenge_record \<Rightarrow> string" where
  "enc_record r =
     enc_object
       ([(''c'', itoa (cCount r)), (''s'', itoa (cSize r)), (''d'', itoa (cDifficulty r))] @ omit_string ''scope'' (cScope r)
        @ [(''expires'', itoa (cExpires r))] @ (case cInstr r of None \<Rightarrow> [] | Some m \<Rightarrow> [(''instr'', enc_meta m)]))"

definition record_fields :: "challenge_record fields" where
  "record_fields =
     [(''c'', \<lambda>raw r. map_option (\<lambda>v. r\<lparr>cCount := v\<rparr>) (dec_int64 raw (cCount r))),
      (''s'', \<lambda>raw r. map_option (\<lambda>v. r\<lparr>cSize := v\<rparr>) (dec_int64 raw (cSize r))),
      (''d'', \<lambda>raw r. map_option (\<lambda>v. r\<lparr>cDifficulty := v\<rparr>) (dec_int64 raw (cDifficulty r))),
      (''scope'', \<lambda>raw r. map_option (\<lambda>v. r\<lparr>cScope := v\<rparr>) (dec_string raw (cScope r))),
      (''expires'', \<lambda>raw r. map_option (\<lambda>v. r\<lparr>cExpires := v\<rparr>) (dec_int64 raw (cExpires r))),
      (''instr'', \<lambda>raw r. map_option (\<lambda>v. r\<lparr>cInstr := v\<rparr>) (dec_meta_pointer raw (cInstr r)))]"

definition dec_record :: "string \<Rightarrow> challenge_record \<Rightarrow> challenge_record option" where
  "dec_record = dec_struct record_fields"

definition enc_token :: "token_record \<Rightarrow> string" where
  "enc_token r = enc_object (omit_string ''scope'' (tScope r) @ [(''expires'', itoa (tExpires r))])"

definition token_fields :: "token_record fields" where
  "token_fields =
     [(''scope'', \<lambda>raw r. map_option (\<lambda>v. r\<lparr>tScope := v\<rparr>) (dec_string raw (tScope r))),
      (''expires'', \<lambda>raw r. map_option (\<lambda>v. r\<lparr>tExpires := v\<rparr>) (dec_int64 raw (tExpires r)))]"

definition dec_token :: "string \<Rightarrow> token_record \<Rightarrow> token_record option" where
  "dec_token = dec_struct token_fields"

section \<open>Scripts\<close>

definition takeChallengeScript :: "'r redis \<Rightarrow> string \<Rightarrow> 'r \<Rightarrow> (go_error + string option) \<times> 'r" where
  "takeChallengeScript R key r =
     (case rGet R key r of
        None \<Rightarrow> (Inr None, r)
      | Some v \<Rightarrow> (Inr (Some v), rDelKey R key r))"

definition consumeTokenScript ::
  "'r redis \<Rightarrow> string \<Rightarrow> string \<Rightarrow> int \<Rightarrow> string \<Rightarrow> 'r \<Rightarrow> (go_error + string option) \<times> 'r" where
  "consumeTokenScript R key scope now keep r =
     (case rGet R key r of
        None \<Rightarrow> (Inr None, r)
      | Some v \<Rightarrow>
          (case rDecode R v of
             None \<Rightarrow> (Inl (EOther ''ERR user_script''), r)
           | Some (recScope, expires) \<Rightarrow>
               if scope \<noteq> [] \<and> (case recScope of None \<Rightarrow> [] | Some sc \<Rightarrow> sc) \<noteq> scope then (Inr None, r)
               else if expires \<le> now then (Inr None, rDelKey R key r)
               else (Inr (Some v), if keep = ''0'' then rDelKey R key r else r)))"

section \<open>Operations\<close>

definition redis_PutChallenge :: "'r redis \<Rightarrow> string \<Rightarrow> string \<Rightarrow> challenge_record \<Rightarrow> 'r \<Rightarrow> (go_error + unit) \<times> 'r" where
  "redis_PutChallenge R prefix token record r =
     rSet R (challengeKey prefix token) (enc_record record) (ttlFor (cExpires record) (rNow R r)) r"

definition redis_TakeChallenge ::
  "'r redis \<Rightarrow> string \<Rightarrow> string \<Rightarrow> int \<Rightarrow> 'r \<Rightarrow> (go_error + challenge_record option) \<times> 'r" where
  "redis_TakeChallenge R prefix token now r =
     (case rEval R (takeChallengeScript R (challengeKey prefix token)) r of
        (Inl err, r') \<Rightarrow> (Inl err, r')
      | (Inr None, r') \<Rightarrow> (Inr None, r')
      | (Inr (Some text), r') \<Rightarrow>
          (case unmarshal dec_record text zero_record of
             None \<Rightarrow> (Inl (EWrap ''capredis: corrupt challenge record: '' (EOther ''json'') []), r')
           | Some record \<Rightarrow> (Inr (if cExpires record \<le> now then None else Some record), r')))"

definition redis_ClaimNonce :: "'r redis \<Rightarrow> string \<Rightarrow> string \<Rightarrow> int \<Rightarrow> int \<Rightarrow> 'r \<Rightarrow> (go_error + bool) \<times> 'r" where
  "redis_ClaimNonce R prefix key expiresAt now r =
     (case rSetNX R (nonceKey prefix key) (itoa expiresAt) (ttlFor expiresAt now) r of
        (Inl err, r') \<Rightarrow> (Inl err, r')
      | (Inr None, r') \<Rightarrow> (Inr False, r')
      | (Inr (Some result), r') \<Rightarrow> (Inr (result = ''OK''), r'))"

definition redis_PutToken :: "'r redis \<Rightarrow> string \<Rightarrow> string \<Rightarrow> token_record \<Rightarrow> 'r \<Rightarrow> (go_error + unit) \<times> 'r" where
  "redis_PutToken R prefix key record r =
     rSet R (tokenKey prefix key) (enc_token record) (ttlFor (tExpires record) (rNow R r)) r"

definition redis_ConsumeToken ::
  "'r redis \<Rightarrow> string \<Rightarrow> string \<Rightarrow> string \<Rightarrow> int \<Rightarrow> bool \<Rightarrow> 'r \<Rightarrow> (go_error + token_record option) \<times> 'r" where
  "redis_ConsumeToken R prefix key scope now keep r =
     (case rEval R (consumeTokenScript R (tokenKey prefix key) scope now (if keep then ''1'' else ''0'')) r of
        (Inl err, r') \<Rightarrow> (Inl err, r')
      | (Inr None, r') \<Rightarrow> (Inr None, r')
      | (Inr (Some text), r') \<Rightarrow>
          (case unmarshal dec_token text zero_token of
             None \<Rightarrow> (Inl (EWrap ''capredis: corrupt token record: '' (EOther ''json'') []), r')
           | Some record \<Rightarrow> (Inr (Some record), r')))"

definition redis_Cleanup :: "int \<Rightarrow> 'r \<Rightarrow> (go_error + unit) \<times> 'r" where
  "redis_Cleanup now r = (Inr (), r)"

text \<open>\<open>Reset\<close>: the keys of one batch, and the loop over the cursor, which ends when the server says so.\<close>

fun del_keys :: "'r redis \<Rightarrow> string list \<Rightarrow> 'r \<Rightarrow> (go_error + unit) \<times> 'r" where
  "del_keys R [] r = (Inr (), r)"
| "del_keys R (key # keys) r =
     (case rDel R key r of (Inl err, r') \<Rightarrow> (Inl err, r') | (Inr u, r') \<Rightarrow> del_keys R keys r')"

partial_function (option) reset_loop :: "'r redis \<Rightarrow> string \<Rightarrow> nat \<Rightarrow> 'r \<Rightarrow> ((go_error + unit) \<times> 'r) option" where
  "reset_loop R prefix cursor r =
     (case rScan R cursor (prefix @ ''*'') r of
        (Inl err, r1) \<Rightarrow> Some (Inl err, r1)
      | (Inr (keys, next), r1) \<Rightarrow>
          (case del_keys R keys r1 of
             (Inl err, r2) \<Rightarrow> Some (Inl err, r2)
           | (Inr u, r2) \<Rightarrow> if next = 0 then Some (Inr (), r2) else reset_loop R prefix next r2))"

definition redis_Reset :: "'r redis \<Rightarrow> string \<Rightarrow> 'r \<Rightarrow> ((go_error + unit) \<times> 'r) option" where
  "redis_Reset R prefix r = reset_loop R prefix 0 r"

text \<open>The store with a prefix; \<open>New\<close> gives \<open>''cap:''\<close> when no option sets another.\<close>

definition default_prefix :: string where
  "default_prefix = ''cap:''"

definition redis_New :: "(string \<Rightarrow> string) list \<Rightarrow> string" where
  "redis_New opts = foldl (\<lambda>prefix opt. opt prefix) default_prefix opts"

definition WithPrefix :: "string \<Rightarrow> string \<Rightarrow> string" where
  "WithPrefix prefix = (\<lambda>_. prefix)"

definition redis_ops :: "'r redis \<Rightarrow> string \<Rightarrow> 'r store_ops" where
  "redis_ops R prefix =
     \<lparr>PutChallenge = redis_PutChallenge R prefix, TakeChallenge = redis_TakeChallenge R prefix,
      ClaimNonce = redis_ClaimNonce R prefix, PutToken = redis_PutToken R prefix,
      ConsumeToken = redis_ConsumeToken R prefix, StoreCleanup = redis_Cleanup,
      StoreReset = (\<lambda>r. the (redis_Reset R prefix r))\<rparr>"


lemma redis_ops_simps [simp]:
  "PutChallenge (redis_ops R prefix) = redis_PutChallenge R prefix" "TakeChallenge (redis_ops R prefix) = redis_TakeChallenge R prefix"
  "ClaimNonce (redis_ops R prefix) = redis_ClaimNonce R prefix" "PutToken (redis_ops R prefix) = redis_PutToken R prefix"
  "ConsumeToken (redis_ops R prefix) = redis_ConsumeToken R prefix" "StoreCleanup (redis_ops R prefix) = redis_Cleanup"
  "StoreReset (redis_ops R prefix) = (\<lambda>r. the (redis_Reset R prefix r))"
  by (simp_all add: redis_ops_def)

text \<open>The three kinds of keys never meet.\<close>

lemma keys_apart [simp]:
  "challengeKey p t \<noteq> nonceKey p k" "challengeKey p t \<noteq> tokenKey p k" "nonceKey p t \<noteq> tokenKey p k"
  "nonceKey p k \<noteq> challengeKey p t" "tokenKey p k \<noteq> challengeKey p t" "tokenKey p k \<noteq> nonceKey p t"
  "challengeKey p t = challengeKey p u \<longleftrightarrow> t = u" "nonceKey p t = nonceKey p u \<longleftrightarrow> t = u" "tokenKey p t = tokenKey p u \<longleftrightarrow> t = u"
  by (simp_all add: challengeKey_def nonceKey_def tokenKey_def)

section \<open>Round trips of the records\<close>

definition record_wire :: "challenge_record \<Rightarrow> bool" where
  "record_wire r \<longleftrightarrow> int64 (cCount r) \<and> int64 (cSize r) \<and> int64 (cDifficulty r) \<and> int64 (cExpires r) \<and> ascii (cScope r)
     \<and> (case cInstr r of None \<Rightarrow> True | Some m \<Rightarrow> meta_wire m)"

text \<open>Lua numbers are doubles: the expiry of a token has to be exact as one.\<close>

definition token_wire :: "token_record \<Rightarrow> bool" where
  "token_wire r \<longleftrightarrow> \<bar>tExpires r\<bar> \<le> 2 ^ 53 \<and> ascii (tScope r)"

definition omit_instr :: "instr_meta option \<Rightarrow> (string \<times> string) list" where
  "omit_instr mo = (case mo of None \<Rightarrow> [] | Some m \<Rightarrow> [(''instr'', enc_meta m)])"

lemma record_setters:
  "field_setter record_fields ''c'' = Some (\<lambda>raw r. map_option (\<lambda>v. r\<lparr>cCount := v\<rparr>) (dec_int64 raw (cCount r)))"
  "field_setter record_fields ''s'' = Some (\<lambda>raw r. map_option (\<lambda>v. r\<lparr>cSize := v\<rparr>) (dec_int64 raw (cSize r)))"
  "field_setter record_fields ''d'' = Some (\<lambda>raw r. map_option (\<lambda>v. r\<lparr>cDifficulty := v\<rparr>) (dec_int64 raw (cDifficulty r)))"
  "field_setter record_fields ''scope'' = Some (\<lambda>raw r. map_option (\<lambda>v. r\<lparr>cScope := v\<rparr>) (dec_string raw (cScope r)))"
  "field_setter record_fields ''expires'' = Some (\<lambda>raw r. map_option (\<lambda>v. r\<lparr>cExpires := v\<rparr>) (dec_int64 raw (cExpires r)))"
  "field_setter record_fields ''instr'' = Some (\<lambda>raw r. map_option (\<lambda>v. r\<lparr>cInstr := v\<rparr>) (dec_meta_pointer raw (cInstr r)))"
  "field_setter token_fields ''scope'' = Some (\<lambda>raw r. map_option (\<lambda>v. r\<lparr>tScope := v\<rparr>) (dec_string raw (tScope r)))"
  "field_setter token_fields ''expires'' = Some (\<lambda>raw r. map_option (\<lambda>v. r\<lparr>tExpires := v\<rparr>) (dec_int64 raw (tExpires r)))"
  by (simp_all add: record_fields_def token_fields_def fold_name_def fold_rune_ascii)

lemma cInstr_same: "cInstr r = v \<Longrightarrow> r\<lparr>cInstr := v\<rparr> = r"
  by simp

lemma record_steps [steps]:
  "cScope r = [] \<Longrightarrow>
     set_fields record_fields (repair_keys (omit_string ''scope'' s) @ ms) r = set_fields record_fields ms (r\<lparr>cScope := repair s\<rparr>)"
  "tScope k = [] \<Longrightarrow>
     set_fields token_fields (repair_keys (omit_string ''scope'' s) @ ms) k = set_fields token_fields ms (k\<lparr>tScope := repair s\<rparr>)"
  "(case mo of None \<Rightarrow> True | Some m \<Rightarrow> meta_wire m) \<Longrightarrow> cInstr r = None \<Longrightarrow>
     set_fields record_fields (repair_keys (omit_instr mo) @ ms) r = set_fields record_fields ms (r\<lparr>cInstr := mo\<rparr>)"
  by (rule set_omit_string, rule record_setters; simp)+
    (cases mo; simp add: omit_instr_def record_setters dec_meta_pointer_enc cInstr_same)

definition record_members :: "challenge_record \<Rightarrow> (string \<times> string) list" where
  "record_members r =
     [(''c'', itoa (cCount r)), (''s'', itoa (cSize r)), (''d'', itoa (cDifficulty r))] @ omit_string ''scope'' (cScope r)
        @ [(''expires'', itoa (cExpires r))] @ omit_instr (cInstr r)"

lemma record_members_text: "\<forall>(k, v) \<in> set (record_members r). value_text (Suc (Suc d)) v"
  using value_text_omit [of _ _ "Suc (Suc d)"] value_text_meta
  by (cases "cInstr r") (simp_all add: record_members_def omit_instr_def ball_Un)

lemma unmarshal_record [codec]:
  assumes "record_wire r"
  shows "unmarshal dec_record (enc_record r) zero_record = Some r"
proof -
  have w: "int64 (cCount r)" "int64 (cSize r)" "int64 (cDifficulty r)" "int64 (cExpires r)" "ascii (cScope r)"
    "case cInstr r of None \<Rightarrow> True | Some m \<Rightarrow> meta_wire m"
    using assms by (simp_all add: record_wire_def)
  have e: "enc_record r = enc_object (record_members r)" by (simp add: enc_record_def record_members_def omit_instr_def)
  have t: "\<forall>(k, v) \<in> set (record_members r). value_text json_depth v"
    unfolding depth_Suc(2) by (rule record_members_text)
  have "unmarshal dec_record (enc_record r) zero_record = set_fields record_fields (repair_keys (record_members r) @ []) zero_record"
    unfolding e dec_record_def using unmarshal_struct_enc [OF t] by simp
  also have "\<dots> = Some r"
    using w by (simp add: record_members_def zero_record_def steps record_setters dec_int64_wire del: append_Nil2)
  finally show ?thesis .
qed

lemma unmarshal_token [codec]:
  assumes "token_wire r"
  shows "unmarshal dec_token (enc_token r) zero_token = Some r"
proof -
  have w: "int64 (tExpires r)" "ascii (tScope r)"
    using assms by (auto simp: token_wire_def int64_def abs_le_iff)
  let ?ms = "omit_string ''scope'' (tScope r) @ [(''expires'', itoa (tExpires r))]"
  have t: "\<forall>(k, v) \<in> set ?ms. value_text json_depth v"
    using value_text_omit [of _ _ json_depth] by (simp add: ball_Un)
  have "unmarshal dec_token (enc_token r) zero_token = set_fields token_fields (repair_keys ?ms) zero_token"
    unfolding enc_token_def dec_token_def by (rule unmarshal_struct_enc [OF t])
  also have "\<dots> = Some r"
    using w by (simp add: zero_token_def steps record_setters dec_int64_wire)
  finally show ?thesis .
qed

section \<open>What Redis promises\<close>

text \<open>
  The documented behaviour of the commands, over the data of the server: under a key its value and the
  server time (milliseconds) from which it is gone. A command runs at the time of the state it is given;
  one that fails may or may not have run. \<open>SCAN\<close>: a cursor stands for the part of the key space still to
  come (\<open>covers\<close>), all of it for the cursor 0; a key of that part that matches and exists is returned or is
  in the part of the next cursor, and the cursors of an iteration come to an end (\<open>rank\<close>). A pattern with no
  special characters before its final star matches the keys that start with it.
\<close>

definition plain_pattern :: "string \<Rightarrow> bool" where
  "plain_pattern p \<longleftrightarrow> set p \<inter> {CHR ''*'', CHR ''?'', CHR ''['', CHR '']'', CHR 0x5C} = {}"

text \<open>The records under the keys, present or expired.\<close>

definition redis_chal :: "('r \<Rightarrow> string \<Rightarrow> (string \<times> int) option) \<Rightarrow> string \<Rightarrow> 'r \<Rightarrow> string \<Rightarrow> challenge_record option" where
  "redis_chal db prefix r t = (case db r (challengeKey prefix t) of None \<Rightarrow> None | Some (v, d) \<Rightarrow> unmarshal dec_record v zero_record)"

definition redis_tok :: "('r \<Rightarrow> string \<Rightarrow> (string \<times> int) option) \<Rightarrow> string \<Rightarrow> 'r \<Rightarrow> string \<Rightarrow> token_record option" where
  "redis_tok db prefix r k = (case db r (tokenKey prefix k) of None \<Rightarrow> None | Some (v, d) \<Rightarrow> unmarshal dec_token v zero_token)"

locale redis_client =
  fixes R :: "'r redis"
    and db :: "'r \<Rightarrow> string \<Rightarrow> (string \<times> int) option"
    and time :: "'r \<Rightarrow> int"
    and covers :: "nat \<Rightarrow> string set"
    and rank :: "nat \<Rightarrow> nat"
  assumes set_ok: "fst (rSet R k v ttl r) = Inr u \<Longrightarrow> db (snd (rSet R k v ttl r)) = (db r)(k \<mapsto> (v, time r + ttl div 10 ^ 6))"
    and set_failed: "fst (rSet R k v ttl r) = Inl err \<Longrightarrow>
          db (snd (rSet R k v ttl r)) = db r \<or> db (snd (rSet R k v ttl r)) = (db r)(k \<mapsto> (v, time r + ttl div 10 ^ 6))"
    and setnx_new: "fst (rSetNX R k v ttl r) = Inr (Some resp) \<Longrightarrow>
          resp = ''OK'' \<and> (\<forall>v' d. db r k = Some (v', d) \<longrightarrow> d \<le> time r)
            \<and> db (snd (rSetNX R k v ttl r)) = (db r)(k \<mapsto> (v, time r + ttl div 10 ^ 6))"
    and setnx_held: "fst (rSetNX R k v ttl r) = Inr None \<Longrightarrow>
          (\<exists>v' d. db r k = Some (v', d) \<and> time r < d) \<and> db (snd (rSetNX R k v ttl r)) = db r"
    and setnx_failed: "fst (rSetNX R k v ttl r) = Inl err \<Longrightarrow>
          db (snd (rSetNX R k v ttl r)) = db r \<or> (\<forall>v' d. db r k = Some (v', d) \<longrightarrow> d \<le> time r)
            \<and> db (snd (rSetNX R k v ttl r)) = (db r)(k \<mapsto> (v, time r + ttl div 10 ^ 6))"
    and get: "rGet R k r = (case db r k of None \<Rightarrow> None | Some (v, d) \<Rightarrow> if d \<le> time r then None else Some v)"
    and del_key: "db (rDelKey R k r) = (db r)(k := None)"
    and eval_ok: "fst (rEval R f r) = Inr out \<Longrightarrow> fst (f r) = Inr out \<and> db (snd (rEval R f r)) = db (snd (f r))"
    and eval_failed: "fst (rEval R f r) = Inl err \<Longrightarrow> db (snd (rEval R f r)) = db r \<or> db (snd (rEval R f r)) = db (snd (f r))"
    and del_ok: "fst (rDel R k r) = Inr u \<Longrightarrow> db (snd (rDel R k r)) = (db r)(k := None)"
    and del_failed: "fst (rDel R k r) = Inl err \<Longrightarrow> db (snd (rDel R k r)) = db r \<or> db (snd (rDel R k r)) = (db r)(k := None)"
    and scan_db: "db (snd (rScan R c pattern r)) = db r"
    and scan_all: "covers 0 = UNIV"
    and scan_keys: "fst (rScan R c (p @ ''*'') r) = Inr (keys, next) \<Longrightarrow> plain_pattern p \<Longrightarrow>
          (\<forall>k \<in> set keys. has_prefix k p) \<and>
          (\<forall>k. k \<in> covers c \<longrightarrow> has_prefix k p \<longrightarrow> db r k \<noteq> None \<longrightarrow> k \<in> set keys \<or> next \<noteq> 0 \<and> k \<in> covers next)"
    and scan_ends: "fst (rScan R c pattern r) = Inr (keys, next) \<Longrightarrow> next = 0 \<or> rank next < rank c"
    and cjson: "\<bar>tExpires tr\<bar> \<le> 2 ^ 53 \<Longrightarrow> ascii (tScope tr) \<Longrightarrow>
          rDecode R (enc_token tr) = Some (if tScope tr = [] then None else Some (tScope tr), tExpires tr)"
begin

text \<open>What a command leaves: only the entry under its key may change.\<close>

lemma set_other: "u \<noteq> k \<Longrightarrow> db (snd (rSet R k v ttl r)) u = db r u"
  by (cases "fst (rSet R k v ttl r)") (auto dest: set_ok set_failed)

lemma setnx_other: "u \<noteq> k \<Longrightarrow> db (snd (rSetNX R k v ttl r)) u = db r u"
proof (cases "fst (rSetNX R k v ttl r)")
  case (Inr resp)
  then show "u \<noteq> k \<Longrightarrow> ?thesis" by (cases resp) (auto dest: setnx_new setnx_held)
qed (auto dest: setnx_failed)

lemma take_script_db: "db (snd (takeChallengeScript R k r)) = db r \<or> db (snd (takeChallengeScript R k r)) = (db r)(k := None)"
  by (simp add: takeChallengeScript_def del_key split: option.split)

lemma consume_script_db:
  "db (snd (consumeTokenScript R k scope now keep r)) = db r \<or> db (snd (consumeTokenScript R k scope now keep r)) = (db r)(k := None)"
  by (auto simp: consumeTokenScript_def del_key split: option.split)

lemma eval_db: "db (snd (f r)) = db r \<or> db (snd (f r)) = (db r)(k := None) \<Longrightarrow>
    db (snd (rEval R f r)) = db r \<or> db (snd (rEval R f r)) = (db r)(k := None)"
  by (cases "fst (rEval R f r)") (auto dest: eval_ok eval_failed)

lemma snd_take: "snd (redis_TakeChallenge R prefix t now r) = snd (rEval R (takeChallengeScript R (challengeKey prefix t)) r)"
  by (auto simp: redis_TakeChallenge_def split: prod.split sum.split option.split)

lemma snd_consume: "snd (redis_ConsumeToken R prefix k scope now keep r)
    = snd (rEval R (consumeTokenScript R (tokenKey prefix k) scope now (if keep then ''1'' else ''0'')) r)"
  by (auto simp: redis_ConsumeToken_def split: prod.split sum.split option.split)

lemma snd_claim: "snd (redis_ClaimNonce R prefix k e now r) = snd (rSetNX R (nonceKey prefix k) (itoa e) (ttlFor e now) r)"
  by (auto simp: redis_ClaimNonce_def split: prod.split sum.split option.split)

lemma take_db:
  "db (snd (redis_TakeChallenge R prefix t now r)) = db r \<or> db (snd (redis_TakeChallenge R prefix t now r)) = (db r)(challengeKey prefix t := None)"
  unfolding snd_take by (rule eval_db [OF take_script_db])

lemma consume_db:
  "db (snd (redis_ConsumeToken R prefix k scope now keep r)) = db r \<or> db (snd (redis_ConsumeToken R prefix k scope now keep r)) = (db r)(tokenKey prefix k := None)"
  unfolding snd_consume by (rule eval_db [OF consume_script_db])

text \<open>\<open>Reset\<close> always returns, and only removes keys.\<close>

lemma del_keys_db: "db (snd (del_keys R keys r)) \<subseteq>\<^sub>m db r \<and> (\<forall>k. k \<notin> set keys \<longrightarrow> db (snd (del_keys R keys r)) k = db r k)
    \<and> (fst (del_keys R keys r) = Inr () \<longrightarrow> (\<forall>k \<in> set keys. db (snd (del_keys R keys r)) k = None))"
proof (induction keys arbitrary: r)
  case (Cons key keys)
  let ?r = "snd (rDel R key r)"
  have d: "db ?r = db r \<or> db ?r = (db r)(key := None)"
    by (cases "fst (rDel R key r)") (auto dest: del_ok del_failed)
  then have le: "db ?r \<subseteq>\<^sub>m db r" "\<forall>k. k \<noteq> key \<longrightarrow> db ?r k = db r k" by (auto simp: map_le_def split: if_splits)
  show ?case
  proof (cases "fst (rDel R key r)")
    case (Inl e)
    then show ?thesis using le by (cases "rDel R key r") auto
  next
    case (Inr u)
    then have s: "del_keys R (key # keys) r = del_keys R keys ?r" by (cases "rDel R key r") simp
    have "db ?r key = None" using del_ok [OF Inr] by simp
    then show ?thesis unfolding s using Cons.IH [of ?r] le
      by (auto intro: map_le_trans)
  qed
qed simp

lemma reset_loop_returns:
  "\<exists>x r'. reset_loop R prefix c r = Some (x, r') \<and> db r' \<subseteq>\<^sub>m db r"
proof (induction "rank c" arbitrary: c r rule: less_induct)
  case less
  obtain x r1 where s: "rScan R c (prefix @ ''*'') r = (x, r1)" by fastforce
  have r1: "db r1 = db r" using scan_db [of c "prefix @ ''*''" r] s by simp
  show ?case
  proof (cases x)
    case (Inl e)
    then show ?thesis using s r1 by (simp add: reset_loop.simps)
  next
    case (Inr kn)
    obtain keys nxt where kn: "kn = (keys, nxt)" by fastforce
    obtain y r2 where d: "del_keys R keys r1 = (y, r2)" by fastforce
    have r2: "db r2 \<subseteq>\<^sub>m db r" using del_keys_db [of keys r1] d r1 by simp
    show ?thesis
    proof (cases "\<exists>e. y = Inl e \<or> nxt = 0")
      case True
      then show ?thesis using s Inr kn d r2 by (subst reset_loop.simps) (auto split: sum.split)
    next
      case False
      then have y: "y = Inr ()" "nxt \<noteq> 0" by (cases y; simp)+
      then have "rank nxt < rank c" using scan_ends [of c "prefix @ ''*''" r keys nxt] s Inr kn by simp
      from less [OF this, of r2] obtain z r' where z: "reset_loop R prefix nxt r2 = Some (z, r')" "db r' \<subseteq>\<^sub>m db r2" by blast
      have "reset_loop R prefix c r = Some (z, r')"
        using s Inr kn d y z(1) by (subst reset_loop.simps) simp
      then show ?thesis using z(2) r2 map_le_trans by blast
    qed
  qed
qed


lemma redis_Reset_returns: "\<exists>x r'. redis_Reset R prefix r = Some (x, r') \<and> db r' \<subseteq>\<^sub>m db r"
  unfolding redis_Reset_def by (rule reset_loop_returns)

text \<open>The entries of the store obey the contract, whatever the clocks, the errors and the other keys are.\<close>

lemma redis_take_Some:
  assumes "fst (redis_TakeChallenge R prefix t now r) = Inr (Some record)"
  shows "redis_chal db prefix r t = Some record \<and> now < cExpires record
    \<and> redis_chal db prefix (snd (redis_TakeChallenge R prefix t now r)) t = None"
proof -
  let ?f = "takeChallengeScript R (challengeKey prefix t)"
  obtain raw where e: "fst (rEval R ?f r) = Inr (Some raw)" and u: "unmarshal dec_record raw zero_record = Some record" "now < cExpires record"
    using assms by (auto simp: redis_TakeChallenge_def split: prod.splits sum.splits option.splits if_splits)
  from eval_ok [OF e] have "fst (?f r) = Inr (Some raw)" "db (snd (rEval R ?f r)) = db (snd (?f r))" by simp_all
  then obtain d where "db r (challengeKey prefix t) = Some (raw, d)" "db (snd (rEval R ?f r)) = (db r)(challengeKey prefix t := None)"
    by (auto simp: takeChallengeScript_def get del_key split: option.splits if_splits)
  then show ?thesis using u by (simp add: redis_chal_def snd_take)
qed

lemma redis_consume_Some:
  assumes "fst (redis_ConsumeToken R prefix k scope now keep r) = Inr (Some record)"
  shows "redis_tok db prefix r k = Some record
    \<and> (\<not> keep \<longrightarrow> redis_tok db prefix (snd (redis_ConsumeToken R prefix k scope now keep r)) k = None)"
proof -
  let ?f = "consumeTokenScript R (tokenKey prefix k) scope now (if keep then ''1'' else ''0'')"
  obtain raw where e: "fst (rEval R ?f r) = Inr (Some raw)" and u: "unmarshal dec_token raw zero_token = Some record"
    using assms by (auto simp: redis_ConsumeToken_def split: prod.splits sum.splits option.splits if_splits)
  from eval_ok [OF e] have "fst (?f r) = Inr (Some raw)" "db (snd (rEval R ?f r)) = db (snd (?f r))" by simp_all
  then obtain d where "db r (tokenKey prefix k) = Some (raw, d)" "\<not> keep \<longrightarrow> db (snd (rEval R ?f r)) = (db r)(tokenKey prefix k := None)"
    by (auto simp: consumeTokenScript_def get del_key split: option.splits if_splits)
  then show ?thesis using u by (auto simp: redis_tok_def snd_consume)
qed

lemma redis_entries_le:
  "db r' = db r \<or> db r' = (db r)(u := None) \<Longrightarrow> redis_chal db prefix r' \<subseteq>\<^sub>m redis_chal db prefix r \<and> redis_tok db prefix r' \<subseteq>\<^sub>m redis_tok db prefix r"
  by (auto simp: map_le_def redis_chal_def redis_tok_def split: if_splits)

lemma redis_entries_sub:
  assumes "db r' \<subseteq>\<^sub>m db r"
  shows "redis_chal db prefix r' \<subseteq>\<^sub>m redis_chal db prefix r \<and> redis_tok db prefix r' \<subseteq>\<^sub>m redis_tok db prefix r"
proof -
  have "db r' k = None \<or> db r' k = db r k" for k using assms by (auto simp: map_le_def)
  then have "redis_chal db prefix r' t = None \<or> redis_chal db prefix r' t = redis_chal db prefix r t"
    "redis_tok db prefix r' t = None \<or> redis_tok db prefix r' t = redis_tok db prefix r t" for t
    unfolding redis_chal_def redis_tok_def by (metis option.case(1))+
  then show ?thesis by (force simp: map_le_def)
qed

end

sublocale redis_client \<subseteq> entries: entry_store "redis_ops R prefix" "redis_chal db prefix" "redis_tok db prefix" for prefix
proof (unfold_locales, goal_cases)
  case (1 u t r s)
  then show ?case by (simp add: redis_PutChallenge_def redis_chal_def set_other)
next
  case (2 t r s)
  then show ?case by (rule ext) (simp add: redis_PutChallenge_def redis_tok_def set_other)
next
  case (3 t now s r)
  then show ?case using redis_take_Some by simp
next
  case (4 t now s)
  then show ?case using redis_entries_le [OF take_db] by simp
next
  case (5 t now s)
  show ?case using take_db [of prefix t now s] by (auto simp: redis_tok_def fun_eq_iff)
next
  case (6 k e now s)
  show ?case by (rule ext) (simp add: redis_chal_def snd_claim setnx_other)
next
  case (7 k e now s)
  show ?case by (rule ext) (simp add: redis_tok_def snd_claim setnx_other)
next
  case (8 u k tr s)
  then show ?case by (simp add: redis_PutToken_def redis_tok_def set_other)
next
  case (9 k tr s)
  show ?case by (rule ext) (simp add: redis_PutToken_def redis_chal_def set_other)
next
  case (10 k scope now keep s tr)
  then show ?case using redis_consume_Some by simp
next
  case (11 k scope now keep s)
  show ?case using redis_entries_le [OF consume_db] by simp
next
  case (12 k scope now keep s)
  show ?case using consume_db [of prefix k scope now keep s] by (auto simp: redis_chal_def fun_eq_iff)
next
  case (15 s)
  show ?case using redis_Reset_returns [of prefix s] redis_entries_sub by auto
next
  case (16 s)
  show ?case using redis_Reset_returns [of prefix s] redis_entries_sub by auto
qed (simp_all add: redis_Cleanup_def)

section \<open>Reset clears the store\<close>

lemma has_prefix_append [simp]: "has_prefix (p @ s) p"
  by (simp add: has_prefix_iff)

lemma keys_have_prefix [simp]: "has_prefix (challengeKey p t) p" "has_prefix (nonceKey p t) p" "has_prefix (tokenKey p t) p"
  by (simp_all add: challengeKey_def nonceKey_def tokenKey_def)

context redis_client
begin

lemma reset_loop_clears:
  assumes "plain_pattern prefix" "reset_loop R prefix c r = Some (Inr (), r')"
  shows "db r' \<subseteq>\<^sub>m db r \<and> (\<forall>k. has_prefix k prefix \<longrightarrow> k \<in> covers c \<longrightarrow> db r' k = None)
    \<and> (\<forall>k. \<not> has_prefix k prefix \<longrightarrow> db r' k = db r k)"
  using assms(2)
proof (induction "rank c" arbitrary: c r rule: less_induct)
  case less
  obtain x r1 where s: "rScan R c (prefix @ ''*'') r = (x, r1)" by fastforce
  then obtain keys nxt where x: "x = Inr (keys, nxt)"
    using less.prems by (cases x) (auto simp: reset_loop.simps [of R prefix c r])
  obtain y r2 where d: "del_keys R keys r1 = (y, r2)" by fastforce
  then have y: "y = Inr ()"
    using less.prems s x by (cases y) (auto simp: reset_loop.simps [of R prefix c r])
  have r1: "db r1 = db r" using scan_db [of c "prefix @ ''*''" r] s by simp
  have k: "\<forall>k \<in> set keys. has_prefix k prefix"
    "\<And>k. k \<in> covers c \<Longrightarrow> has_prefix k prefix \<Longrightarrow> db r k \<noteq> None \<Longrightarrow> k \<in> set keys \<or> nxt \<noteq> 0 \<and> k \<in> covers nxt"
    using scan_keys [OF _ assms(1), of c r keys nxt] s x by auto
  have r2: "db r2 \<subseteq>\<^sub>m db r" "\<forall>k. k \<notin> set keys \<longrightarrow> db r2 k = db r k" "\<forall>k \<in> set keys. db r2 k = None"
    using del_keys_db [of keys r1] d y r1 by auto
  have gone: "db r2 k = None \<or> nxt \<noteq> 0 \<and> k \<in> covers nxt" if "has_prefix k prefix" "k \<in> covers c" for k
    using k(2) [OF that(2,1)] r2(2,3) by metis
  have other: "db r2 k = db r k" if "\<not> has_prefix k prefix" for k using k(1) r2(2) that by blast
  show ?case
  proof (cases "nxt = 0")
    case True
    then have "r' = r2" using less.prems s x d y by (simp add: reset_loop.simps [of R prefix c r])
    moreover have "db r2 k = None" if "has_prefix k prefix" "k \<in> covers c" for k using gone [OF that] True by simp
    ultimately show ?thesis using other r2(1) by simp
  next
    case False
    then have "rank nxt < rank c" using scan_ends [of c "prefix @ ''*''" r keys nxt] s x by simp
    moreover have "reset_loop R prefix nxt r2 = Some (Inr (), r')"
      using less.prems s x d y False by (simp add: reset_loop.simps [of R prefix c r])
    ultimately have ih: "db r' \<subseteq>\<^sub>m db r2" "\<And>k. has_prefix k prefix \<Longrightarrow> k \<in> covers nxt \<Longrightarrow> db r' k = None"
      "\<And>k. \<not> has_prefix k prefix \<Longrightarrow> db r' k = db r2 k"
      using less.hyps by blast+
    have keep: "db r2 k = None \<Longrightarrow> db r' k = None" for k using ih(1) by (metis domIff map_le_def)
    have "db r' \<subseteq>\<^sub>m db r" using ih(1) r2(1) by (rule map_le_trans)
    moreover have "db r' k = None" if "has_prefix k prefix" "k \<in> covers c" for k
      using gone [OF that] keep [of k] ih(2) [OF that(1)] by blast
    moreover have "db r' k = db r k" if "\<not> has_prefix k prefix" for k using other [OF that] ih(3) [OF that] by simp
    ultimately show ?thesis by blast
  qed
qed

lemma redis_Reset_clears:
  "plain_pattern prefix \<Longrightarrow> redis_Reset R prefix r = Some (Inr (), r') \<Longrightarrow> db r' k = (if has_prefix k prefix then None else db r k)"
  unfolding redis_Reset_def using reset_loop_clears [of prefix 0 r r'] scan_all by auto

end

section \<open>Agreement with MemoryStore\<close>

definition redis_memory :: "('r \<Rightarrow> string \<Rightarrow> (string \<times> int) option) \<Rightarrow> string \<Rightarrow> 'r \<Rightarrow> memory_store" where
  "redis_memory db prefix r =
     \<lparr>challenges = redis_chal db prefix r, nonces = (\<lambda>k. map_option snd (db r (nonceKey prefix k))), tokens = redis_tok db prefix r\<rparr>"

text \<open>The values are records the store wrote, and no record outlives its key.\<close>

definition redis_wf :: "('r \<Rightarrow> string \<Rightarrow> (string \<times> int) option) \<Rightarrow> string \<Rightarrow> 'r \<Rightarrow> bool" where
  "redis_wf db prefix r \<longleftrightarrow>
     (\<forall>t v d. db r (challengeKey prefix t) = Some (v, d) \<longrightarrow> (\<exists>x. v = enc_record x \<and> record_wire x \<and> cExpires x \<le> d)) \<and>
     (\<forall>k v d. db r (tokenKey prefix k) = Some (v, d) \<longrightarrow> (\<exists>x. v = enc_token x \<and> token_wire x \<and> tExpires x \<le> d))"

text \<open>
  A call in step with the server: it passes the time the server has, claims a nonce before its expiry,
  and puts records that have a JSON form.
\<close>

fun timely :: "int \<Rightarrow> store_call \<Rightarrow> bool" where
  "timely now (CPutChallenge t x) \<longleftrightarrow> record_wire x"
| "timely now (CTake t n) \<longleftrightarrow> n = now"
| "timely now (CClaim k e n) \<longleftrightarrow> n = now \<and> now < e"
| "timely now (CPutToken k x) \<longleftrightarrow> token_wire x"
| "timely now (CConsume k scope n keep) \<longleftrightarrow> n = now"
| "timely now (CCleanup n) \<longleftrightarrow> n = now"
| "timely now CReset \<longleftrightarrow> True"

fun in_step :: "'r redis \<Rightarrow> string \<Rightarrow> ('r \<Rightarrow> int) \<Rightarrow> store_call list \<Rightarrow> 'r \<Rightarrow> bool" where
  "in_step R prefix time [] r \<longleftrightarrow> True"
| "in_step R prefix time (c # cs) r \<longleftrightarrow>
     rNow R r = time r \<and> timely (time r) c \<and> time r \<le> time (snd (call (redis_ops R prefix) c r))
       \<and> in_step R prefix time cs (snd (call (redis_ops R prefix) c r))"

definition no_error :: "store_reply \<Rightarrow> bool" where
  "no_error x \<longleftrightarrow> (case x of RError e \<Rightarrow> False | _ \<Rightarrow> True)"

lemma ttlFor_ms: "ttlFor e now div 10 ^ 6 = max 1 (e - now)"
  by (simp add: ttlFor_def Let_def max_def)

lemma same_live_refl [simp]: "same_live now m m"
  by (simp add: same_live_def)

lemma same_live_trans: "same_live now m m' \<Longrightarrow> same_live now m' m'' \<Longrightarrow> same_live now m m''"
  by (simp add: same_live_def)

lemma same_live_later: "same_live now m m' \<Longrightarrow> now \<le> n \<Longrightarrow> same_live n m m'"
  by (auto simp: same_live_def intro: drop_expired_later)

lemma drop_expired_dead: "drop_expired ex now m k = None \<Longrightarrow> drop_expired ex now (m(k := None)) = drop_expired ex now m"
  by (auto simp: drop_expired_def fun_eq_iff split: option.splits)

context redis_client
begin

lemma redis_chal_wire: "db r (challengeKey prefix t) = Some (enc_record x, d) \<Longrightarrow> record_wire x \<Longrightarrow> redis_chal db prefix r t = Some x"
  by (simp add: redis_chal_def unmarshal_record)

lemma redis_tok_wire: "db r (tokenKey prefix k) = Some (enc_token x, d) \<Longrightarrow> token_wire x \<Longrightarrow> redis_tok db prefix r k = Some x"
  by (simp add: redis_tok_def unmarshal_token)

text \<open>One call: the reply is the one of the memory store, and the stores stay alike.\<close>

definition alike :: "string \<Rightarrow> store_call \<Rightarrow> 'r \<Rightarrow> bool" where
  "alike prefix c r \<longleftrightarrow>
     fst (call (redis_ops R prefix) c r) = fst (call mem_ops c (redis_memory db prefix r))
     \<and> same_live (time r) (redis_memory db prefix (snd (call (redis_ops R prefix) c r))) (snd (call mem_ops c (redis_memory db prefix r)))
     \<and> redis_wf db prefix (snd (call (redis_ops R prefix) c r))"

lemma alike_put_challenge:
  assumes "redis_wf db prefix r" "rNow R r = time r" "record_wire x" "no_error (fst (call (redis_ops R prefix) (CPutChallenge t x) r))"
  shows "alike prefix (CPutChallenge t x) r"
proof -
  let ?r = "snd (redis_PutChallenge R prefix t x r)"
  have ok: "fst (redis_PutChallenge R prefix t x r) = Inr ()"
    using assms(4) by (auto simp: fst_reply no_error_def split: sum.splits)
  then have d: "db ?r = (db r)(challengeKey prefix t \<mapsto> (enc_record x, time r + max 1 (cExpires x - time r)))"
    unfolding redis_PutChallenge_def using set_ok ttlFor_ms assms(2) by metis
  have "redis_memory db prefix ?r = (redis_memory db prefix r)\<lparr>challenges := (redis_chal db prefix r)(t \<mapsto> x)\<rparr>"
    using d assms(3) by (simp add: redis_memory_def redis_chal_def redis_tok_def fun_eq_iff unmarshal_record)
  moreover have "redis_wf db prefix ?r" using assms(1,3) unfolding redis_wf_def d by (auto intro: exI [of _ x])
  ultimately show ?thesis using ok by (simp add: alike_def reply_def mem_PutChallenge_def redis_memory_def)
qed

lemma alike_put_token:
  assumes "redis_wf db prefix r" "rNow R r = time r" "token_wire x" "no_error (fst (call (redis_ops R prefix) (CPutToken k x) r))"
  shows "alike prefix (CPutToken k x) r"
proof -
  let ?r = "snd (redis_PutToken R prefix k x r)"
  have ok: "fst (redis_PutToken R prefix k x r) = Inr ()"
    using assms(4) by (auto simp: fst_reply no_error_def split: sum.splits)
  then have d: "db ?r = (db r)(tokenKey prefix k \<mapsto> (enc_token x, time r + max 1 (tExpires x - time r)))"
    unfolding redis_PutToken_def using set_ok ttlFor_ms assms(2) by metis
  have "redis_memory db prefix ?r = (redis_memory db prefix r)\<lparr>tokens := (redis_tok db prefix r)(k \<mapsto> x)\<rparr>"
    using d assms(3) by (simp add: redis_memory_def redis_chal_def redis_tok_def fun_eq_iff unmarshal_token)
  moreover have "redis_wf db prefix ?r" using assms(1,3) unfolding redis_wf_def d by (auto intro: exI [of _ x])
  ultimately show ?thesis using ok by (simp add: alike_def reply_def mem_PutToken_def redis_memory_def)
qed


lemma redis_memory_db: "db r' = db r \<Longrightarrow> redis_memory db prefix r' = redis_memory db prefix r"
  by (simp add: redis_memory_def redis_chal_def redis_tok_def fun_eq_iff)

lemma redis_wf_le: "redis_wf db prefix r \<Longrightarrow> db r' \<subseteq>\<^sub>m db r \<Longrightarrow> redis_wf db prefix r'"
  unfolding redis_wf_def map_le_def by (metis domI)

lemma same_live_dead:
  assumes "drop_expired cExpires now (challenges m) t = None"
  shows "same_live now m (m\<lparr>challenges := (challenges m)(t := None)\<rparr>)"
  using drop_expired_dead [OF assms] by (simp add: same_live_def del: drop_expired_upd)

lemma same_live_dead_token:
  assumes "drop_expired tExpires now (tokens m) k = None"
  shows "same_live now m (m\<lparr>tokens := (tokens m)(k := None)\<rparr>)"
  using drop_expired_dead [OF assms] by (simp add: same_live_def del: drop_expired_upd)

lemma alike_take:
  assumes "redis_wf db prefix r" "no_error (fst (call (redis_ops R prefix) (CTake t (time r)) r))"
  shows "alike prefix (CTake t (time r)) r"
proof -
  let ?k = "challengeKey prefix t" and ?m = "redis_memory db prefix r" and ?now = "time r"
  let ?f = "takeChallengeScript R ?k" and ?r = "snd (redis_TakeChallenge R prefix t (time r) r)"
  obtain out where out: "fst (rEval R ?f r) = Inr out"
    using assms(2) by (cases "rEval R ?f r"; cases "fst (rEval R ?f r)") (auto simp: fst_reply no_error_def redis_TakeChallenge_def)
  from eval_ok [OF this] have f: "fst (?f r) = Inr out" "db ?r = db (snd (?f r))" by (simp_all add: snd_take)
  have reply: "fst (redis_TakeChallenge R prefix t ?now r) =
      (case out of None \<Rightarrow> Inr None | Some raw \<Rightarrow> (case unmarshal dec_record raw zero_record of
          None \<Rightarrow> Inl (EWrap ''capredis: corrupt challenge record: '' (EOther ''json'') []) | Some x \<Rightarrow> Inr (if cExpires x \<le> ?now then None else Some x)))"
    using out by (cases "rEval R ?f r") (simp add: redis_TakeChallenge_def split: option.split)
  have wf: "redis_wf db prefix ?r" by (rule redis_wf_le [OF assms(1)]) (use take_db [of prefix t ?now r] in \<open>auto simp: map_le_def split: if_splits\<close>)
  show ?thesis
  proof (cases "rGet R ?k r")
    case None
    then have o: "out = None" "db ?r = db r" using f by (simp_all add: takeChallengeScript_def)
    have dead: "drop_expired cExpires ?now (challenges ?m) t = None"
    proof (cases "db r ?k")
      case (Some vd)
      then obtain x d where x: "db r ?k = Some (enc_record x, d)" "record_wire x" "cExpires x \<le> d" "d \<le> ?now"
        using assms(1) None by (cases vd) (fastforce simp: redis_wf_def get split: if_splits)
      then have "challenges ?m t = Some x" by (simp add: redis_memory_def redis_chal_wire)
      then show ?thesis using x by (simp add: drop_expired_def)
    qed (simp add: redis_memory_def redis_chal_def drop_expired_def)
    then have "mem_TakeChallenge t ?now ?m = (Inr None, ?m\<lparr>challenges := (challenges ?m)(t := None)\<rparr>)" by (simp add: take_live)
    then show ?thesis using reply o wf same_live_dead [OF dead] redis_memory_db [OF o(2)] by (simp add: alike_def reply_def)
  next
    case (Some v)
    then obtain d where d: "db r ?k = Some (v, d)" by (auto simp: get split: option.splits if_splits)
    then obtain x where x: "v = enc_record x" "record_wire x" using assms(1) unfolding redis_wf_def by blast
    have "?f r = (Inr (Some v), rDelKey R ?k r)" by (simp add: takeChallengeScript_def Some)
    then have o: "out = Some v" "db ?r = (db r)(?k := None)" using f by (simp_all add: del_key)
    have m: "challenges ?m t = Some x" using d x by (simp add: redis_memory_def redis_chal_wire)
    have "redis_memory db prefix ?r = ?m\<lparr>challenges := (challenges ?m)(t := None)\<rparr>"
      using o(2) by (simp add: redis_memory_def redis_chal_def redis_tok_def fun_eq_iff)
    then show ?thesis using reply o x m wf by (simp add: alike_def reply_def mem_TakeChallenge_def unmarshal_record)
  qed
qed

lemma alike_claim:
  assumes "redis_wf db prefix r" "time r < e" "no_error (fst (call (redis_ops R prefix) (CClaim k e (time r)) r))"
  shows "alike prefix (CClaim k e (time r)) r"
proof -
  let ?k = "nonceKey prefix k" and ?m = "redis_memory db prefix r" and ?now = "time r"
  let ?c = "rSetNX R ?k (itoa e) (ttlFor e ?now) r" and ?r = "snd (redis_ClaimNonce R prefix k e (time r) r)"
  obtain out where out: "fst ?c = Inr out"
    using assms(3) by (cases ?c; cases "fst ?c") (auto simp: fst_reply no_error_def redis_ClaimNonce_def)
  have n: "nonces ?m k = map_option snd (db r ?k)" by (simp add: redis_memory_def)
  show ?thesis
  proof (cases out)
    case None
    then have o: "\<exists>v d. db r ?k = Some (v, d) \<and> ?now < d" "db ?r = db r" using setnx_held out by (simp_all add: snd_claim)
    have "fst (redis_ClaimNonce R prefix k e ?now r) = Inr False"
      using out None by (cases ?c) (simp add: redis_ClaimNonce_def)
    moreover have "mem_ClaimNonce k e ?now ?m = (Inr False, ?m)" using o(1) n by (auto simp: mem_ClaimNonce_def)
    moreover have "redis_wf db prefix ?r" using assms(1) o(2) by (simp add: redis_wf_def)
    ultimately show ?thesis using redis_memory_db [OF o(2)] by (simp add: alike_def reply_def)
  next
    case (Some resp)
    then have o: "resp = ''OK''" "\<forall>v d. db r ?k = Some (v, d) \<longrightarrow> d \<le> ?now"
      "db ?r = (db r)(?k \<mapsto> (itoa e, ?now + ttlFor e ?now div 10 ^ 6))" using setnx_new out by (simp_all add: snd_claim)
    then have d: "db ?r = (db r)(?k \<mapsto> (itoa e, e))" using assms(2) unfolding ttlFor_ms by simp
    have "fst (redis_ClaimNonce R prefix k e ?now r) = Inr True"
      using out Some o(1) by (cases ?c) (simp add: redis_ClaimNonce_def)
    moreover have "mem_ClaimNonce k e ?now ?m = (Inr True, ?m\<lparr>nonces := (nonces ?m)(k \<mapsto> e)\<rparr>)"
      using o(2) n by (cases "db r ?k") (auto simp: mem_ClaimNonce_def)
    moreover have "redis_memory db prefix ?r = ?m\<lparr>nonces := (nonces ?m)(k \<mapsto> e)\<rparr>"
      using d by (simp add: redis_memory_def redis_chal_def redis_tok_def fun_eq_iff)
    moreover have "redis_wf db prefix ?r" using assms(1) d by (simp add: redis_wf_def)
    ultimately show ?thesis by (simp add: alike_def reply_def)
  qed
qed


lemma alike_consume:
  assumes "redis_wf db prefix r" "no_error (fst (call (redis_ops R prefix) (CConsume k scope (time r) keep) r))"
  shows "alike prefix (CConsume k scope (time r) keep) r"
proof -
  let ?k = "tokenKey prefix k" and ?m = "redis_memory db prefix r" and ?now = "time r"
  let ?f = "consumeTokenScript R ?k scope ?now (if keep then ''1'' else ''0'')"
  let ?r = "snd (redis_ConsumeToken R prefix k scope ?now keep r)"
  obtain out where out: "fst (rEval R ?f r) = Inr out"
    using assms(2) by (cases "rEval R ?f r"; cases "fst (rEval R ?f r)") (auto simp: fst_reply no_error_def redis_ConsumeToken_def)
  from eval_ok [OF this] have f: "fst (?f r) = Inr out" "db ?r = db (snd (?f r))" by (simp_all add: snd_consume)
  have reply: "fst (redis_ConsumeToken R prefix k scope ?now keep r) =
      (case out of None \<Rightarrow> Inr None | Some raw \<Rightarrow> (case unmarshal dec_token raw zero_token of
          None \<Rightarrow> Inl (EWrap ''capredis: corrupt token record: '' (EOther ''json'') []) | Some x \<Rightarrow> Inr (Some x)))"
    using out by (cases "rEval R ?f r") (simp add: redis_ConsumeToken_def split: option.split)
  have wf: "redis_wf db prefix ?r" by (rule redis_wf_le [OF assms(1)]) (use consume_db [of prefix k scope ?now keep r] in \<open>auto simp: map_le_def split: if_splits\<close>)
  show ?thesis
  proof (cases "rGet R ?k r")
    case None
    then have o: "out = None" "db ?r = db r" using f by (simp_all add: consumeTokenScript_def)
    have dead: "drop_expired tExpires ?now (tokens ?m) k = None"
    proof (cases "db r ?k")
      case (Some vd)
      then obtain x d where x: "db r ?k = Some (enc_token x, d)" "token_wire x" "tExpires x \<le> d" "d \<le> ?now"
        using assms(1) None by (cases vd) (fastforce simp: redis_wf_def get split: if_splits)
      then have "tokens ?m k = Some x" by (simp add: redis_memory_def redis_tok_wire)
      then show ?thesis using x by (simp add: drop_expired_def)
    qed (simp add: redis_memory_def redis_tok_def drop_expired_def)
    then have "mem_ConsumeToken k scope ?now keep ?m = (Inr None, ?m\<lparr>tokens := (tokens ?m)(k := None)\<rparr>)" by (simp add: consume_live)
    then show ?thesis using reply o wf same_live_dead_token [OF dead] redis_memory_db [OF o(2)] by (simp add: alike_def reply_def)
  next
    case (Some v)
    then obtain d where d: "db r ?k = Some (v, d)" by (auto simp: get split: option.splits if_splits)
    then obtain x where x: "v = enc_token x" "token_wire x" using assms(1) unfolding redis_wf_def by blast
    have c: "rDecode R v = Some (if tScope x = [] then None else Some (tScope x), tExpires x)"
      using cjson [of x] x by (simp add: token_wire_def)
    have run: "?f r = (if scope \<noteq> [] \<and> tScope x \<noteq> scope then (Inr None, r)
        else if tExpires x \<le> ?now then (Inr None, rDelKey R ?k r)
        else (Inr (Some v), if keep then r else rDelKey R ?k r))"
      by (simp add: consumeTokenScript_def Some c)
    have m: "tokens ?m k = Some x" using d x by (simp add: redis_memory_def redis_tok_wire)
    have gone: "redis_memory db prefix ?r = ?m\<lparr>tokens := (tokens ?m)(k := None)\<rparr>" if "db ?r = (db r)(?k := None)"
      using that by (simp add: redis_memory_def redis_chal_def redis_tok_def fun_eq_iff)
    consider "scope \<noteq> [] \<and> tScope x \<noteq> scope" | "\<not> (scope \<noteq> [] \<and> tScope x \<noteq> scope)" "tExpires x \<le> ?now"
      | "\<not> (scope \<noteq> [] \<and> tScope x \<noteq> scope)" "\<not> tExpires x \<le> ?now" by blast
    then show ?thesis
    proof cases
      case 1
      then have o: "out = None" "db ?r = db r" using f unfolding run by simp_all
      have "fst (mem_ConsumeToken k scope ?now keep ?m) = Inr None \<and> same_live ?now ?m (snd (mem_ConsumeToken k scope ?now keep ?m))"
        using 1 m by (auto simp: mem_ConsumeToken_def Let_def drop_expired_def intro: same_live_dead_token)
      then show ?thesis using reply o wf redis_memory_db [OF o(2)] by (simp add: alike_def reply_def)
    next
      case 2
      then have "?f r = (Inr None, rDelKey R ?k r)" unfolding run by auto
      then have o: "out = None" "db ?r = (db r)(?k := None)" using f by (simp_all add: del_key)
      show ?thesis using 2 reply o(1) wf gone [OF o(2)] m by (simp add: alike_def reply_def mem_ConsumeToken_def)
    next
      case 3
      then have "?f r = (Inr (Some v), if keep then r else rDelKey R ?k r)" unfolding run by auto
      then have o: "out = Some v" "db ?r = (if keep then db r else (db r)(?k := None))" using f by (simp_all add: del_key)
      show ?thesis using 3 reply o wf gone redis_memory_db [of ?r r prefix] m x
        by (auto simp add: alike_def reply_def mem_ConsumeToken_def unmarshal_token)
    qed
  qed
qed

lemma alike_reset:
  assumes "plain_pattern prefix" "no_error (fst (call (redis_ops R prefix) CReset r))"
  shows "alike prefix CReset r"
proof -
  obtain x r' where l: "redis_Reset R prefix r = Some (x, r')" using redis_Reset_returns by blast
  then have x: "x = Inr ()" using assms(2) by (cases x) (auto simp: fst_reply no_error_def)
  note gone = redis_Reset_clears [OF assms(1) l [unfolded x]]
  have "redis_memory db prefix r' = NewMemoryStore" "redis_wf db prefix r'"
    by (simp_all add: redis_memory_def NewMemoryStore_def redis_chal_def redis_tok_def redis_wf_def gone fun_eq_iff)
  then show ?thesis using l x by (simp add: alike_def reply_def mem_Reset_def NewMemoryStore_def)
qed

lemma alike_call:
  assumes "redis_wf db prefix r" "plain_pattern prefix" "rNow R r = time r" "timely (time r) c"
    and "no_error (fst (call (redis_ops R prefix) c r))"
  shows "alike prefix c r"
proof (cases c)
  case (CCleanup now)
  then show ?thesis using assms(1,4) same_live_cleanup by (simp add: alike_def reply_def redis_Cleanup_def mem_Cleanup_def same_live_def drop_expired_twice)
qed (use assms alike_put_challenge alike_take alike_claim alike_put_token alike_consume alike_reset in auto)

lemma redis_history:
  assumes "plain_pattern prefix" "redis_wf db prefix r" "same_live (time r) (redis_memory db prefix r) m"
    and "in_step R prefix time cs r" "list_all (\<lambda>(c, x). no_error x) (fst (run_calls (redis_ops R prefix) cs r))"
  shows "fst (run_calls (redis_ops R prefix) cs r) = fst (run_calls mem_ops cs m)"
  using assms(2-)
proof (induction cs arbitrary: r m)
  case (Cons c cs)
  let ?S = "redis_ops R prefix" and ?mr = "redis_memory db prefix r"
  let ?r = "snd (call ?S c r)"
  have now: "rNow R r = time r" "timely (time r) c" "time r \<le> time ?r" "in_step R prefix time cs ?r" using Cons.prems(3) by simp_all
  have ok: "no_error (fst (call ?S c r))" "list_all (\<lambda>(c, x). no_error x) (fst (run_calls ?S cs ?r))"
    using Cons.prems(4) by (simp_all add: Let_def)
  have a: "alike prefix c r" by (rule alike_call [OF Cons.prems(1) assms(1) now(1,2) ok(1)])
  have later: "call_from (time r) c" using now(2) by (cases c) simp_all
  note m = same_live_call [OF Cons.prems(2) later]
  have "same_live (time r) (redis_memory db prefix ?r) (snd (call mem_ops c m))"
    using a m same_live_trans by (auto simp: alike_def)
  then have "same_live (time ?r) (redis_memory db prefix ?r) (snd (call mem_ops c m))" using now(3) by (rule same_live_later)
  moreover have "redis_wf db prefix ?r" using a by (simp add: alike_def)
  ultimately have "fst (run_calls ?S cs ?r) = fst (run_calls mem_ops cs (snd (call mem_ops c m)))"
    using Cons.IH now(4) ok(2) by blast
  moreover have "fst (call ?S c r) = fst (call mem_ops c m)" using a m by (simp add: alike_def)
  ultimately show ?case by (simp add: Let_def)
qed simp

lemma redis_fresh:
  assumes "\<forall>k. has_prefix k prefix \<longrightarrow> db r k = None"
  shows "redis_wf db prefix r" "redis_memory db prefix r = NewMemoryStore"
  using assms by (simp_all add: redis_wf_def redis_memory_def NewMemoryStore_def redis_chal_def redis_tok_def fun_eq_iff)

end

text \<open>The balance of the entries, from the contract.\<close>

context redis_client
begin

lemmas redis_takes_bounded = entries.takes_bounded
lemmas redis_spends_bounded = entries.spends_bounded

end

section \<open>A server\<close>

text \<open>
  A single server that meets the laws: an association list, a clock that every command moves on by a
  millisecond, \<open>SCAN\<close> in one batch. It shows that the laws can hold, and runs the examples.
\<close>

record sim =
  simData :: "(string \<times> string \<times> int) list"
  simTime :: int

definition sim_db :: "sim \<Rightarrow> string \<Rightarrow> (string \<times> int) option" where
  "sim_db s = map_of (simData s)"

definition sim_tick :: "sim \<Rightarrow> sim" where
  "sim_tick s = s\<lparr>simTime := simTime s + 1\<rparr>"

definition sim_put :: "string \<Rightarrow> string \<Rightarrow> int \<Rightarrow> sim \<Rightarrow> sim" where
  "sim_put k v ttl s = s\<lparr>simData := (k, v, simTime s + ttl div 10 ^ 6) # simData s\<rparr>"

definition sim_del :: "string \<Rightarrow> sim \<Rightarrow> sim" where
  "sim_del k s = s\<lparr>simData := filter (\<lambda>(k', _). k' \<noteq> k) (simData s)\<rparr>"

definition sim_get :: "string \<Rightarrow> sim \<Rightarrow> string option" where
  "sim_get k s = (case sim_db s k of None \<Rightarrow> None | Some (v, d) \<Rightarrow> if d \<le> simTime s then None else Some v)"

definition sim_decode :: "string \<Rightarrow> (string option \<times> int) option" where
  "sim_decode v = map_option (\<lambda>x. (if tScope x = [] then None else Some (tScope x), tExpires x)) (unmarshal dec_token v zero_token)"

definition sim_redis :: "sim redis" where
  "sim_redis =
     \<lparr>rNow = simTime,
      rSet = (\<lambda>k v ttl s. (Inr (), sim_tick (sim_put k v ttl s))),
      rSetNX = (\<lambda>k v ttl s. case sim_get k s of
          Some _ \<Rightarrow> (Inr None, sim_tick s) | None \<Rightarrow> (Inr (Some ''OK''), sim_tick (sim_put k v ttl s))),
      rEval = (\<lambda>f s. (fst (f s), sim_tick (snd (f s)))),
      rGet = sim_get,
      rDelKey = sim_del,
      rScan = (\<lambda>c pattern s. (Inr (filter (\<lambda>k. has_prefix k (butlast pattern)) (map fst (simData s)), 0), sim_tick s)),
      rDel = (\<lambda>k s. (Inr (), sim_tick (sim_del k s))),
      rDecode = sim_decode\<rparr>"

lemma sim_db_steps [simp]:
  "sim_db (sim_tick s) = sim_db s" "sim_db (sim_put k v ttl s) = (sim_db s)(k \<mapsto> (v, simTime s + ttl div 10 ^ 6))"
  "sim_db (sim_del k s) = (sim_db s)(k := None)" "simTime (sim_tick s) = simTime s + 1"
  "simTime (sim_put k v ttl s) = simTime s" "simTime (sim_del k s) = simTime s"
proof -
  have "map_of (filter (\<lambda>(k', _). k' \<noteq> k) xs) k' = (if k' = k then None else map_of xs k')" for xs :: "(string \<times> string \<times> int) list" and k'
    by (induction xs) auto
  then show "sim_db (sim_del k s) = (sim_db s)(k := None)" by (simp add: sim_db_def sim_del_def fun_eq_iff)
qed (simp_all add: sim_db_def sim_tick_def sim_put_def sim_del_def)

lemma sim_redis_simps [simp]:
  "rNow sim_redis = simTime" "rSet sim_redis = (\<lambda>k v ttl s. (Inr (), sim_tick (sim_put k v ttl s)))"
  "rEval sim_redis = (\<lambda>f s. (fst (f s), sim_tick (snd (f s))))" "rGet sim_redis = sim_get" "rDelKey sim_redis = sim_del"
  "rDel sim_redis = (\<lambda>k s. (Inr (), sim_tick (sim_del k s)))" "rDecode sim_redis = sim_decode"
  by (simp_all add: sim_redis_def)

lemma sim_setnx [simp]: "rSetNX sim_redis k v ttl s = (case sim_get k s of
    Some _ \<Rightarrow> (Inr None, sim_tick s) | None \<Rightarrow> (Inr (Some ''OK''), sim_tick (sim_put k v ttl s)))"
  by (simp add: sim_redis_def)

lemma sim_start [simp]: "sim_db \<lparr>simData = [], simTime = n\<rparr> = Map.empty"
  by (simp add: sim_db_def)

lemmas sim_run = sim_get_def redis_PutChallenge_def redis_TakeChallenge_def redis_ClaimNonce_def takeChallengeScript_def ttlFor_def reply_def

interpretation sim: redis_client sim_redis sim_db simTime "\<lambda>_. UNIV" "\<lambda>_. 0"
proof (unfold_locales, goal_cases)
  case (14 c p r keys nxt)
  then show ?case by (force simp: sim_redis_def sim_db_def map_of_eq_None_iff)
next
  case (16 tr)
  then show ?case by (simp add: sim_decode_def unmarshal_token token_wire_def)
qed (auto simp: sim_redis_def sim_get_def split: option.splits if_splits)

section \<open>Properties\<close>

text \<open>
  Property C9. The store on Redis refines \<open>MemoryStore\<close>: from an empty key space under a plain prefix, any sequence of
  calls in step with the server's clock, none of which fails, gets the replies that \<open>MemoryStore\<close> gives,
  although keys expire on their own, the records travel as JSON and the scripts look at the scope first.
\<close>

theorem redis_refines_memory:
  assumes "redis_client R db time covers rank" "plain_pattern prefix" "\<forall>k. has_prefix k prefix \<longrightarrow> db r k = None"
    and "in_step R prefix time cs r" "list_all (\<lambda>(c, x). no_error x) (fst (run_calls (redis_ops R prefix) cs r))"
  shows "fst (run_calls (redis_ops R prefix) cs r) = fst (run_calls mem_ops cs NewMemoryStore)"
  using redis_client.redis_history [OF assms(1,2) _ _ assms(4,5)] redis_client.redis_fresh [OF assms(1,3)] by simp

definition example_record :: challenge_record where
  "example_record = \<lparr>cCount = 50, cSize = 32, cDifficulty = 4, cScope = ''login'', cExpires = 1003, cInstr = None\<rparr>"

theorem redis_refines_memory_witness:
  "map snd (fst (run_calls (redis_ops sim_redis (redis_New []))
     [CPutChallenge ''t'' example_record, CTake ''t'' 1001, CTake ''t'' 1002, CClaim ''n'' 1005 1003, CClaim ''n'' 1005 1004]
     \<lparr>simData = [], simTime = 1000\<rparr>))
   = [RUnit, RChallenge (Some example_record), RChallenge None, RBool True, RBool False]
   \<and> fst (run_calls mem_ops
     [CPutChallenge ''t'' example_record, CTake ''t'' 1001, CTake ''t'' 1002, CClaim ''n'' 1005 1003, CClaim ''n'' 1005 1004] NewMemoryStore)
   = fst (run_calls (redis_ops sim_redis (redis_New []))
     [CPutChallenge ''t'' example_record, CTake ''t'' 1001, CTake ''t'' 1002, CClaim ''n'' 1005 1003, CClaim ''n'' 1005 1004]
     \<lparr>simData = [], simTime = 1000\<rparr>)"
proof -
  let ?cs = "[CPutChallenge ''t'' example_record, CTake ''t'' 1001, CTake ''t'' 1002, CClaim ''n'' 1005 1003, CClaim ''n'' 1005 1004]"
  let ?r = "\<lparr>simData = [], simTime = 1000\<rparr>"
  have wire: "record_wire example_record" by (simp add: record_wire_def example_record_def int64_def)
  have plain: "plain_pattern (redis_New [])" by (simp add: plain_pattern_def redis_New_def default_prefix_def)
  let ?S = "redis_ops sim_redis (redis_New [])" and ?k = "challengeKey (redis_New []) ''t''" and ?n = "nonceKey (redis_New []) ''n''"
  define s1 where "s1 = sim_tick (sim_put ?k (enc_record example_record) 3000000 ?r)"
  define s2 where "s2 = sim_tick (sim_del ?k s1)"
  define s4 where "s4 = sim_tick (sim_put ?n (itoa 1005) 2000000 (sim_tick s2))"
  have e: "cExpires example_record = 1003" by (simp add: example_record_def)
  have db: "sim_db s1 = [?k \<mapsto> (enc_record example_record, 1003)]" "sim_db s2 = Map.empty" "sim_db s4 = [?n \<mapsto> (itoa 1005, 1005)]"
    "simTime s1 = 1001" "simTime s2 = 1002" "simTime s4 = 1004"
    by (simp_all add: s1_def s2_def s4_def)
  have c: "call ?S (CPutChallenge ''t'' example_record) ?r = (RUnit, s1)" "call ?S (CTake ''t'' 1001) s1 = (RChallenge (Some example_record), s2)"
    "call ?S (CTake ''t'' 1002) s2 = (RChallenge None, sim_tick s2)" "call ?S (CClaim ''n'' 1005 1003) (sim_tick s2) = (RBool True, s4)"
    "call ?S (CClaim ''n'' 1005 1004) s4 = (RBool False, sim_tick s4)"
    using db wire by (simp_all add: sim_run s1_def [symmetric] s2_def [symmetric] s4_def [symmetric] e unmarshal_record)
  have replies: "map snd (fst (run_calls ?S ?cs ?r)) = [RUnit, RChallenge (Some example_record), RChallenge None, RBool True, RBool False]"
    by (simp add: c del: call.simps)
  have step: "in_step sim_redis (redis_New []) simTime ?cs ?r" using db wire by (simp add: c del: call.simps)
  have ok: "list_all (\<lambda>(c, x). no_error x) (fst (run_calls ?S ?cs ?r))" by (simp add: c no_error_def del: call.simps)
  show ?thesis
    using redis_refines_memory [OF sim.redis_client_axioms plain _ step ok] replies by simp
qed

text \<open>
  On Redis, too, no challenge and no token is used twice: whatever the calls, the errors of the
  network, the clocks and the other users of the server, a challenge is handed out and a token
  consumed at most once for each time it was put (and once more if it was there at the start).
\<close>

lemma redis_single_use:
  assumes "redis_client R db time covers rank"
  shows "count_if (took t) (fst (run_calls (redis_ops R prefix) cs r))
       \<le> count_if (put_chal t) (fst (run_calls (redis_ops R prefix) cs r)) + (if redis_chal db prefix r t = None then 0 else 1)
    \<and> count_if (spent k) (fst (run_calls (redis_ops R prefix) cs r))
       \<le> count_if (put_tok k) (fst (run_calls (redis_ops R prefix) cs r)) + (if redis_tok db prefix r k = None then 0 else 1)"
  using redis_client.redis_takes_bounded [OF assms, of t prefix cs r] redis_client.redis_spends_bounded [OF assms, of k prefix cs r]
  by simp

lemma redis_single_use_witness:
  "count_if (took ''t'') (fst (run_calls (redis_ops sim_redis (redis_New []))
      [CPutChallenge ''t'' example_record, CTake ''t'' 1001, CTake ''t'' 1001] \<lparr>simData = [], simTime = 1000\<rparr>)) \<le> 1"
proof -
  let ?S = "redis_ops sim_redis (redis_New [])" and ?r = "\<lparr>simData = [], simTime = 1000\<rparr>"
  let ?cs = "[CPutChallenge ''t'' example_record, CTake ''t'' 1001, CTake ''t'' 1001]"
  have "count_if (put_chal ''t'') (fst (run_calls ?S ?cs ?r)) = 1" by (simp add: Let_def)
  moreover have "redis_chal sim_db (redis_New []) ?r ''t'' = None" by (simp add: redis_chal_def)
  ultimately show ?thesis
    using redis_single_use [OF sim.redis_client_axioms, of "''t''" "redis_New []" ?cs ?r] by simp
qed

text \<open>
  Property C22. \<open>Reset\<close> ends, whatever the server holds, because its cursors do; it never adds or changes an entry; and
  when it returns no error every key under a plain prefix is gone and every other key is as it was.
\<close>

theorem redis_reset_terminates:
  assumes "redis_client R db time covers rank"
  shows "\<exists>x r'. redis_Reset R prefix r = Some (x, r') \<and> db r' \<subseteq>\<^sub>m db r
    \<and> (if plain_pattern prefix \<and> x = Inr () then \<forall>k. db r' k = (if has_prefix k prefix then None else db r k) else True)"
proof -
  obtain x r' where r: "redis_Reset R prefix r = Some (x, r')" "db r' \<subseteq>\<^sub>m db r"
    using redis_client.redis_Reset_returns [OF assms, of prefix r] by blast
  moreover have "db r' k = (if has_prefix k prefix then None else db r k)" if "plain_pattern prefix" "x = Inr ()" for k
    using redis_client.redis_Reset_clears [OF assms that(1)] r(1) that(2) by blast
  ultimately show ?thesis by (intro exI [of _ x] exI [of _ r']) simp
qed

theorem redis_reset_terminates_witness:
  "\<exists>r'. redis_Reset sim_redis ''cap:'' \<lparr>simData = [(''cap:nonce:n'', ''1005'', 1005), (''other'', ''x'', 2000)], simTime = 1000\<rparr> = Some (Inr (), r')
    \<and> sim_db r' ''cap:nonce:n'' = None \<and> sim_db r' ''other'' = Some (''x'', 2000)"
proof -
  let ?r = "\<lparr>simData = [(''cap:nonce:n'', ''1005'', 1005), (''other'', ''x'', 2000)], simTime = 1000\<rparr>"
  have plain: "plain_pattern ''cap:''" by (simp add: plain_pattern_def)
  obtain x r' where r: "redis_Reset sim_redis ''cap:'' ?r = Some (x, r')"
    "if plain_pattern ''cap:'' \<and> x = Inr () then \<forall>k. sim_db r' k = (if has_prefix k ''cap:'' then None else sim_db ?r k) else True"
    using redis_reset_terminates [OF sim.redis_client_axioms, of "''cap:''" ?r] by metis
  have "x = Inr ()" using r(1) by (simp add: redis_Reset_def reset_loop.simps sim_redis_def split: if_splits)
  then have d: "sim_db r' k = (if has_prefix k ''cap:'' then None else sim_db ?r k)" for k using r(2) plain by simp
  have "sim_db ?r ''other'' = Some (''x'', 2000)" by (simp add: sim_db_def)
  then show ?thesis using r(1) \<open>x = Inr ()\<close> d [of "''other''"] d [of "''cap:nonce:n''"] by simp
qed

end
