(* ===== verification/Replicas.thy ===== *)
theory Replicas
  imports Signed Redis
begin

text \<open>
  Many clients on one store: replicas of the service that share a Redis server, or requests served at the same
  time by one process. What happened at the store is a trace of atomic operations, each marked with
  the client that asked for it; each client is a run of the service against its share of the trace.
  The theorems say that the clients together use a challenge, a token or a replay key no more often
  than the contract of the store allows, however their operations interleave.
\<close>

section \<open>A client and its share of the trace\<close>

text \<open>
  A store that plays back recorded operations: a call that is the next of the record gets the
  recorded reply; any other call leaves the record for good and fails.
\<close>

record script =
  scEvents :: "(store_call \<times> store_reply) list"
  scOk :: bool

definition ask :: "store_call \<Rightarrow> (store_reply \<Rightarrow> 'a option) \<Rightarrow> script \<Rightarrow> (go_error + 'a) \<times> script" where
  "ask c f s =
     (case scEvents s of
        [] \<Rightarrow> (Inl (EOther ''off the record''), s\<lparr>scOk := False\<rparr>)
      | (c', r) # rest \<Rightarrow>
          if scOk s \<and> c' = c then
            (case r of
               RError e \<Rightarrow> (Inl e, s\<lparr>scEvents := rest\<rparr>)
             | _ \<Rightarrow> (case f r of
                       Some x \<Rightarrow> (Inr x, s\<lparr>scEvents := rest\<rparr>)
                     | None \<Rightarrow> (Inl (EOther ''off the record''), s\<lparr>scOk := False\<rparr>)))
          else (Inl (EOther ''off the record''), s\<lparr>scOk := False\<rparr>))"

fun unit_reply :: "store_reply \<Rightarrow> unit option" where
  "unit_reply RUnit = Some ()"
| "unit_reply _ = None"

fun challenge_reply :: "store_reply \<Rightarrow> challenge_record option option" where
  "challenge_reply (RChallenge r) = Some r"
| "challenge_reply _ = None"

fun bool_reply :: "store_reply \<Rightarrow> bool option" where
  "bool_reply (RBool b) = Some b"
| "bool_reply _ = None"

fun token_reply :: "store_reply \<Rightarrow> token_record option option" where
  "token_reply (RToken r) = Some r"
| "token_reply _ = None"

definition scripted :: "script store_ops" where
  "scripted =
     \<lparr>PutChallenge = (\<lambda>t r. ask (CPutChallenge t r) unit_reply),
      TakeChallenge = (\<lambda>t now. ask (CTake t now) challenge_reply),
      ClaimNonce = (\<lambda>k e now. ask (CClaim k e now) bool_reply),
      PutToken = (\<lambda>k r. ask (CPutToken k r) unit_reply),
      ConsumeToken = (\<lambda>k scope now keep. ask (CConsume k scope now keep) token_reply),
      StoreCleanup = (\<lambda>now. ask (CCleanup now) unit_reply),
      StoreReset = ask CReset unit_reply\<rparr>"

text \<open>
  A client: its configuration, its calls, and its entropy, clock and caches. Another process is a client with all its
  calls. A request that one process serves beside others is a client with one call, whose world holds
  the caches of the process as that call finds them.
\<close>

record client =
  clOptions :: "script options"
  clCalls :: "api_call list"
  clWorld :: "script world"

type_synonym trace = "(nat \<times> store_call \<times> store_reply) list"

definition share :: "nat \<Rightarrow> trace \<Rightarrow> (store_call \<times> store_reply) list" where
  "share i tr = map snd (filter (\<lambda>e. fst e = i) tr)"

definition client_run ::
  "(int \<Rightarrow> bool) \<Rightarrow> generator \<Rightarrow> client \<Rightarrow> (store_call \<times> store_reply) list \<Rightarrow> (api_call \<times> api_reply) list \<times> script world" where
  "client_run pp g cl evs = api_run pp g (clOptions cl) (clCalls cl) ((clWorld cl)\<lparr>wStore := \<lparr>scEvents = evs, scOk = True\<rparr>\<rparr>)"

text \<open>How often something happened over all clients.\<close>

definition total ::
  "(api_call \<times> api_reply \<Rightarrow> bool) \<Rightarrow> (int \<Rightarrow> bool) \<Rightarrow> generator \<Rightarrow> client list \<Rightarrow> trace \<Rightarrow> nat" where
  "total P pp g cls tr = (\<Sum>i<length cls. count_if P (fst (client_run pp g (cls ! i) (share i tr))))"

text \<open>
  The runs of a shared store, over its views of challenges and tokens. Beside the operations, entries may get lost at
  any time (they expire, or somebody deletes them), and a \<open>Reset\<close> may remove entries bit by bit.
\<close>

inductive shared_run ::
  "'st store_ops \<Rightarrow> ('st \<Rightarrow> string \<Rightarrow> challenge_record option) \<Rightarrow> ('st \<Rightarrow> string \<Rightarrow> token_record option)
     \<Rightarrow> 'st \<Rightarrow> (store_call \<times> store_reply) list \<Rightarrow> 'st \<Rightarrow> bool"
  for S chal tok where
  run_ends: "shared_run S chal tok s [] s"
| run_call: "shared_run S chal tok (snd (call S c s)) evs s' \<Longrightarrow> shared_run S chal tok s ((c, fst (call S c s)) # evs) s'"
| run_loss: "chal s1 \<subseteq>\<^sub>m chal s \<Longrightarrow> tok s1 \<subseteq>\<^sub>m tok s \<Longrightarrow> shared_run S chal tok s1 evs s' \<Longrightarrow> shared_run S chal tok s evs s'"
| run_reset: "chal s1 \<subseteq>\<^sub>m chal s \<Longrightarrow> tok s1 \<subseteq>\<^sub>m tok s \<Longrightarrow> shared_run S chal tok s1 evs s' \<Longrightarrow> shared_run S chal tok s ((CReset, r) # evs) s'"

lemma run_calls_shared: "shared_run S chal tok s (fst (run_calls S cs s)) (snd (run_calls S cs s))"
  by (induction cs arbitrary: s) (auto simp: Let_def intro: shared_run.intros)

section \<open>Lemmas: the record shrinks\<close>

lemma count_if_append [simp]: "count_if P (xs @ ys) = count_if P xs + count_if P ys"
  by (simp add: count_if_def)

lemma shares_bounded: "(\<Sum>i<n. count_if P (share i tr)) \<le> count_if P (map snd tr)"
proof (induction tr)
  case (Cons e tr)
  have "count_if P (share i (e # tr)) = (if i = fst e \<and> P (snd e) then 1 else 0) + count_if P (share i tr)" for i
    by (auto simp: share_def)
  then have "(\<Sum>i<n. count_if P (share i (e # tr))) = (\<Sum>i<n. if i = fst e \<and> P (snd e) then 1 else 0) + (\<Sum>i<n. count_if P (share i tr))"
    by (simp add: sum.distrib)
  moreover have "(\<Sum>i<n. if i = fst e \<and> P (snd e) then 1 else 0) \<le> (if P (snd e) then 1 else (0 :: nat))"
    by (cases "P (snd e)") (simp_all add: sum.delta)
  ultimately show ?case using Cons.IH by simp
qed (simp add: share_def)

text \<open>A store operation of a client takes at most one event off its record; a success is the event it takes.\<close>

lemma ask_shrinks: "count_if P (scEvents (snd (ask c f s))) \<le> count_if P (scEvents s)"
  by (auto simp: ask_def split: list.splits store_reply.splits option.splits)

lemma ask_Inr:
  assumes "fst (ask c f s) = Inr x"
  obtains r where "f r = Some x" "scEvents s = (c, r) # scEvents (snd (ask c f s))"
  using assms by (auto simp: ask_def split: list.splits store_reply.splits option.splits if_splits)

interpretation played: store_relation "\<lambda>s s'. count_if P (scEvents s') \<le> count_if P (scEvents s)" UNIV for P
  by unfold_locales auto

lemma own_scripted [simp]:
  assumes "own_tokens scripted c"
  shows "capStore c = scripted" "oSignToken c = None" "oVerifyToken c = None"
  using assms by (simp_all add: own_tokens_def capStore_def)

lemma record_ops [simp]:
  "count_if P (scEvents (snd (PutChallenge scripted t r s))) \<le> count_if P (scEvents s)"
  "count_if P (scEvents (snd (TakeChallenge scripted t now s))) \<le> count_if P (scEvents s)"
  "count_if P (scEvents (snd (ClaimNonce scripted k e now s))) \<le> count_if P (scEvents s)"
  "count_if P (scEvents (snd (PutToken scripted k tr s))) \<le> count_if P (scEvents s)"
  "count_if P (scEvents (snd (ConsumeToken scripted k scope now keep s))) \<le> count_if P (scEvents s)"
  "count_if P (scEvents (snd (StoreCleanup scripted now s))) \<le> count_if P (scEvents s)"
  "count_if P (scEvents (snd (StoreReset scripted s))) \<le> count_if P (scEvents s)"
  by (simp_all add: scripted_def ask_shrinks)

lemma record_methods:
  assumes "own_tokens scripted c"
  shows "within UNIV (\<lambda>s s'. count_if P (scEvents s') \<le> count_if P (scEvents s)) (lazyCleanup c)"
    and "within UNIV (\<lambda>s s'. count_if P (scEvents s') \<le> count_if P (scEvents s)) (issueToken c scope nowMs iat)"
    and "within UNIV (\<lambda>s s'. count_if P (scEvents s') \<le> count_if P (scEvents s)) (Challenge pp g c co)"
    and "within UNIV (\<lambda>s s'. count_if P (scEvents s') \<le> count_if P (scEvents s)) (Redeem c req ro)"
    and "within UNIV (\<lambda>s s'. count_if P (scEvents s') \<le> count_if P (scEvents s)) (Validate c token vo)"
    and "within UNIV (\<lambda>s s'. count_if P (scEvents s') \<le> count_if P (scEvents s)) (Cleanup c)"
    and "within UNIV (\<lambda>s s'. count_if P (scEvents s') \<le> count_if P (scEvents s)) (Reset c)"
  using assms
  by (auto intro!: played.within_lazyCleanup played.within_issue played.within_Challenge played.within_Redeem
      played.within_Validate played.within_Cleanup played.within_Reset)

lemma record_api:
  assumes "own_tokens scripted c"
  shows "count_if P (scEvents (wStore (snd (api pp g c a w)))) \<le> count_if P (scEvents (wStore w))"
  using record_methods [OF assms] by (cases a) (auto simp: within_def)

text \<open>A successful operation of the kind that is counted shortens the record.\<close>

lemma ask_counts:
  assumes "\<And>r x. f r = Some x \<Longrightarrow> Q x \<Longrightarrow> P (c, r)"
  shows "valid (\<lambda>s. count_if P (scEvents s) \<le> n) (mapError h (withStore (ask c f)))
    (\<lambda>x s. count_if P (scEvents s) \<le> n \<and> (Q x \<longrightarrow> count_if P (scEvents s) < n)) (\<lambda>e s. True)"
proof (intro valid_mapError valid_store conjI impI)
  fix s x
  assume s: "count_if P (scEvents s) \<le> n" "fst (ask c f s) = Inr x"
  then show "count_if P (scEvents (snd (ask c f s))) \<le> n" using ask_shrinks [of P c f s] by simp
  assume "Q x"
  then show "count_if P (scEvents (snd (ask c f s))) < n" using ask_Inr [OF s(2)] assms s(1) by fastforce
qed simp

lemma valid_record:
  assumes "within UNIV (\<lambda>s s'. count_if P (scEvents s') \<le> count_if P (scEvents s)) m"
  shows "valid (\<lambda>s. count_if P (scEvents s) \<le> n) m (\<lambda>x s. count_if P (scEvents s) \<le> n) (\<lambda>e s. True)"
    and "valid (\<lambda>s. count_if P (scEvents s) < n) m (\<lambda>x s. count_if P (scEvents s) < n) (\<lambda>e s. True)"
  by (rule valid_within [OF assms]; simp)+

section \<open>One client\<close>

lemma redeemStored_record:
  assumes "own_tokens scripted c" "rqToken req = t"
  shows "valid (\<lambda>s. count_if (took t) (scEvents s) \<le> n) (redeemStored c req ro)
    (\<lambda>k s. count_if (took t) (scEvents s) < n) (\<lambda>e s. True)"
proof -
  have take: "valid (\<lambda>s. count_if (took t) (scEvents s) \<le> n) (mapError h (withStore (TakeChallenge (capStore c) t now)))
      (\<lambda>found s. count_if (took t) (scEvents s) \<le> n \<and> (found \<noteq> None \<longrightarrow> count_if (took t) (scEvents s) < n)) (\<lambda>e s. True)" for h now
    unfolding own_scripted(1) [OF assms(1)] scripted_def store_ops.simps
    by (rule ask_counts) (auto elim!: challenge_reply.elims)
  note issue = valid_record(2) [OF record_methods(2) [OF assms(1)]]
  have rest: "valid (\<lambda>s. count_if (took t) (scEvents s) \<le> n \<and> (found \<noteq> None \<longrightarrow> count_if (took t) (scEvents s) < n))
      (case found of None \<Rightarrow> throw e | Some r \<Rightarrow> m r) (\<lambda>k s. count_if (took t) (scEvents s) < n) (\<lambda>e s. True)"
    if "\<And>r. valid (\<lambda>s. count_if (took t) (scEvents s) < n) (m r) (\<lambda>k s. count_if (took t) (scEvents s) < n) (\<lambda>e s. True)"
    for found :: "challenge_record option" and e and m :: "challenge_record \<Rightarrow> (script, issued_token) act"
    using that by (cases found) (auto simp: valid_throw intro: valid_pre)
  show ?thesis unfolding redeemStored_def Let_def assms(2)
    by (auto intro!: valid_if valid_throw valid_quiet_andThen [where m = readNow] valid_andThen [OF take rest]
          valid_quiet_andThen [where m = "check q" for q] issue acts simp del: not_None_eq split: option.split)
qed

lemma Redeem_record:
  assumes "own_tokens scripted c" "rqToken req = t" "\<not> contains_char t (CHR ''.'')"
  shows "valid (\<lambda>s. count_if (took t) (scEvents s) \<le> n) (Redeem c req ro) (\<lambda>k s. count_if (took t) (scEvents s) < n) (\<lambda>e s. True)"
  unfolding Redeem_def using assms redeemStored_record [OF assms(1,2)]
  by (auto intro!: valid_andThen [OF valid_record(1) [OF record_methods(1)]] valid_throw)

lemma Validate_record:
  assumes "own_tokens scripted c" "TokenKey token = Some key" "\<not> voKeep vo"
  shows "valid (\<lambda>s. count_if (spent key) (scEvents s) \<le> n) (Validate c token vo)
    (\<lambda>ok s. ok \<longrightarrow> count_if (spent key) (scEvents s) < n) (\<lambda>e s. True)"
proof -
  have consume: "valid (\<lambda>s. count_if (spent key) (scEvents s) \<le> n) (mapError h (withStore (ConsumeToken scripted key scope now False)))
      (\<lambda>found s. count_if (spent key) (scEvents s) \<le> n \<and> (found \<noteq> None \<longrightarrow> count_if (spent key) (scEvents s) < n)) (\<lambda>e s. True)" for h scope now
    unfolding scripted_def store_ops.simps by (rule ask_counts) (auto elim!: token_reply.elims)
  show ?thesis unfolding Validate_def using assms
    by (auto intro!: valid_andThen [OF valid_record(1) [OF record_methods(1)]] valid_ret valid_quiet_andThen [where m = readNow]
        valid_andThen [OF consume] acts simp del: not_None_eq)
qed

text \<open>A signed redemption that does not skip the guard claims its replay key.\<close>

lemma redeemSigned_record:
  assumes "own_tokens scripted c" "redeemSigned c req ro w = (Inr k, w')" "token_claims_of (oSecret c) (rqToken req) = Some (claims, key)" "\<not> roSkipNonce ro"
  shows "count_if (claimed key) (scEvents (wStore w')) < count_if (claimed key) (scEvents (wStore w))"
proof -
  define now where "now = unixMilli (wClock w (wReads w))"
  from redeemSigned_InrE [OF assms(2)] obtain claims' u w1 where c: "token_claims_of (oSecret c) (rqToken req) = Some (claims', u)"
    "if roSkipNonce ro then w1 = w\<lparr>wReads := Suc (wReads w)\<rparr>
     else fst (ClaimNonce (capStore c) u (tExp claims') now (wStore w)) = Inr True
       \<and> w1 = w\<lparr>wReads := Suc (wReads w), wStore := snd (ClaimNonce (capStore c) u (tExp claims') now (wStore w))\<rparr>"
    "issueToken c (tSk claims') now (tIat claims') w1 = (Inr k, w')"
    unfolding now_def by metis
  define e where "e = tExp claims'"
  have r: "fst (ClaimNonce scripted key e now (wStore w)) = Inr True" "wStore w1 = snd (ClaimNonce scripted key e now (wStore w))"
    "issueToken c (tSk claims) now (tIat claims) w1 = (Inr k, w')"
    using c assms(1,3,4) by (simp_all add: e_def)
  have "fst (ask (CClaim key e now) bool_reply (wStore w)) = Inr True" using r(1) by (simp add: scripted_def)
  then obtain rep where "bool_reply rep = Some True" "scEvents (wStore w) = (CClaim key e now, rep) # scEvents (snd (ask (CClaim key e now) bool_reply (wStore w)))"
    by (rule ask_Inr)
  then have "count_if (claimed key) (scEvents (wStore w1)) < count_if (claimed key) (scEvents (wStore w))"
    using r(2) by (auto simp: scripted_def elim!: bool_reply.elims)
  moreover have "count_if (claimed key) (scEvents (wStore w')) \<le> count_if (claimed key) (scEvents (wStore w1))"
    using record_methods(2) [OF assms(1), of "claimed key" "tSk claims" now "tIat claims"] r(3) by (simp add: within_def) (metis snd_conv)
  ultimately show ?thesis by simp
qed

text \<open>Redemptions of tokens with a replay key that ask the guard.\<close>

fun asks_guard :: "byte list \<Rightarrow> string \<Rightarrow> api_call \<Rightarrow> bool" where
  "asks_guard secret key (ARedeem req ro) \<longleftrightarrow> map_option snd (token_claims_of secret (rqToken req)) = Some key \<longrightarrow> \<not> roSkipNonce ro"
| "asks_guard secret key _ \<longleftrightarrow> True"

lemma signed_step:
  assumes "own_tokens scripted c" "signed_redeemed (oSecret c) key (a, fst (api pp g c a w))" "asks_guard (oSecret c) key a"
  shows "count_if (claimed key) (scEvents (wStore (snd (api pp g c a w)))) < count_if (claimed key) (scEvents (wStore w))"
proof -
  obtain req ro k w' where a: "a = ARedeem req ro" and r: "Redeem c req ro w = (Inr k, w')"
    and t: "contains_char (rqToken req) (CHR ''.'')" "map_option snd (token_claims_of (oSecret c) (rqToken req)) = Some key"
    using assms(2) by (cases "(oSecret c, key, a, fst (api pp g c a w))" rule: signed_redeemed.cases)
      (auto simp: fst_answer prod_eq_iff split: sum.splits)
  obtain w1 where w1: "redeemSigned c req ro w1 = (Inr k, w')"
    "wStore w1 = wStore w \<or> wStore w1 = snd (StoreCleanup (capStore c) (unixMilli (wClock w (wReads w))) (wStore w))"
    using Redeem_signed_InrE [OF r t(1)] by metis
  have le: "count_if (claimed key) (scEvents (wStore w1)) \<le> count_if (claimed key) (scEvents (wStore w))" using w1(2) assms(1) by auto
  obtain claims where "token_claims_of (oSecret c) (rqToken req) = Some (claims, key)" using t(2) by (metis (no_types, lifting) map_option_eq_Some prod.collapse)
  from redeemSigned_record [OF assms(1) w1(1) this] assms(3) a t(2) le r show ?thesis by (simp add: answer_def)
qed

text \<open>A history uses at most what its record holds.\<close>

lemma history_bounded:
  assumes "\<And>a w. P (a, fst (api pp g c a w)) \<Longrightarrow> a \<in> set as \<Longrightarrow>
      count_if Q (scEvents (wStore (snd (api pp g c a w)))) < count_if Q (scEvents (wStore w))"
    and "own_tokens scripted c"
  shows "count_if P (fst (api_run pp g c as w)) + count_if Q (scEvents (wStore (snd (api_run pp g c as w)))) \<le> count_if Q (scEvents (wStore w))"
  using assms(1)
proof (induction as arbitrary: w)
  case (Cons a as)
  let ?w = "snd (api pp g c a w)"
  have "count_if P (fst (api_run pp g c as ?w)) + count_if Q (scEvents (wStore (snd (api_run pp g c as ?w)))) \<le> count_if Q (scEvents (wStore ?w))"
    using Cons.prems by (intro Cons.IH) auto
  then show ?case using Cons.prems [of a w] record_api [OF assms(2), of Q pp g a w] by (fastforce simp: Let_def)
qed simp

lemma redeemed_step_record:
  assumes "own_tokens scripted c" "redeemed t (a, fst (api pp g c a w))"
  shows "count_if (took t) (scEvents (wStore (snd (api pp g c a w)))) < count_if (took t) (scEvents (wStore w))"
proof -
  obtain req ro k where a: "a = ARedeem req ro" and r: "fst (Redeem c req ro w) = Inr k" and t: "rqToken req = t" "\<not> contains_char t (CHR ''.'')"
    using assms(2) by (cases "(t, a, fst (api pp g c a w))" rule: redeemed.cases) (auto simp: fst_answer split: sum.splits)
  show ?thesis using validD(1) [OF Redeem_record [OF assms(1) t] _ r] a by auto
qed

lemma validated_step_record:
  assumes "own_tokens scripted c" "validated key (a, fst (api pp g c a w))"
  shows "count_if (spent key) (scEvents (wStore (snd (api pp g c a w)))) < count_if (spent key) (scEvents (wStore w))"
proof -
  obtain token vo where a: "a = AValidate token vo" and r: "fst (Validate c token vo w) = Inr True"
      and t: "TokenKey token = Some key" "\<not> voKeep vo"
    using assms(2) by (cases "(key, a, fst (api pp g c a w))" rule: validated.cases) (auto simp: fst_answer split: sum.splits)
  show ?thesis using validD(1) [OF Validate_record [OF assms(1) t] _ r] a by auto
qed

lemma client_bounded:
  assumes "own_tokens scripted (clOptions cl)"
  shows "count_if (redeemed t) (fst (client_run pp g cl evs)) \<le> count_if (took t) evs"
    and "count_if (validated key) (fst (client_run pp g cl evs)) \<le> count_if (spent key) evs"
    and "list_all (asks_guard (oSecret (clOptions cl)) key) (clCalls cl) \<Longrightarrow>
      count_if (signed_redeemed (oSecret (clOptions cl)) key) (fst (client_run pp g cl evs)) \<le> count_if (claimed key) evs"
  using history_bounded [OF redeemed_step_record [OF assms] assms] history_bounded [OF validated_step_record [OF assms] assms]
    history_bounded [OF signed_step [OF assms] assms]
  unfolding client_run_def list_all_iff
  by (metis (no_types, lifting) add_leE script.select_convs(1) world.select_convs(1) world.surjective world.update_convs(1))+

section \<open>All clients together\<close>

lemma total_bounded:
  assumes "\<And>cl evs. cl \<in> set cls \<Longrightarrow> count_if P (fst (client_run pp g cl evs)) \<le> count_if Q evs"
  shows "total P pp g cls tr \<le> count_if Q (map snd tr)"
proof -
  have "total P pp g cls tr \<le> (\<Sum>i<length cls. count_if Q (share i tr))"
    unfolding total_def using assms by (intro sum_mono) simp
  also have "\<dots> \<le> count_if Q (map snd tr)" by (rule shares_bounded)
  finally show ?thesis .
qed

context entry_store
begin

lemma shared_takes:
  "shared_run S chal tok s evs s' \<Longrightarrow> count_if (took t) evs + (if chal s' t = None then 0 else 1)
     \<le> count_if (put_chal t) evs + (if chal s t = None then 0 else 1)"
proof (induction rule: shared_run.induct)
  case (run_call c s evs s')
  have "(if took t (c, fst (call S c s)) then 1 else 0) + (if chal (snd (call S c s)) t = None then 0 else 1)
      \<le> (if put_chal t (c, fst (call S c s)) then 1 else 0) + (if chal s t = None then 0 else (1::nat))"
    using took_call [of t c s] chal_call [of s t c] by auto
  then show ?case using run_call.IH by simp
next
  case (run_loss s1 s evs s')
  then show ?case using submap_None [of "chal s1" "chal s" t] by (auto split: if_splits)
next
  case (run_reset s1 s evs s' r)
  then show ?case using submap_None [of "chal s1" "chal s" t] by (auto split: if_splits)
qed simp

lemma shared_spends:
  "shared_run S chal tok s evs s' \<Longrightarrow> count_if (spent k) evs + (if tok s' k = None then 0 else 1)
     \<le> count_if (put_tok k) evs + (if tok s k = None then 0 else 1)"
proof (induction rule: shared_run.induct)
  case (run_call c s evs s')
  have "(if spent k (c, fst (call S c s)) then 1 else 0) + (if tok (snd (call S c s)) k = None then 0 else 1)
      \<le> (if put_tok k (c, fst (call S c s)) then 1 else 0) + (if tok s k = None then 0 else (1::nat))"
    using spent_call [of k c s] tok_call [of s k c] by auto
  then show ?case using run_call.IH by simp
next
  case (run_loss s1 s evs s')
  then show ?case using submap_None [of "tok s1" "tok s" k] by (auto split: if_splits)
next
  case (run_reset s1 s evs s' r)
  then show ?case using submap_None [of "tok s1" "tok s" k] by (auto split: if_splits)
qed simp

lemma clients_bounded:
  assumes "shared_run S chal tok s (map snd tr) s'" "\<forall>cl \<in> set cls. own_tokens scripted (clOptions cl)"
  shows "total (redeemed t) pp g cls tr \<le> count_if (put_chal t) (map snd tr) + (if chal s t = None then 0 else 1)"
    and "total (validated k) pp g cls tr \<le> count_if (put_tok k) (map snd tr) + (if tok s k = None then 0 else 1)"
  using total_bounded [of cls "redeemed t" pp g "took t" tr] total_bounded [of cls "validated k" pp g "spent k" tr]
    client_bounded(1,2) assms(2) shared_takes [OF assms(1), of t] shared_spends [OF assms(1), of k] by fastforce+

end

section \<open>A history is a replay of its own trace\<close>

definition on_record :: "'st options \<Rightarrow> script options" where
  "on_record c =
     \<lparr>oSecret = oSecret c, oStore = Some scripted, oFormat = oFormat c, oStateless = oStateless c, oProtocols = oProtocols c,
      oChallengeCount = oChallengeCount c, oChallengeSize = oChallengeSize c, oChallengeDifficulty = oChallengeDifficulty c,
      oChallengeTTL = oChallengeTTL c, oTokenTTL = oTokenTTL c, oRSWKeypair = oRSWKeypair c, oRSWIterations = oRSWIterations c,
      oInstrumentation = oInstrumentation c, oInstrumentationGenerator = oInstrumentationGenerator c,
      oSignToken = None, oVerifyToken = None\<rparr>"

definition playing :: "'st world \<Rightarrow> (store_call \<times> store_reply) list \<Rightarrow> script world" where
  "playing w evs =
     \<lparr>wStore = \<lparr>scEvents = evs, scOk = True\<rparr>, wRandom = wRandom w, wClock = wClock w, wReads = wReads w,
      wMinters = wMinters w, wLastCleanup = wLastCleanup w, wContext = wContext w\<rparr>"

text \<open>What \<open>m\<close> does on \<open>S\<close> is a list of calls, and \<open>m'\<close> does the same on their record.\<close>

definition replays :: "'st store_ops \<Rightarrow> ('st, 'a) act \<Rightarrow> (script, 'a) act \<Rightarrow> bool" where
  "replays S m m' \<longleftrightarrow>
     (\<forall>w. \<exists>cs. wStore (snd (m w)) = snd (run_calls S cs (wStore w)) \<and>
        (\<forall>rest. m' (playing w (fst (run_calls S cs (wStore w)) @ rest)) = (fst (m w), playing (snd (m w)) rest)))"

named_theorems replaying

lemma run_calls_append: "fst (run_calls S (cs @ ds) s) = fst (run_calls S cs s) @ fst (run_calls S ds (snd (run_calls S cs s)))"
    "snd (run_calls S (cs @ ds) s) = snd (run_calls S ds (snd (run_calls S cs s)))"
  by (induction cs arbitrary: s) (simp_all add: Let_def)

lemma replays_none:
  assumes "\<And>w. wStore (snd (m w)) = wStore w" "\<And>w evs. m' (playing w evs) = (fst (m w), playing (snd (m w)) evs)"
  shows "replays S m m'"
  unfolding replays_def using assms by (auto intro!: exI [of _ "[]"])

lemma replays_pure [replaying]:
  "replays S (ret x) (ret x)" "replays S (throw e) (throw e)" "replays S (pure r) (pure r)" "replays S (check q) (check q)"
  "replays S readNow readNow" "replays S ctxErr ctxErr" "replays S (withRandom f) (withRandom f)"
  by (rule replays_none; auto simp: ret_def throw_def pure_def check_def readNow_def ctxErr_def withRandom_def playing_def Let_def split: list.splits)+

lemma replays_andThen [replaying]:
  assumes "replays S m m'" "\<And>x. replays S (f x) (f' x)"
  shows "replays S (andThen m f) (andThen m' f')"
  unfolding replays_def
proof (intro allI)
  fix w
  obtain cs where cs: "wStore (snd (m w)) = snd (run_calls S cs (wStore w))"
    "\<forall>rest. m' (playing w (fst (run_calls S cs (wStore w)) @ rest)) = (fst (m w), playing (snd (m w)) rest)"
    using assms(1) unfolding replays_def by blast
  show "\<exists>cs. wStore (snd (andThen m f w)) = snd (run_calls S cs (wStore w)) \<and>
        (\<forall>rest. andThen m' f' (playing w (fst (run_calls S cs (wStore w)) @ rest)) = (fst (andThen m f w), playing (snd (andThen m f w)) rest))"
  proof (cases "fst (m w)")
    case (Inl e)
    then show ?thesis using cs by (intro exI [of _ cs]) (cases "m w"; simp add: andThen_def)
  next
    case (Inr x)
    obtain ds where ds: "wStore (snd (f x (snd (m w)))) = snd (run_calls S ds (wStore (snd (m w))))"
      "\<forall>rest. f' x (playing (snd (m w)) (fst (run_calls S ds (wStore (snd (m w)))) @ rest)) = (fst (f x (snd (m w))), playing (snd (f x (snd (m w)))) rest)"
      using assms(2) [of x] unfolding replays_def by blast
    then show ?thesis using cs Inr by (intro exI [of _ "cs @ ds"]) (cases "m w"; simp add: andThen_def run_calls_append)
  qed
qed

lemma replays_mapError [replaying]: "replays S m m' \<Longrightarrow> replays S (mapError h m) (mapError h m')"
  unfolding replays_def mapError_def by (erule all_forward, erule ex_forward) (auto split: prod.splits sum.splits)

lemma replays_if [replaying]: "(b \<Longrightarrow> replays S m m') \<Longrightarrow> (\<not> b \<Longrightarrow> replays S n n') \<Longrightarrow> replays S (if b then m else n) (if b then m' else n')"
  by simp

lemma replays_option [replaying]:
  "replays S m m' \<Longrightarrow> (\<And>x. replays S (f x) (f' x)) \<Longrightarrow> replays S (case q of None \<Rightarrow> m | Some x \<Rightarrow> f x) (case q of None \<Rightarrow> m' | Some x \<Rightarrow> f' x)"
  by (cases q) simp_all

lemma replays_prod [replaying]: "(\<And>a b. replays S (f a b) (f' a b)) \<Longrightarrow> replays S (case q of (a, b) \<Rightarrow> f a b) (case q of (a, b) \<Rightarrow> f' a b)"
  by (cases q) simp

lemma replays_call:
  assumes "\<And>s. call S c s = reply j (f s)" "\<And>x. k (j x) = Some x" "\<And>x. \<forall>e. j x \<noteq> RError e"
  shows "replays S (withStore f) (withStore (ask c k))"
proof -
  have "ask c k \<lparr>scEvents = (c, fst (reply j (f s))) # rest, scOk = True\<rparr> = (fst (f s), \<lparr>scEvents = rest, scOk = True\<rparr>)" for s rest
  proof (cases "fst (f s)")
    case (Inl e)
    then show ?thesis by (simp add: ask_def fst_reply)
  next
    case (Inr x)
    then show ?thesis using assms(2) [of x] assms(3) [of x] by (cases "j x") (simp_all add: ask_def fst_reply)
  qed
  then show ?thesis unfolding replays_def withStore_def playing_def
    by (intro allI exI [of _ "[c]"]) (simp add: assms(1) Let_def del: call.simps)
qed

lemma replays_store [replaying]:
  "replays S (withStore (PutChallenge S t r)) (withStore (PutChallenge scripted t r))"
  "replays S (withStore (TakeChallenge S t now)) (withStore (TakeChallenge scripted t now))"
  "replays S (withStore (ClaimNonce S k e now)) (withStore (ClaimNonce scripted k e now))"
  "replays S (withStore (PutToken S k tr)) (withStore (PutToken scripted k tr))"
  "replays S (withStore (ConsumeToken S k scope now keep)) (withStore (ConsumeToken scripted k scope now keep))"
  "replays S (withStore (StoreCleanup S now)) (withStore (StoreCleanup scripted now))"
  "replays S (withStore (StoreReset S)) (withStore (StoreReset scripted))"
  unfolding scripted_def store_ops.simps
        apply (rule replays_call [where j = "\<lambda>_. RUnit"]; simp)
       apply (rule replays_call [where j = RChallenge]; simp)
      apply (rule replays_call [where j = RBool]; simp)
     apply (rule replays_call [where j = "\<lambda>_. RUnit"]; simp)
    apply (rule replays_call [where j = RToken]; simp)
   apply (rule replays_call [where j = "\<lambda>_. RUnit"]; simp)
  apply (rule replays_call [where j = "\<lambda>_. RUnit"]; simp)
  done

text \<open>The configuration of the replay, and the parts that need steps of their own.\<close>

lemma replay_fields [simp]:
  "capStore (on_record c) = scripted" "oSecret (on_record c) = oSecret c" "oFormat (on_record c) = oFormat c"
  "oStateless (on_record c) = oStateless c" "oTokenTTL (on_record c) = oTokenTTL c" "oSignToken (on_record c) = None"
  "oVerifyToken (on_record c) = None" "oRSWKeypair (on_record c) = oRSWKeypair c" "oRSWIterations (on_record c) = oRSWIterations c"
  "oInstrumentationGenerator (on_record c) = oInstrumentationGenerator c" "own_tokens scripted (on_record c)"
  by (simp_all add: on_record_def capStore_def own_tokens_def)

lemma replay_parameters [simp]:
  "powParams (on_record c) co = powParams c co" "challengeTTL (on_record c) co = challengeTTL c co"
  "instrumentationOptions (on_record c) co = instrumentationOptions c co"
  "effectiveProtocols (on_record c) co = effectiveProtocols c co"
  "verifyV2 (on_record c) claims req nowMs = verifyV2 c claims req nowMs"
  "verifySignedV1 (on_record c) claims req nowMs = verifySignedV1 c claims req nowMs"
  by (simp_all add: effectiveProtocols_def instrumentationOptions_def powParams_def challengeTTL_def verifyV2_def verifySignedV1_def
      on_record_def cong: option.case_cong)

lemma replays_own:
  assumes "own_tokens S c"
  shows "capStore c = S" "oSignToken c = None" "oVerifyToken c = None"
  using assms by (simp_all add: own_tokens_def capStore_def)

lemma replays_let [replaying]: "(\<And>x. replays S (f x) (f' x)) \<Longrightarrow> replays S (let x = v in f x) (let x = v in f' x)"
  by simp

lemma replays_minter [replaying]: "replays S (cap_minter pp c) (cap_minter pp (on_record c))"
  by (rule replays_none) (auto simp: cap_minter_def playing_def split: option.splits sum.splits prod.splits)

text \<open>The clean-up forgets the store's error and puts down its time before it asks.\<close>

lemma replays_forget:
  fixes S :: "'st store_ops"
  assumes "replays S m m'"
  shows "replays S (\<lambda>w. if p (wLastCleanup w) then (Inr (), snd (m (w\<lparr>wLastCleanup := now\<rparr>))) else (Inr (), w))
      (\<lambda>w. if p (wLastCleanup w) then (Inr (), snd (m' (w\<lparr>wLastCleanup := now\<rparr>))) else (Inr (), w))"
  unfolding replays_def
proof
  fix w :: "'st world"
  have set_time: "(playing w evs)\<lparr>wLastCleanup := now\<rparr> = playing (w\<lparr>wLastCleanup := now\<rparr>) evs" "wLastCleanup (playing w evs) = wLastCleanup w" for evs
    by (simp_all add: playing_def)
  obtain cs where "wStore (snd (m (w\<lparr>wLastCleanup := now\<rparr>))) = snd (run_calls S cs (wStore w))"
    "\<forall>rest. m' (playing (w\<lparr>wLastCleanup := now\<rparr>) (fst (run_calls S cs (wStore w)) @ rest))
        = (fst (m (w\<lparr>wLastCleanup := now\<rparr>)), playing (snd (m (w\<lparr>wLastCleanup := now\<rparr>))) rest)"
    using assms unfolding replays_def by (metis (no_types, lifting) world.select_convs(1) world.surjective world.update_convs(6))
  then show "\<exists>cs. wStore (snd (if p (wLastCleanup w) then (Inr (), snd (m (w\<lparr>wLastCleanup := now\<rparr>))) else (Inr (), w))) = snd (run_calls S cs (wStore w)) \<and>
      (\<forall>rest. (if p (wLastCleanup (playing w (fst (run_calls S cs (wStore w)) @ rest))) then (Inr (), snd (m' ((playing w (fst (run_calls S cs (wStore w)) @ rest))\<lparr>wLastCleanup := now\<rparr>)))
          else (Inr (), playing w (fst (run_calls S cs (wStore w)) @ rest)))
        = (fst (if p (wLastCleanup w) then (Inr (), snd (m (w\<lparr>wLastCleanup := now\<rparr>))) else (Inr (), w)),
           playing (snd (if p (wLastCleanup w) then (Inr (), snd (m (w\<lparr>wLastCleanup := now\<rparr>))) else (Inr (), w))) rest))"
    unfolding set_time by (intro exI [of _ "if p (wLastCleanup w) then cs else []"]) simp
qed

lemma replays_lazyCleanup [replaying]:
  assumes "own_tokens S c"
  shows "replays S (lazyCleanup c) (lazyCleanup (on_record c))"
  unfolding lazyCleanup_def replays_own [OF assms] replay_fields
  by (intro replaying replays_forget [where p = "\<lambda>t. t = zero_time \<or> _ \<le> _ - t"])

lemma replays_challenge [replaying]:
  assumes "own_tokens S c"
  shows "replays S (challengeStored g c co) (challengeStored g (on_record c) co)"
    and "replays S (challengeSigned g c co) (challengeSigned g (on_record c) co)"
    and "replays S (challengeV2 pp g c co) (challengeV2 pp g (on_record c) co)"
proof -
  have instr: "replays S (runInstrumentationGenerator g c co io now) (runInstrumentationGenerator g (on_record c) co io now)" for io now
    unfolding runInstrumentationGenerator_def replay_fields by (intro replaying)
  have gen: "replays S (generateInstrumentation g c co ttl now) (generateInstrumentation g (on_record c) co ttl now)" for ttl now
    unfolding generateInstrumentation_def replay_parameters by (intro replaying instr)
  have pow: "replays S (pow_puzzles n sz target acc) (pow_puzzles n sz target acc)" for n sz target acc
    by (induction n arbitrary: acc) (simp_all add: replaying)
  have add: "replays S (add_puzzles pp g c co ttl now expires p acc) (add_puzzles pp g (on_record c) co ttl now expires p acc)" for ttl now expires p acc
    unfolding add_puzzles_def rsw_puzzle_def instr_puzzle_def replay_parameters by (intro replaying pow instr)
  have all: "replays S (all_puzzles pp g c co ttl now expires ps acc) (all_puzzles pp g (on_record c) co ttl now expires ps acc)" for ttl now expires ps acc
    by (induction ps arbitrary: acc) (simp_all add: replaying add)
  show "replays S (challengeStored g c co) (challengeStored g (on_record c) co)"
    unfolding challengeStored_def replay_parameters replay_fields replays_own [OF assms] by (intro replaying gen)
  show "replays S (challengeSigned g c co) (challengeSigned g (on_record c) co)"
    unfolding challengeSigned_def replay_parameters replay_fields by (intro replaying gen)
  show "replays S (challengeV2 pp g c co) (challengeV2 pp g (on_record c) co)"
    unfolding challengeV2_def replay_parameters replay_fields by (intro replaying all)
qed

lemma replays_redeem [replaying]:
  assumes "own_tokens S c"
  shows "replays S (redeemStored c req ro) (redeemStored (on_record c) req ro)"
    and "replays S (redeemSigned c req ro) (redeemSigned (on_record c) req ro)"
proof -
  have issue: "replays S (issueToken c scope nowMs iat) (issueToken (on_record c) scope nowMs iat)" for scope nowMs iat
    unfolding issueToken_def replay_fields replays_own [OF assms] option.case by (intro replaying)
  show "replays S (redeemStored c req ro) (redeemStored (on_record c) req ro)"
    unfolding redeemStored_def replay_fields replays_own [OF assms] by (intro replaying issue)
  show "replays S (redeemSigned c req ro) (redeemSigned (on_record c) req ro)"
    unfolding redeemSigned_def replay_fields replay_parameters replays_own [OF assms] by (intro replaying issue)
qed

lemma replays_methods:
  assumes "own_tokens S c"
  shows "replays S (Challenge pp g c co) (Challenge pp g (on_record c) co)"
    and "replays S (Redeem c req ro) (Redeem (on_record c) req ro)"
    and "replays S (Validate c token vo) (Validate (on_record c) token vo)"
    and "replays S (Cleanup c) (Cleanup (on_record c))"
    and "replays S (Reset c) (Reset (on_record c))"
proof -
  show "replays S (Challenge pp g c co) (Challenge pp g (on_record c) co)"
    unfolding Challenge_def replay_fields by (intro replaying assms)
  show "replays S (Redeem c req ro) (Redeem (on_record c) req ro)"
    unfolding Redeem_def by (intro replaying assms)
  show "replays S (Validate c token vo) (Validate (on_record c) token vo)"
    unfolding Validate_def replay_fields replays_own [OF assms] option.case by (intro replaying assms)
  show "replays S (Cleanup c) (Cleanup (on_record c))"
    unfolding Cleanup_def replay_fields replays_own [OF assms] by (intro replaying)
  have "replays S (\<lambda>w. (Inr (), w\<lparr>wMinters := Map.empty\<rparr>)) (\<lambda>w. (Inr (), w\<lparr>wMinters := Map.empty\<rparr>))"
    by (rule replays_none) (simp_all add: playing_def)
  from replays_andThen [OF this replays_store(7)]
  show "replays S (Reset c) (Reset (on_record c))"
    by (simp add: replays_def Reset_def andThen_def replays_own [OF assms])
qed

lemma replays_api:
  assumes "own_tokens S c"
  shows "\<exists>cs. wStore (snd (api pp g c a w)) = snd (run_calls S cs (wStore w)) \<and>
    (\<forall>rest. api pp g (on_record c) a (playing w (fst (run_calls S cs (wStore w)) @ rest)) = (fst (api pp g c a w), playing (snd (api pp g c a w)) rest))"
  using replays_methods [OF assms, unfolded replays_def]
  by (cases a) (simp_all add: answer_def, (meson fst_conv snd_conv | metis fst_conv snd_conv)+)

lemma replays_run:
  assumes "own_tokens S c"
  shows "\<exists>cs. wStore (snd (api_run pp g c as w)) = snd (run_calls S cs (wStore w)) \<and>
    (\<forall>rest. api_run pp g (on_record c) as (playing w (fst (run_calls S cs (wStore w)) @ rest)) = (fst (api_run pp g c as w), playing (snd (api_run pp g c as w)) rest))"
proof (induction as arbitrary: w)
  case Nil
  show ?case by (intro exI [of _ "[]"]) simp
next
  case (Cons a as)
  let ?w = "snd (api pp g c a w)"
  obtain cs where cs: "wStore ?w = snd (run_calls S cs (wStore w))"
    "\<And>rest. api pp g (on_record c) a (playing w (fst (run_calls S cs (wStore w)) @ rest)) = (fst (api pp g c a w), playing ?w rest)"
    using replays_api [OF assms] by blast
  obtain ds where ds: "wStore (snd (api_run pp g c as ?w)) = snd (run_calls S ds (wStore ?w))"
    "\<And>rest. api_run pp g (on_record c) as (playing ?w (fst (run_calls S ds (wStore ?w)) @ rest)) = (fst (api_run pp g c as ?w), playing (snd (api_run pp g c as ?w)) rest)"
    using Cons.IH by blast
  show ?case using cs ds by (intro exI [of _ "cs @ ds"]) (simp add: run_calls_append Let_def)
qed

context redis_client
begin

lemmas redis_clients_bounded = entries.clients_bounded

end

section \<open>Two clients\<close>

text \<open>Two clients that check one token, and the trace in which their operations alternate.\<close>

abbreviation silent :: generator where
  "silent \<equiv> \<lambda>random opts now. (Inr None, random)"

definition checker :: client where
  "checker =
     \<lparr>clOptions = zero_options\<lparr>oStore := Some scripted\<rparr>, clCalls = [AValidate ''ab:cd'' \<lparr>voScope = [], voKeep = False\<rparr>],
      clWorld = fresh_world \<lparr>scEvents = [], scOk = True\<rparr> [] (10 ^ 9)\<rparr>"

definition checked_record :: token_record where
  "checked_record = \<lparr>tScope = ''login'', tExpires = 5000\<rparr>"

definition checked_key :: string where
  "checked_key = ''ab:'' @ sha256Hex ''cd''"

definition alternating :: trace where
  "alternating =
     [(0, CCleanup 1000, RUnit), (1, CCleanup 1000, RUnit), (0, CConsume checked_key [] 1000 False, RToken (Some checked_record)),
      (1, CConsume checked_key [] 1000 False, RToken None)]"

lemma checker_own: "own_tokens scripted (clOptions checker)"
  by (simp add: checker_def own_tokens_def zero_options_def)

lemma checker_key: "TokenKey ''ab:cd'' = Some checked_key"
  by (simp add: TokenKey_def checked_key_def cut_def contains_char_def)

lemma checker_runs:
  "fst (client_run pp g checker [(CCleanup 1000, RUnit), (CConsume checked_key [] 1000 False, RToken found)])
     = [(AValidate ''ab:cd'' \<lparr>voScope = [], voKeep = False\<rparr>, PBool (found \<noteq> None))]"
  using checker_key
  by (simp add: client_run_def checker_def Validate_def lazyCleanup_def run andThen_def readNow_def withStore_def mapError_def ret_def
      capStore_def zero_options_def fresh_world_def scripted_def ask_def unixMilli_def answer_def zero_time_def Let_def)

lemma checkers_total: "total (validated checked_key) pp g [checker, checker] alternating = 1"
  using checker_key
  by (simp add: total_def alternating_def share_def checker_runs lessThan_Suc count_if_def)

lemma checkers_memory:
  "map snd alternating = fst (run_calls mem_ops (map (fst \<circ> snd) alternating) \<lparr>challenges = Map.empty, nonces = Map.empty, tokens = [checked_key \<mapsto> checked_record]\<rparr>)"
  by (simp add: alternating_def reply_def mem_Cleanup_def mem_ConsumeToken_def drop_expired_def checked_record_def Let_def)

lemma checkers_redis:
  "map snd alternating = fst (run_calls (redis_ops sim_redis (redis_New [])) (map (fst \<circ> snd) alternating)
      \<lparr>simData = [(tokenKey (redis_New []) checked_key, enc_token checked_record, 5000)], simTime = 1000\<rparr>)"
proof -
  have "token_wire checked_record" by (simp add: token_wire_def checked_record_def ascii_def int64_def)
  note read = unmarshal_token [OF this]
  then have decode: "sim_decode (enc_token checked_record) = Some (Some ''login'', 5000)" by (simp add: sim_decode_def checked_record_def)
  define v where "v = enc_token checked_record"
  define key where "key = tokenKey (redis_New []) checked_key"
  have start: "sim_db \<lparr>simData = [(key, v, 5000)], simTime = 1000\<rparr> = [key \<mapsto> (v, 5000)]" by (simp add: sim_db_def)
  have ops: "PutToken (redis_ops R p) = redis_PutToken R p" "StoreCleanup (redis_ops R p) = redis_Cleanup"
      "ConsumeToken (redis_ops R p) = redis_ConsumeToken R p" for R :: "sim redis" and p
    by (simp_all add: redis_ops_def)
  have calls: "map (fst \<circ> snd) alternating = [CCleanup 1000, CCleanup 1000, CConsume checked_key [] 1000 False, CConsume checked_key [] 1000 False]"
    by (simp add: alternating_def)
  show ?thesis unfolding v_def [symmetric] key_def [symmetric] calls
    by (simp add: alternating_def start sim_get_def reply_def redis_Cleanup_def redis_ConsumeToken_def consumeTokenScript_def ops
        key_def [symmetric] read [folded v_def] decode [folded v_def])
qed

section \<open>Properties\<close>

text \<open>
  Property C6. Any number of processes that share a Redis server redeem a stored challenge at most as
  often as it was put there, and spend a verification token at most as often as it was put there (once
  more each if it was there at the start), however their operations interleave, fail or time
  out, whatever expires meanwhile, and even if a \<open>Reset\<close> is half done.
\<close>

theorem replicas_use_once:
  assumes "redis_client R db time covers rank"
    and "shared_run (redis_ops R prefix) (redis_chal db prefix) (redis_tok db prefix) r (map snd tr) r'"
    and "\<forall>cl \<in> set cls. own_tokens scripted (clOptions cl)"
  shows "total (redeemed t) pp g cls tr \<le> count_if (put_chal t) (map snd tr) + (if redis_chal db prefix r t = None then 0 else 1)
    \<and> total (validated k) pp g cls tr \<le> count_if (put_tok k) (map snd tr) + (if redis_tok db prefix r k = None then 0 else 1)"
  using redis_client.redis_clients_bounded [OF assms] by simp

theorem replicas_use_once_witness:
  "let r = \<lparr>simData = [(tokenKey (redis_New []) checked_key, enc_token checked_record, 5000)], simTime = 1000\<rparr>
   in map snd alternating = fst (run_calls (redis_ops sim_redis (redis_New [])) (map (fst \<circ> snd) alternating) r)
    \<and> total (validated checked_key) is_prime silent [checker, checker] alternating = 1
    \<and> total (validated checked_key) is_prime silent [checker, checker] alternating
        \<le> count_if (put_tok checked_key) (map snd alternating) + (if redis_tok sim_db (redis_New []) r checked_key = None then 0 else 1)"
proof -
  let ?r = "\<lparr>simData = [(tokenKey (redis_New []) checked_key, enc_token checked_record, 5000)], simTime = 1000\<rparr>"
  have run: "shared_run (redis_ops sim_redis (redis_New [])) (redis_chal sim_db (redis_New [])) (redis_tok sim_db (redis_New [])) ?r (map snd alternating)
      (snd (run_calls (redis_ops sim_redis (redis_New [])) (map (fst \<circ> snd) alternating) ?r))"
    unfolding checkers_redis by (rule run_calls_shared)
  note bound = conjunct2 [OF replicas_use_once [OF sim.redis_client_axioms run]]
  have own: "\<forall>cl \<in> set [checker, checker]. own_tokens scripted (clOptions cl)" using checker_own by simp
  show ?thesis unfolding Let_def by (intro conjI checkers_redis checkers_total bound own)
qed

text \<open>
  Property C14. The same for requests that one process serves at the same time on a \<open>MemoryStore\<close>, whose
  mutex makes each operation atomic: over all of them a stored challenge is redeemed and a token
  spent at most as often as it was put.
\<close>

theorem concurrent_use_once:
  assumes "map snd tr = fst (run_calls mem_ops cs s)" "\<forall>cl \<in> set cls. own_tokens scripted (clOptions cl)"
  shows "total (redeemed t) pp g cls tr \<le> count_if (put_chal t) (map snd tr) + (if challenges s t = None then 0 else 1)
    \<and> total (validated k) pp g cls tr \<le> count_if (put_tok k) (map snd tr) + (if tokens s k = None then 0 else 1)"
  using mem.clients_bounded [OF _ assms(2), of s tr] run_calls_shared [of mem_ops challenges tokens s cs] assms(1) by simp

theorem concurrent_use_once_witness:
  "total (validated checked_key) is_prime silent [checker, checker] alternating = 1
    \<and> total (validated checked_key) is_prime silent [checker, checker] alternating \<le> count_if (put_tok checked_key) (map snd alternating) + 1"
  using concurrent_use_once [OF checkers_memory, of "[checker, checker]"] checker_own checkers_total by simp

text \<open>
  Property C13. A signed challenge is redeemed once by all the requests that one process serves at the same
  time: while every claim of its replay key names the expiry \<open>E\<close> and runs before it, as does
  every clean-up, and every redemption of the key asks the replay guard, at most one of them
  succeeds.
\<close>

theorem concurrent_signed_once:
  assumes "map snd tr = fst (run_calls mem_ops cs s)" "list_all (before_expiry key E) cs"
    and "\<forall>cl \<in> set cls. own_tokens scripted (clOptions cl) \<and> oSecret (clOptions cl) = secret \<and> list_all (asks_guard secret key) (clCalls cl)"
  shows "total (signed_redeemed secret key) pp g cls tr \<le> 1"
proof -
  have "total (signed_redeemed secret key) pp g cls tr \<le> count_if (claimed key) (map snd tr)"
    using assms(3) client_bounded(3) by (intro total_bounded) metis
  also have "\<dots> \<le> 1" unfolding assms(1) by (rule mem.claims_bounded [OF assms(2)])
  finally show ?thesis .
qed

definition redeemer :: client where
  "redeemer = checker\<lparr>clCalls := [ARedeem \<lparr>rqToken = ''h.p.s'', rqSolutions = ''[]'', rqInstr = [], rqInstrBlocked = False, rqInstrTimeout = False\<rparr>
      \<lparr>roScope = [], roSkipNonce = False\<rparr>]\<rparr>"

theorem concurrent_signed_once_witness:
  "let tr = [(0, CCleanup 1000, RUnit), (0, CClaim ''nonce:s'' 2000 1000, RBool True), (1, CClaim ''nonce:s'' 2000 1001, RBool False)]
   in count_if (claimed ''nonce:s'') (map snd tr) = 1 \<and> total (signed_redeemed [] ''nonce:s'') is_prime silent [redeemer, redeemer] tr \<le> 1"
proof -
  let ?tr = "[(0, CCleanup 1000, RUnit), (0, CClaim ''nonce:s'' 2000 1000, RBool True), (1, CClaim ''nonce:s'' 2000 1001, RBool False)] :: trace"
  let ?cs = "[CCleanup 1000, CClaim ''nonce:s'' 2000 1000, CClaim ''nonce:s'' 2000 1001]"
  have run: "map snd ?tr = fst (run_calls mem_ops ?cs NewMemoryStore)"
    by (simp add: reply_def mem_Cleanup_def mem_ClaimNonce_def NewMemoryStore_def drop_expired_def Let_def)
  have own: "own_tokens scripted (clOptions redeemer)" "oSecret (clOptions redeemer) = []"
    using checker_own by (simp_all add: redeemer_def checker_def zero_options_def)
  have "total (signed_redeemed [] ''nonce:s'') is_prime silent [redeemer, redeemer] ?tr \<le> 1"
    by (rule concurrent_signed_once [OF run, where E = 2000]) (use own in \<open>simp_all add: redeemer_def\<close>)
  then show ?thesis by (simp add: count_if_def)
qed



end
