(* ===== verification/Keypair.thy ===== *)
theory Keypair
  imports Rsw Wire Prng
begin

text \<open>
  The JSON form of an RSW key pair (\<open>rsw.go\<close>): decimal strings, as \<open>capjs-core\<close> writes them, and the
  validation on both ways.
\<close>

section \<open>Definitions\<close>

record keypair_json =
  jN :: string
  jP :: string
  jQ :: string
  jBits :: int

definition zero_keypair_json :: keypair_json where
  "zero_keypair_json = \<lparr>jN = [], jP = [], jQ = [], jBits = 0\<rparr>"

definition enc_keypair_json :: "keypair_json \<Rightarrow> string" where
  "enc_keypair_json j =
     enc_object [(''N'', enc_string (jN j)), (''p'', enc_string (jP j)), (''q'', enc_string (jQ j)), (''bits'', itoa (jBits j))]"

definition keypair_fields :: "keypair_json fields" where
  "keypair_fields =
     [(''N'', \<lambda>raw j. map_option (\<lambda>v. j\<lparr>jN := v\<rparr>) (dec_string raw (jN j))),
      (''p'', \<lambda>raw j. map_option (\<lambda>v. j\<lparr>jP := v\<rparr>) (dec_string raw (jP j))),
      (''q'', \<lambda>raw j. map_option (\<lambda>v. j\<lparr>jQ := v\<rparr>) (dec_string raw (jQ j))),
      (''bits'', \<lambda>raw j. map_option (\<lambda>v. j\<lparr>jBits := v\<rparr>) (dec_int64 raw (jBits j)))]"

definition dec_keypair_json :: "string \<Rightarrow> keypair_json \<Rightarrow> keypair_json option" where
  "dec_keypair_json = dec_struct keypair_fields"

text \<open>\<open>big.Int.SetString\<close> in base 10: a sign, then digits.\<close>

definition setString10 :: "string \<Rightarrow> int option" where
  "setString10 s =
     (let (neg, ds) = (case s of c # t \<Rightarrow> if c = CHR ''-'' then (True, t) else if c = CHR ''+'' then (False, t) else (False, s) | [] \<Rightarrow> (False, []))
      in if ds = [] \<or> \<not> list_all is_digit ds then None
         else Some (if neg then - int (of_base 10 ds) else int (of_base 10 ds)))"

definition keypair_MarshalJSON :: "(int \<Rightarrow> bool) \<Rightarrow> rsw_keypair option \<Rightarrow> go_error + string" where
  "keypair_MarshalJSON probablyPrime ko =
     (case keypair_Validate probablyPrime ko of
        Inl err \<Rightarrow> Inl err
      | Inr _ \<Rightarrow>
          let k = the ko
          in Inr (enc_keypair_json
               \<lparr>jN = itoa (the (kN k)), jP = itoa (the (kP k)), jQ = itoa (the (kQ k)), jBits = kBits k\<rparr>))"

definition keypair_UnmarshalJSON :: "(int \<Rightarrow> bool) \<Rightarrow> string \<Rightarrow> go_error + rsw_keypair" where
  "keypair_UnmarshalJSON probablyPrime data =
     (case unmarshal dec_keypair_json data zero_keypair_json of
        None \<Rightarrow> Inl (EOther ''capgo: invalid serialized rsw keypair'')
      | Some raw \<Rightarrow>
          (case setString10 (jN raw) of None \<Rightarrow> Inl (EOther ''capgo: invalid rsw modulus'')
           | Some n \<Rightarrow>
          (case setString10 (jP raw) of None \<Rightarrow> Inl (EOther ''capgo: invalid rsw factor p'')
           | Some p \<Rightarrow>
          (case setString10 (jQ raw) of None \<Rightarrow> Inl (EOther ''capgo: invalid rsw factor q'')
           | Some q \<Rightarrow>
               let parsed = \<lparr>kN = Some n, kP = Some p, kQ = Some q, kBits = (if jBits raw = 0 then bitLen n else jBits raw)\<rparr>
               in (case keypair_Validate probablyPrime (Some parsed) of
                     Inl err \<Rightarrow> Inl err | Inr _ \<Rightarrow> Inr parsed)))))"

text \<open>\<open>json.Unmarshal\<close> finds the value of the document and gives its text to the method.\<close>

definition ParseRSWKeypair :: "(int \<Rightarrow> bool) \<Rightarrow> string \<Rightarrow> go_error + rsw_keypair" where
  "ParseRSWKeypair probablyPrime encoded =
     (case json_document encoded of
        None \<Rightarrow> Inl (EOther ''json'')
      | Some raw \<Rightarrow> keypair_UnmarshalJSON probablyPrime raw)"

section \<open>Lemmas\<close>

lemma setString10_itoa [simp, codec]: "setString10 (itoa i) = Some i"
proof -
  have d: "list_all is_digit (to_base 10 n)" for n by (simp add: to_base_10_digits)
  have "setString10 (to_base 10 n) = Some (int n)" for n
  proof -
    obtain c t where ct: "to_base 10 n = c # t" by (cases "to_base 10 n") auto
    then have "is_digit c" using d [of n] by simp
    then have "c \<noteq> CHR ''-''" "c \<noteq> CHR ''+''" by (auto simp: is_digit_def)
    then show ?thesis using d [of n] of_to_base [of 10 n] ct by (simp add: setString10_def)
  qed
  then show ?thesis using d [of "nat (- i)"] of_to_base [of 10 "nat (- i)"]
    by (cases "i < 0") (simp_all add: itoa_def, simp add: setString10_def)
qed

lemma keypair_setters:
  "field_setter keypair_fields ''N'' = Some (\<lambda>raw j. map_option (\<lambda>v. j\<lparr>jN := v\<rparr>) (dec_string raw (jN j)))"
  "field_setter keypair_fields ''p'' = Some (\<lambda>raw j. map_option (\<lambda>v. j\<lparr>jP := v\<rparr>) (dec_string raw (jP j)))"
  "field_setter keypair_fields ''q'' = Some (\<lambda>raw j. map_option (\<lambda>v. j\<lparr>jQ := v\<rparr>) (dec_string raw (jQ j)))"
  "field_setter keypair_fields ''bits'' = Some (\<lambda>raw j. map_option (\<lambda>v. j\<lparr>jBits := v\<rparr>) (dec_int64 raw (jBits j)))"
  by (simp_all add: keypair_fields_def fold_name_def fold_rune_ascii)

lemma unmarshal_keypair:
  assumes "int64 (jBits j)" "ascii (jN j)" "ascii (jP j)" "ascii (jQ j)"
  shows "unmarshal dec_keypair_json (enc_keypair_json j) zero_keypair_json = Some j"
    and "json_document (enc_keypair_json j) = Some (enc_keypair_json j)"
proof -
  let ?ms = "[(''N'', enc_string (jN j)), (''p'', enc_string (jP j)), (''q'', enc_string (jQ j)), (''bits'', itoa (jBits j))]"
  have t: "\<forall>(k, v) \<in> set ?ms. value_text json_depth v" by simp
  show "unmarshal dec_keypair_json (enc_keypair_json j) zero_keypair_json = Some j"
    unfolding enc_keypair_json_def dec_keypair_json_def unmarshal_struct_enc [OF t]
    using assms by (simp add: keypair_setters dec_int64_wire zero_keypair_json_def)
  show "json_document (enc_keypair_json j) = Some (enc_keypair_json j)"
    unfolding enc_keypair_json_def by (rule json_document_value_text [OF value_text_object [OF t]])
qed

lemma Validate_parts:
  assumes "keypair_Validate pp ko = Inr u"
  obtains k n p q where "ko = Some k" "kN k = Some n" "kP k = Some p" "kQ k = Some q" "1024 \<le> kBits k" "bitLen n = kBits k" "n = p * q" "p \<noteq> q" "pp p" "pp q"
  using assms by (auto simp: keypair_Validate_def split: option.splits if_splits)

lemma ParseRSWKeypair_Validate: "ParseRSWKeypair pp s = Inr k \<Longrightarrow> keypair_Validate pp (Some k) = Inr ()"
  by (auto simp: ParseRSWKeypair_def keypair_UnmarshalJSON_def Let_def split: option.splits sum.splits)

lemma parse_marshal:
  assumes "keypair_MarshalJSON pp (Some k) = Inr t" "kBits k < 2 ^ 63"
  shows "ParseRSWKeypair pp t = Inr k"
proof -
  obtain u where v: "keypair_Validate pp (Some k) = Inr u" using assms(1) by (auto simp: keypair_MarshalJSON_def split: sum.splits)
  then obtain n p q where k: "kN k = Some n" "kP k = Some p" "kQ k = Some q" "1024 \<le> kBits k"
    by (elim Validate_parts) auto
  let ?j = "\<lparr>jN = itoa n, jP = itoa p, jQ = itoa q, jBits = kBits k\<rparr>"
  have t: "t = enc_keypair_json ?j" using assms(1) v k by (simp add: keypair_MarshalJSON_def)
  have u: "unmarshal dec_keypair_json t zero_keypair_json = Some ?j" "json_document t = Some t"
    unfolding t using unmarshal_keypair [of ?j] assms(2) k(4) by (simp_all add: int64_def)
  have "k = \<lparr>kN = Some n, kP = Some p, kQ = Some q, kBits = kBits k\<rparr>" using k by simp
  then show ?thesis using u k(4) v by (simp add: ParseRSWKeypair_def keypair_UnmarshalJSON_def Let_def)
qed

section \<open>Properties\<close>

text \<open>
  Property C32. A key pair survives its JSON form: what \<open>MarshalJSON\<close> writes, \<open>ParseRSWKeypair\<close> reads back as the same
  pair; and whatever text \<open>ParseRSWKeypair\<close> accepts, from this program or from another, is a pair that
  passes \<open>Validate\<close>: two different probable primes whose product is the modulus, of the size it says.
\<close>

theorem keypair_json_roundtrip:
  assumes "keypair_MarshalJSON pp (Some k) = Inr t" "kBits k < 2 ^ 63"
  shows "ParseRSWKeypair pp t = Inr k
    \<and> (\<forall>s k'. ParseRSWKeypair pp s = Inr k' \<longrightarrow> keypair_Validate pp (Some k') = Inr ())"
  using parse_marshal [OF assms] ParseRSWKeypair_Validate [of pp] by blast

theorem keypair_json_roundtrip_witness:
  "\<exists>t. keypair_MarshalJSON (\<lambda>_. True) (Some \<lparr>kN = Some (2 ^ 1023), kP = Some (2 ^ 511), kQ = Some (2 ^ 512), kBits = 1024\<rparr>) = Inr t
    \<and> ParseRSWKeypair (\<lambda>_. True) t = Inr \<lparr>kN = Some (2 ^ 1023), kP = Some (2 ^ 511), kQ = Some (2 ^ 512), kBits = 1024\<rparr>"
proof -
  let ?k = "\<lparr>kN = Some (2 ^ 1023), kP = Some (2 ^ 511), kQ = Some (2 ^ 512), kBits = 1024\<rparr>"
  have b: "bitLen (2 ^ 1023) = 1024" by (simp only: bitLen_power)
  have m: "(2 :: int) ^ 511 * 2 ^ 512 = 2 ^ 1023" by (simp only: power_add [symmetric]) simp
  have ne: "(2 :: int) ^ 511 \<noteq> 2 ^ 512" by simp
  have "keypair_Validate (\<lambda>_. True) (Some ?k) = Inr ()"
    unfolding keypair_Validate_def option.case rsw_keypair.simps prod.case b m using ne by (simp only: if_False if_True simp_thms) simp
  then obtain t where t: "keypair_MarshalJSON (\<lambda>_. True) (Some ?k) = Inr t" by (simp add: keypair_MarshalJSON_def Let_def)
  then show ?thesis using keypair_json_roundtrip [OF t] by auto
qed

end
