(* ===== verification/Capjs.thy ===== *)
theory Capjs
  imports Generate
begin

text \<open>
  \<open>capjs/generator.go\<close>: the instrumentation generator that runs the official Node.js one in a subprocess.
  The subprocess is an argument: from the Node path, the directory and the standard input, an error
  with what was written to the standard error, or the standard output. The answers of the context to
  the two calls of \<open>Err\<close> are arguments as well. The script \<open>generate.mjs\<close> is outside the model.
\<close>

section \<open>Definitions\<close>

record capjs_options =
  NodePath :: string
  ModuleDir :: string

type_synonym subprocess = "string \<Rightarrow> string \<Rightarrow> string \<Rightarrow> (go_error \<times> string) + string"

definition capjs_level :: "int \<Rightarrow> int" where
  "capjs_level l = (let level = (if l = 0 then 3 else l) in max 1 (min 10 level))"

definition capjs_ttl :: "int \<Rightarrow> int" where
  "capjs_ttl ttl = (if ttl \<le> 0 then 5 * 60 * 10 ^ 9 else ttl)"

definition capjs_body :: "instr_options \<Rightarrow> string" where
  "capjs_body input =
     enc_object [(''blockAutomatedBrowsers'', enc_bool (BlockAutomatedBrowsers input)),
                 (''obfuscationLevel'', itoa (capjs_level (ObfuscationLevel input))),
                 (''ttlMs'', itoa (milliseconds (capjs_ttl (optTTL input))))]"

text \<open>The response: the members of \<open>InstrumentationMeta\<close>, promoted, and the blob.\<close>

definition response_fields :: "(instr_meta \<times> string) fields" where
  "response_fields =
     map (\<lambda>(name, set). (name, \<lambda>raw (m, b). map_option (\<lambda>m'. (m', b)) (set raw m))) meta_fields
       @ [(''instrumentation'', \<lambda>raw (m, b). map_option (\<lambda>v. (m, v)) (dec_string raw b))]"

definition dec_response :: "string \<Rightarrow> instr_meta \<times> string \<Rightarrow> (instr_meta \<times> string) option" where
  "dec_response = dec_struct response_fields"

definition NewInstrumentationGenerator :: "subprocess \<Rightarrow> go_error option \<Rightarrow> go_error option \<Rightarrow> capjs_options \<Rightarrow> generator" where
  "NewInstrumentationGenerator node ctxBefore ctxAfter opts random input now =
     (let nodePath = (if NodePath opts = [] then ''node'' else NodePath opts)
      in ((case ctxBefore of Some err \<Rightarrow> Inl err
          | None \<Rightarrow>
              let output = node nodePath (ModuleDir opts) (capjs_body input)
              in (case ctxAfter of Some err \<Rightarrow> Inl err
                  | None \<Rightarrow>
                      (case output of
                         Inl (err, stderr) \<Rightarrow> Inl (EWrap ''capjs: instrumentation: '' err ('': '' @ stderr))
                       | Inr stdout \<Rightarrow>
                           (case unmarshal dec_response stdout (zero_meta, []) of
                              None \<Rightarrow> Inl (EWrap ''capjs: invalid generator response: '' (EOther ''json'') [])
                            | Some (m, blob) \<Rightarrow>
                                Inr (Some \<lparr>iBlob = blob, iMeta = m\<lparr>mExpires := unixMilli (now + capjs_ttl (optTTL input))\<rparr>\<rparr>))))), random))"

section \<open>Lemmas\<close>

lemma capjs_level_range: "1 \<le> capjs_level l \<and> capjs_level l \<le> 10"
  by (simp add: capjs_level_def Let_def)

lemma capjs_ttl_pos: "0 < capjs_ttl t"
  by (simp add: capjs_ttl_def)

text \<open>What a subprocess prints that answers with metadata and a blob.\<close>

definition response_members :: "instr_meta \<Rightarrow> string \<Rightarrow> (string \<times> string) list" where
  "response_members m blob =
     [(''id'', enc_string (mID m)), (''expectedVals'', enc_list (map (\<lambda>v. itoa (sint v)) (mExpectedVals m))),
      (''vars'', enc_list (map enc_string (mVars m))), (''blockAutomatedBrowsers'', enc_bool (mBlock m)),
      (''instrumentation'', enc_string blob)]"

definition response_text :: "instr_meta \<Rightarrow> string \<Rightarrow> string" where
  "response_text m blob = enc_object (response_members m blob)"

lemma response_setters:
  "field_setter response_fields ''id'' = Some (\<lambda>raw (m, b). map_option (\<lambda>m'. (m', b)) (map_option (\<lambda>v. m\<lparr>mID := v\<rparr>) (dec_string raw (mID m))))"
  "field_setter response_fields ''expectedVals'' = Some (\<lambda>raw (m, b). map_option (\<lambda>m'. (m', b)) (map_option (\<lambda>v. m\<lparr>mExpectedVals := v\<rparr>) (dec_list dec_int32 0 raw)))"
  "field_setter response_fields ''vars'' = Some (\<lambda>raw (m, b). map_option (\<lambda>m'. (m', b)) (map_option (\<lambda>v. m\<lparr>mVars := v\<rparr>) (dec_list dec_string [] raw)))"
  "field_setter response_fields ''blockAutomatedBrowsers'' = Some (\<lambda>raw (m, b). map_option (\<lambda>m'. (m', b)) (map_option (\<lambda>v. m\<lparr>mBlock := v\<rparr>) (dec_bool raw (mBlock m))))"
  "field_setter response_fields ''instrumentation'' = Some (\<lambda>raw (m, b). map_option (\<lambda>v. (m, v)) (dec_string raw b))"
  by (simp_all add: response_fields_def meta_fields_def fold_name_def fold_rune_ascii)

lemma unmarshal_response:
  assumes "ascii (mID m)" "list_all ascii (mVars m)" "ascii blob"
  shows "unmarshal dec_response (response_text m blob) (zero_meta, []) = Some (m\<lparr>mExpires := 0\<rparr>, blob)"
proof -
  have ids: "map repair (mVars m) = mVars m" "repair (mID m) = mID m" "repair blob = blob"
    using assms by (simp_all add: list_all_iff map_idI)
  have vals: "dec_list dec_int32 0 (enc_list (map (\<lambda>v. itoa (sint v)) (mExpectedVals m))) = Some (mExpectedVals m)"
    using dec_list_enc [of "mExpectedVals m" "\<lambda>v. itoa (sint v)" dec_int32 0 id] by simp
  have vars: "dec_list dec_string [] (enc_list (map enc_string (mVars m))) = Some (mVars m)"
    using dec_list_enc [of "mVars m" enc_string dec_string "[]" repair] ids by simp
  have vt: "value_text json_depth (enc_list (map (\<lambda>v. itoa (sint v)) (mExpectedVals m)))"
    "value_text json_depth (enc_list (map enc_string (mVars m)))"
    unfolding depth_Suc(1) by (rule value_text_enc_list; simp)+
  then have t: "\<forall>(k, v) \<in> set (response_members m blob). value_text json_depth v" by (simp add: response_members_def)
  show ?thesis
    unfolding response_text_def dec_response_def unmarshal_struct_enc [OF t]
    using ids vals vars by (simp add: response_members_def response_setters zero_meta_def)
qed

lemma capjs_runs:
  assumes "node (if NodePath opts = [] then ''node'' else NodePath opts) (ModuleDir opts) (capjs_body input) = Inr (response_text m blob)"
    and "ascii (mID m)" "list_all ascii (mVars m)" "ascii blob"
  shows "NewInstrumentationGenerator node None None opts random input now =
    (Inr (Some \<lparr>iBlob = blob, iMeta = m\<lparr>mExpires := unixMilli (now + capjs_ttl (optTTL input))\<rparr>\<rparr>), random)"
  using assms(1) unmarshal_response [OF assms(2-4)] by (simp add: NewInstrumentationGenerator_def Let_def)

lemma unixMilli_mono: "a \<le> b \<Longrightarrow> unixMilli a \<le> unixMilli b"
  by (simp add: unixMilli_def zdiv_mono1)

lemma widget_report_text:
  "trim_space (widget_report ident vars ws ts) = widget_report ident vars ws ts"
  "widget_report ident vars ws ts \<noteq> []" "hd (widget_report ident vars ws ts) = CHR ''{''"
  by (simp_all add: widget_report_def trim_space_enc_object enc_object_ne)

lemma capjs_answerable:
  fixes input :: instr_options
  assumes "ascii (mID m)" "list_all ascii (mVars m)" "ascii blob" "blob \<noteq> []" "mID m \<noteq> []" "mVars m \<noteq> []" "distinct (mVars m)" "[] \<notin> set (mVars m)"
    and "length (mExpectedVals m) = length (mVars m)" "0 < unixMilli now" "- (2 ^ 63) \<le> ts" "ts < 2 ^ 63"
  defines "i \<equiv> \<lparr>iBlob = blob, iMeta = m\<lparr>mExpires := unixMilli (now + capjs_ttl (optTTL input))\<rparr>\<rparr>"
  shows "accept_instrumentation input now (Some i) =
      (if mBlock m = BlockAutomatedBrowsers input then Inr i
       else Inl (configErr ''instrumentation generator changed browser blocking policy''))"
    and "t \<le> unixMilli (now + capjs_ttl (optTTL input)) \<Longrightarrow>
      checkInstrumentation (Some (iMeta i)) t (widget_report (mID m) (mVars m) (map sint (mExpectedVals m)) ts) False False = None"
proof -
  have "unixMilli now \<le> unixMilli (now + capjs_ttl (optTTL input))" using capjs_ttl_pos [of "optTTL input"] by (intro unixMilli_mono) simp
  then have e: "mExpires (iMeta i) \<noteq> 0" using assms(10) by (simp add: i_def)
  have "vars_distinct {} (mVars m)" using assms(7,8) by (simp add: vars_distinct_iff)
  then show "accept_instrumentation input now (Some i) =
      (if mBlock m = BlockAutomatedBrowsers input then Inr i
       else Inl (configErr ''instrumentation generator changed browser blocking policy''))"
    using assms(4-9) e by (simp add: accept_instrumentation_def Let_def i_def)
  assume t: "t \<le> unixMilli (now + capjs_ttl (optTTL input))"
  let ?r = "widget_report (mID m) (mVars m) (map sint (mExpectedVals m)) ts"
  have small: "list_all (\<lambda>w. \<bar>w\<bar> < 2 ^ 53) (map sint (mExpectedVals m))" using sint_small by (auto simp: list_all_iff)
  have "VerifyInstrumentationResult (Some (iMeta i)) ?r = None"
    using widget_report_iff [of "iMeta i" "map sint (mExpectedVals m)" ts] assms(1,2,5-7,9,11,12) small by (simp add: i_def)
  moreover have "?r \<noteq> ''null''" "?r \<noteq> ''false''" using widget_report_text(3) [of "mID m" "mVars m" "map sint (mExpectedVals m)" ts] by auto
  ultimately show "checkInstrumentation (Some (iMeta i)) t ?r False False = None"
    using t by (simp add: checkInstrumentation_def widget_report_text i_def)
qed

section \<open>Properties\<close>

text \<open>
  Property C34. A challenge of the Node.js generator can be answered: when the subprocess, asked for a level
  between 1 and 10 and a positive lifetime, prints well-formed metadata and a blob, the generator returns
  them with its own expiry, reads no entropy, passes the checks of \<open>Cap\<close> exactly when the blocking policy is the
  one asked for, and a client that reports the expected values before the expiry is accepted.
\<close>

theorem capjs_challenge_answerable:
  assumes "node (if NodePath opts = [] then ''node'' else NodePath opts) (ModuleDir opts) (capjs_body input) = Inr (response_text m blob)"
    and "ascii (mID m)" "list_all ascii (mVars m)" "ascii blob" "blob \<noteq> []" "mID m \<noteq> []" "mVars m \<noteq> []" "distinct (mVars m)" "[] \<notin> set (mVars m)"
    and "length (mExpectedVals m) = length (mVars m)" "0 < unixMilli now" "- (2 ^ 63) \<le> ts" "ts < 2 ^ 63"
    and "t \<le> unixMilli (now + capjs_ttl (optTTL input))"
  shows "\<exists>i. NewInstrumentationGenerator node None None opts random input now = (Inr (Some i), random)
    \<and> accept_instrumentation input now (Some i) =
        (if mBlock m = BlockAutomatedBrowsers input then Inr i
         else Inl (configErr ''instrumentation generator changed browser blocking policy''))
    \<and> mExpires (iMeta i) = unixMilli (now + capjs_ttl (optTTL input))
    \<and> checkInstrumentation (Some (iMeta i)) t (widget_report (mID m) (mVars m) (map sint (mExpectedVals m)) ts) False False = None"
  using capjs_runs [where node = node and opts = opts and input = input and m = m and blob = blob and now = now and random = random, OF assms(1-4)]
    capjs_answerable(1) [OF assms(2-13), of input] capjs_answerable(2) [OF assms(2-14)] by simp

definition example_meta :: instr_meta where
  "example_meta = \<lparr>mID = ''ab'', mExpectedVals = [100007, - 5], mVars = [''a'', ''b''], mBlock = True, mExpires = 0\<rparr>"

text \<open>A subprocess that answers every level from 1 to 10 and fails on any other request.\<close>

definition example_node :: subprocess where
  "example_node path dir input =
     (if \<exists>l \<in> set [1..10]. input = enc_object [(''blockAutomatedBrowsers'', enc_bool True), (''obfuscationLevel'', itoa l), (''ttlMs'', ''300000'')]
      then Inr (response_text example_meta ''QUJD'') else Inl (EOther ''exit status 1'', ''bad request''))"

theorem capjs_challenge_answerable_witness:
  "\<exists>i. NewInstrumentationGenerator example_node None None \<lparr>NodePath = [], ModuleDir = []\<rparr> []
        \<lparr>BlockAutomatedBrowsers = True, ObfuscationLevel = 99, optTTL = 0\<rparr> (17 * 10 ^ 17) = (Inr (Some i), [])
    \<and> accept_instrumentation \<lparr>BlockAutomatedBrowsers = True, ObfuscationLevel = 99, optTTL = 0\<rparr> (17 * 10 ^ 17) (Some i) = Inr i
    \<and> checkInstrumentation (Some (iMeta i)) 1700000000000 (widget_report ''ab'' [''a'', ''b''] [100007, - 5] 17) False False = None"
proof -
  let ?input = "\<lparr>BlockAutomatedBrowsers = True, ObfuscationLevel = 99, optTTL = 0\<rparr>" and ?o = "\<lparr>NodePath = [], ModuleDir = []\<rparr>"
  have "itoa 300000 = ''300000''" by (simp add: itoa_def to_base.simps digit_char_def digit_chars_def)
  then have "capjs_body ?input = enc_object [(''blockAutomatedBrowsers'', enc_bool True), (''obfuscationLevel'', itoa 10), (''ttlMs'', ''300000'')]"
    by (simp add: capjs_body_def capjs_level_def capjs_ttl_def milliseconds_def)
  then have run: "example_node (if NodePath ?o = [] then ''node'' else NodePath ?o) (ModuleDir ?o) (capjs_body ?input) = Inr (response_text example_meta ''QUJD'')"
    unfolding example_node_def by (intro if_P) (auto intro!: bexI [of _ 10])
  have m: "ascii (mID example_meta)" "list_all ascii (mVars example_meta)" "ascii ''QUJD''" "''QUJD'' \<noteq> []" "mID example_meta \<noteq> []" "mVars example_meta \<noteq> []"
    "distinct (mVars example_meta)" "[] \<notin> set (mVars example_meta)" "length (mExpectedVals example_meta) = length (mVars example_meta)"
    "0 < unixMilli (17 * 10 ^ 17)" "- (2 ^ 63) \<le> (17 :: int)" "(17 :: int) < 2 ^ 63" "1700000000000 \<le> unixMilli (17 * 10 ^ 17 + capjs_ttl (optTTL ?input))"
    by (simp_all add: example_meta_def unixMilli_def capjs_ttl_def)
  from capjs_challenge_answerable [where node = example_node and opts = ?o and input = ?input and m = example_meta and blob = "''QUJD''"
      and now = "17 * 10 ^ 17" and random = "[]", OF run m] show ?thesis by (simp add: example_meta_def) blast
qed

end
