(* ===== verification/Http.thy ===== *)
theory Http
  imports Signed Flow
begin

text \<open>
  \<open>caphttp/handler.go\<close>: the HTTP endpoints of the widget. A request is given by what the handlers
  read of it, a response by its status, its headers and its body. A panic of a method of \<open>Cap\<close>
  passes through a handler, which answers nothing then. The error log is not modelled.
\<close>

section \<open>Requests and responses\<close>

record http_request =
  hMethod :: string
  hPath :: string
  hPathScope :: string
  hCtxScope :: "string option"
  hBody :: string

record http_response =
  hStatus :: int
  hHeaders :: "(string \<times> string) list"
  hText :: string

text \<open>\<open>Options\<close>; \<open>None\<close> for a nil slice of scopes.\<close>

record handler_options =
  hMaxBody :: int
  hScopes :: "string list option"
  hRequireScope :: bool
  hCustom :: "(http_request \<Rightarrow> challenge_options \<Rightarrow> challenge_options) option"

definition NewHandler :: "handler_options \<Rightarrow> handler_options" where
  "NewHandler opts = (if hMaxBody opts \<le> 0 then opts\<lparr>hMaxBody := 65536\<rparr> else opts)"

section \<open>Bodies\<close>

text \<open>
  \<open>writeJSON\<close>: \<open>Encode\<close> writes the value and a line feed; a value that has no JSON form leaves the body
  empty, since the error is dropped.
\<close>

definition writeJSON :: "int \<Rightarrow> string option \<Rightarrow> http_response" where
  "writeJSON status body =
     \<lparr>hStatus = status, hHeaders = [(''Content-Type'', ''application/json''), (''Cache-Control'', ''no-store'')],
      hText = (case body of None \<Rightarrow> [] | Some t \<Rightarrow> t @ [CHR 0x0A])\<rparr>"

text \<open>Maps are encoded with their keys in order.\<close>

definition failure_body :: "string \<Rightarrow> bool \<Rightarrow> string" where
  "failure_body reason instr =
     enc_object ([(''error'', enc_string reason)] @ (if instr then [(''instr_error'', enc_bool True)] else [])
       @ [(''success'', enc_bool False)])"

definition token_body :: "issued_token \<Rightarrow> string" where
  "token_body k =
     enc_object [(''expires'', itoa (kExpires k)), (''success'', enc_bool True), (''token'', enc_string (kToken k))]"

text \<open>
  \<open>json.Encoder\<close> on a challenge: the text of \<open>MarshalJSON\<close> goes through \<open>json.Compact\<close>.
\<close>

definition challenge_body :: "challenge \<Rightarrow> string option" where
  "challenge_body ch =
     (case challenge_MarshalJSON ch of Inl e \<Rightarrow> None | Inr t \<Rightarrow> Some (compact False False t))"

text \<open>The JSON form of \<open>RedeemRequest\<close>.\<close>

definition request_fields :: "redeem_request fields" where
  "request_fields =
     [(''token'', \<lambda>raw r. map_option (\<lambda>v. r\<lparr>rqToken := v\<rparr>) (dec_string raw (rqToken r))),
      (''solutions'', \<lambda>raw r. map_option (\<lambda>v. r\<lparr>rqSolutions := v\<rparr>) (dec_raw raw (rqSolutions r))),
      (''instr'', \<lambda>raw r. map_option (\<lambda>v. r\<lparr>rqInstr := v\<rparr>) (dec_raw raw (rqInstr r))),
      (''instr_blocked'', \<lambda>raw r. map_option (\<lambda>v. r\<lparr>rqInstrBlocked := v\<rparr>) (dec_bool raw (rqInstrBlocked r))),
      (''instr_timeout'', \<lambda>raw r. map_option (\<lambda>v. r\<lparr>rqInstrTimeout := v\<rparr>) (dec_bool raw (rqInstrTimeout r)))]"

definition dec_request :: "string \<Rightarrow> redeem_request \<Rightarrow> redeem_request option" where
  "dec_request = dec_struct request_fields"

definition zero_request :: redeem_request where
  "zero_request = \<lparr>rqToken = [], rqSolutions = [], rqInstr = [], rqInstrBlocked = False, rqInstrTimeout = False\<rparr>"

text \<open>
  \<open>Decode\<close> on \<open>MaxBytesReader\<close>: the first JSON value of the body, which must end within the limit; what
  follows it is not read. A number or literal that reaches the end of the limit may go on, so it
  counts as cut off.
\<close>

definition first_value :: "int \<Rightarrow> string \<Rightarrow> string option" where
  "first_value limit body =
     (let t = skip_ws (take (nat limit) body)
      in case scan_value (Suc json_depth) t of
           None \<Rightarrow> None
         | Some r \<Rightarrow>
             if r = [] \<and> nat limit < length body \<and> hd t \<notin> set ''{['' \<and> hd t \<noteq> CHR 0x22 then None else Some (consumed t r))"

definition decodeRequest :: "int \<Rightarrow> string \<Rightarrow> redeem_request option" where
  "decodeRequest limit body = (case first_value limit body of None \<Rightarrow> None | Some raw \<Rightarrow> dec_request raw zero_request)"

section \<open>Scopes\<close>

definition requestScope :: "handler_options \<Rightarrow> http_request \<Rightarrow> string option" where
  "requestScope h r =
     (let scope = (if hPathScope r = [] then (case hCtxScope r of Some v \<Rightarrow> v | None \<Rightarrow> []) else hPathScope r)
      in if scope = [] then (if hRequireScope h then None else Some [])
         else (case hScopes h of
                 None \<Rightarrow> None
               | Some allowed \<Rightarrow> if allowed = [] \<or> list_ex (\<lambda>a. a = scope) allowed then Some scope else None))"

section \<open>Handlers\<close>

definition recovered :: "go_error \<Rightarrow> http_response \<Rightarrow> ('st, http_response) act" where
  "recovered e r = (case e of EPanic s \<Rightarrow> throw e | _ \<Rightarrow> ret r)"

definition catch :: "('st, 'a) act \<Rightarrow> (go_error \<Rightarrow> ('st, 'b) act) \<Rightarrow> ('a \<Rightarrow> ('st, 'b) act) \<Rightarrow> ('st, 'b) act" where
  "catch m onError onValue w = (case m w of (Inl e, w') \<Rightarrow> onError e w' | (Inr x, w') \<Rightarrow> onValue x w')"

definition handleChallenge ::
  "(int \<Rightarrow> bool) \<Rightarrow> generator \<Rightarrow> 'st options \<Rightarrow> handler_options \<Rightarrow> http_request \<Rightarrow> ('st, http_response) act" where
  "handleChallenge probablyPrime builtin c h r =
     (case requestScope h r of
        None \<Rightarrow> ret (writeJSON 400 (Some (failure_body ''invalid_scope'' False)))
      | Some scope \<Rightarrow>
          let base = zero_challenge_options\<lparr>coScope := scope\<rparr>;
              opts = (case hCustom h of None \<Rightarrow> base | Some f \<Rightarrow> f r base)
          in catch (Challenge probablyPrime builtin c opts)
               (\<lambda>e. recovered e (writeJSON 500 (Some (failure_body ''challenge_failed'' False))))
               (\<lambda>ch. ret (writeJSON 200 (challenge_body ch))))"

definition redeem_error :: "go_error \<Rightarrow> http_response" where
  "redeem_error e =
     (case errors_As e of
        Some (reason, instr, None) \<Rightarrow> writeJSON 200 (Some (failure_body reason instr))
      | _ \<Rightarrow> writeJSON 500 (Some (failure_body ''redeem_failed'' False)))"

definition handleRedeem :: "'st options \<Rightarrow> handler_options \<Rightarrow> http_request \<Rightarrow> ('st, http_response) act" where
  "handleRedeem c h r =
     (case requestScope h r of
        None \<Rightarrow> ret (writeJSON 400 (Some (failure_body ''invalid_scope'' False)))
      | Some scope \<Rightarrow>
          (case decodeRequest (hMaxBody h) (hBody r) of
             None \<Rightarrow> ret (writeJSON 400 (Some (failure_body ReasonInvalidBody False)))
           | Some req \<Rightarrow>
               catch (Redeem c req \<lparr>roScope = scope, roSkipNonce = False\<rparr>)
                 (\<lambda>e. recovered e (redeem_error e))
                 (\<lambda>k. ret (writeJSON 200 (Some (token_body k))))))"

definition handleValidate :: "'st options \<Rightarrow> string \<Rightarrow> string \<Rightarrow> ('st, bool) act" where
  "handleValidate c token scope = Validate c token \<lparr>voScope = scope, voKeep = False\<rparr>"

section \<open>Routing\<close>

definition not_found :: http_response where
  "not_found =
     \<lparr>hStatus = 404, hHeaders = [(''Content-Type'', ''text/plain; charset=utf-8''), (''X-Content-Type-Options'', ''nosniff'')],
      hText = ''404 page not found'' @ [CHR 0x0A]\<rparr>"

definition method_not_allowed :: http_response where
  "method_not_allowed =
     (let r = writeJSON 405 (Some (failure_body ''method_not_allowed'' False)) in r\<lparr>hHeaders := (''Allow'', ''POST'') # hHeaders r\<rparr>)"

definition trim_slashes :: "string \<Rightarrow> string" where
  "trim_slashes s = rev (dropWhile (\<lambda>c. c = CHR ''/'') (rev (dropWhile (\<lambda>c. c = CHR ''/'') s)))"

definition ServeHTTP ::
  "(int \<Rightarrow> bool) \<Rightarrow> generator \<Rightarrow> 'st options \<Rightarrow> handler_options \<Rightarrow> http_request \<Rightarrow> ('st, http_response) act" where
  "ServeHTTP probablyPrime builtin c h r =
     (if hMethod r \<noteq> ''POST'' then ret method_not_allowed
      else
        let segments = split_on (CHR ''/'') (trim_slashes (hPath r));
            action = last segments;
            r' = (if 2 \<le> length segments \<and> hScopes h \<noteq> None
                  then r\<lparr>hCtxScope := Some (segments ! (length segments - 2))\<rparr> else r)
        in if action = ''challenge'' then handleChallenge probablyPrime builtin c h r'
           else if action = ''redeem'' then handleRedeem c h r'
           else ret not_found)"

text \<open>
  \<open>Register\<close>: the patterns and their handlers. A segment \<open>{scope}\<close> of a pattern matches any segment
  that is not empty, and gives the path value of that name.
\<close>

datatype action = AnswerChallenge | AnswerRedeem

definition trim_slash_suffix :: "string \<Rightarrow> string" where
  "trim_slash_suffix prefix = (if prefix \<noteq> [] \<and> last prefix = CHR ''/'' then butlast prefix else prefix)"

definition Register :: "handler_options \<Rightarrow> string \<Rightarrow> (string \<times> action) list" where
  "Register h prefix =
     (let p = trim_slash_suffix prefix
      in [(p @ ''/challenge'', AnswerChallenge), (p @ ''/redeem'', AnswerRedeem)]
         @ (if hScopes h = None then []
            else [(p @ ''/{scope}/challenge'', AnswerChallenge), (p @ ''/{scope}/redeem'', AnswerRedeem)]))"

fun match_segments :: "string list \<Rightarrow> string list \<Rightarrow> string option" where
  "match_segments [] [] = Some []"
| "match_segments (p # ps) (s # ss) =
     (if p = ''{scope}'' then (if s = [] then None else map_option (\<lambda>_. s) (match_segments ps ss))
      else if p = s then match_segments ps ss else None)"
| "match_segments _ _ = None"

fun route :: "(string \<times> action) list \<Rightarrow> string \<Rightarrow> (action \<times> string) option" where
  "route [] path = None"
| "route ((pattern, a) # rs) path =
     (case match_segments (split_on (CHR ''/'') pattern) (split_on (CHR ''/'') path) of
        Some scope \<Rightarrow> Some (a, scope)
      | None \<Rightarrow> route rs path)"

text \<open>A request that the mux sends to a registered pattern.\<close>

definition serve_registered ::
  "(int \<Rightarrow> bool) \<Rightarrow> generator \<Rightarrow> 'st options \<Rightarrow> handler_options \<Rightarrow> string \<Rightarrow> http_request \<Rightarrow> ('st, http_response) act option" where
  "serve_registered probablyPrime builtin c h prefix r =
     (if hMethod r \<noteq> ''POST'' then None
      else (case route (Register h prefix) (hPath r) of
              None \<Rightarrow> None
            | Some (AnswerChallenge, scope) \<Rightarrow> Some (handleChallenge probablyPrime builtin c h (r\<lparr>hPathScope := scope\<rparr>))
            | Some (AnswerRedeem, scope) \<Rightarrow> Some (handleRedeem c h (r\<lparr>hPathScope := scope\<rparr>))))"


section \<open>Outcomes of a redemption\<close>

text \<open>
  \<open>outcome P m Q E\<close>: from a world in \<open>P\<close> the action \<open>m\<close> ends with a value and a world in \<open>Q\<close>, or with
  an error and a world in \<open>E\<close>.
\<close>

definition outcome ::
  "('st world \<Rightarrow> bool) \<Rightarrow> ('st, 'a) act \<Rightarrow> ('a \<Rightarrow> 'st world \<Rightarrow> bool) \<Rightarrow> (go_error \<Rightarrow> 'st world \<Rightarrow> bool) \<Rightarrow> bool" where
  "outcome P m Q E \<longleftrightarrow> (\<forall>w. P w \<longrightarrow> (case m w of (Inl e, w') \<Rightarrow> E e w' | (Inr x, w') \<Rightarrow> Q x w'))"

named_theorems outcomes

lemma outcome_andThen: "outcome P m M E \<Longrightarrow> (\<And>x. outcome (M x) (f x) Q E) \<Longrightarrow> outcome P (andThen m f) Q E"
  by (fastforce simp: outcome_def andThen_def split: prod.splits sum.splits)

lemma outcome_ret [outcomes]: "(\<And>w. P w \<Longrightarrow> Q x w) \<Longrightarrow> outcome P (ret x) Q E"
  by (simp add: outcome_def ret_def)

lemma outcome_throw [outcomes]: "(\<And>w. P w \<Longrightarrow> E e w) \<Longrightarrow> outcome P (throw e) Q E"
  by (simp add: outcome_def throw_def)

lemma outcome_check [outcomes]:
  "(\<And>w. P w \<Longrightarrow> Q () w) \<Longrightarrow> (\<And>w e. P w \<Longrightarrow> q = Some e \<Longrightarrow> E e w) \<Longrightarrow> outcome P (check q) Q E"
  by (auto simp: outcome_def check_def split: option.splits)

lemma outcome_if [outcomes]: "(b \<Longrightarrow> outcome P m Q E) \<Longrightarrow> (\<not> b \<Longrightarrow> outcome P m' Q E) \<Longrightarrow> outcome P (if b then m else m') Q E"
  by simp

lemma outcome_option [outcomes]:
  "(q = None \<Longrightarrow> outcome P m Q E) \<Longrightarrow> (\<And>x. q = Some x \<Longrightarrow> outcome P (f x) Q E) \<Longrightarrow> outcome P (case q of None \<Rightarrow> m | Some x \<Rightarrow> f x) Q E"
  by (cases q) simp_all

lemma outcome_prod [outcomes]: "(\<And>a b. x = (a, b) \<Longrightarrow> outcome P (f a b) Q E) \<Longrightarrow> outcome P (case x of (a, b) \<Rightarrow> f a b) Q E"
  by (cases x) simp

lemma outcome_pre: "outcome P m Q E \<Longrightarrow> (\<And>w. P' w \<Longrightarrow> P w) \<Longrightarrow> outcome P' m Q E"
  by (simp add: outcome_def)

text \<open>The store is sound for redemption, and there is entropy for one token.\<close>

definition redeemable :: "memory_store world \<Rightarrow> bool" where
  "redeemable w \<longleftrightarrow> 23 \<le> length (wRandom w) \<and>
     (\<forall>t r. challenges (wStore w) t = Some r \<longrightarrow> 0 \<le> cSize r \<and> 0 \<le> cDifficulty r)"

text \<open>The reasons a redemption is refused for; the flag of an instrumentation failure goes with its reason.\<close>

definition proof_reasons :: "string list" where
  "proof_reasons =
     [ReasonMissingToken, ReasonMissingSolutions, ReasonInvalidToken, ReasonScopeMismatch, ReasonExpired,
      ReasonInvalidSolutions, ReasonInvalidSolution, ReasonAlreadyRedeemed, ReasonChallengeNotFound]"

definition instr_reasons :: "string list" where
  "instr_reasons =
     [ReasonInstrCorrupted, ReasonInstrExpired, ReasonInstrAutomated, ReasonInstrTimeout, ReasonInstrMissing,
      ReasonInstrMissingMeta, ReasonInstrMissingOutput, ReasonInstrIDMismatch, ReasonInstrInvalidState,
      ReasonInstrInvalidMeta, ReasonInstrFailedChallenge]"

definition refusal :: "go_error \<Rightarrow> bool" where
  "refusal e \<longleftrightarrow> (\<exists>r \<in> set proof_reasons. e = fail r) \<or> (\<exists>r \<in> set instr_reasons. e = failInstr r)"

lemma refusal_fail [simp]: "refusal (fail r) \<longleftrightarrow> r \<in> set proof_reasons" "refusal (failInstr r) \<longleftrightarrow> r \<in> set instr_reasons"
  by (auto simp: refusal_def fail_def failInstr_def)

lemma reason_listed [simp]:
  "ReasonMissingToken \<in> set proof_reasons" "ReasonMissingSolutions \<in> set proof_reasons" "ReasonInvalidToken \<in> set proof_reasons"
  "ReasonScopeMismatch \<in> set proof_reasons" "ReasonExpired \<in> set proof_reasons" "ReasonInvalidSolutions \<in> set proof_reasons"
  "ReasonInvalidSolution \<in> set proof_reasons" "ReasonAlreadyRedeemed \<in> set proof_reasons" "ReasonChallengeNotFound \<in> set proof_reasons"
  "ReasonInstrCorrupted \<in> set instr_reasons" "ReasonInstrExpired \<in> set instr_reasons" "ReasonInstrAutomated \<in> set instr_reasons"
  "ReasonInstrTimeout \<in> set instr_reasons" "ReasonInstrMissing \<in> set instr_reasons" "ReasonInstrMissingMeta \<in> set instr_reasons"
  "ReasonInstrMissingOutput \<in> set instr_reasons" "ReasonInstrIDMismatch \<in> set instr_reasons" "ReasonInstrInvalidState \<in> set instr_reasons"
  "ReasonInstrInvalidMeta \<in> set instr_reasons" "ReasonInstrFailedChallenge \<in> set instr_reasons"
  by (simp_all add: proof_reasons_def instr_reasons_def)

lemma check_vars_refusal: "check_vars st names vs = Some e \<Longrightarrow> refusal e"
  by (induction st names vs rule: check_vars.induct) (auto split: option.splits if_splits)

lemma checkInstrumentation_refusal: "checkInstrumentation m now result blocked timeout = Some e \<Longrightarrow> refusal e"
  by (auto simp: checkInstrumentation_def VerifyInstrumentationResult_def dest: check_vars_refusal split: option.splits if_splits)

lemma verify_pairs_refusal: "0 \<le> sz \<Longrightarrow> 0 \<le> d \<Longrightarrow> verify_pairs token i sz d ss = Some e \<Longrightarrow> refusal e"
proof (induction ss arbitrary: i)
  case (Cons s ss)
  obtain salt target where "format1Pair token (i + 1) sz d = Some (salt, target)"
    using format1Pair_total [OF Cons.prems(1,2)] by fastforce
  with Cons show ?case by (auto split: if_splits)
qed simp

lemma verifyFormat1_refusal: "0 \<le> sz \<Longrightarrow> 0 \<le> d \<Longrightarrow> verifyFormat1 token n sz d ss = Some e \<Longrightarrow> refusal e"
  by (auto simp: verifyFormat1_def dest: verify_pairs_refusal split: if_splits)

lemma verify_entries_refusal: "verify_entries es raws now = Some e \<Longrightarrow> refusal e"
proof (induction es raws now rule: verify_entries.induct)
  case (1 x es raw raws now)
  then show ?case
    by (auto simp: verify_entry_def dest: checkInstrumentation_refusal split: option.splits if_splits)
qed auto

lemma verifySigned_refusal: "verifySigned c claims req now = Some e \<Longrightarrow> refusal e"
  by (auto simp: verifySigned_def verifyV2_def verifySignedV1_def validatePoWParams_None
        dest: verify_entries_refusal checkInstrumentation_refusal verifyFormat1_refusal [rotated 2] split: option.splits if_splits)


lemma redeemable_steps:
  assumes "redeemable w"
  shows "redeemable (w\<lparr>wReads := n\<rparr>)" "redeemable (w\<lparr>wLastCleanup := t\<rparr>)"
    and "redeemable (w\<lparr>wStore := snd (mem_Cleanup now (wStore w))\<rparr>)"
    and "redeemable (w\<lparr>wStore := snd (mem_TakeChallenge u now (wStore w))\<rparr>)"
    and "redeemable (w\<lparr>wStore := snd (mem_ClaimNonce u e now (wStore w))\<rparr>)"
  using assms by (auto simp: redeemable_def mem_defs Let_def split: option.splits if_splits)

lemma outcome_readNow: "outcome redeemable readNow (\<lambda>_. redeemable) (\<lambda>e w. refusal e)"
  by (simp add: outcome_def readNow_def redeemable_steps)

lemma outcome_store:
  assumes "\<And>w x s'. P w \<Longrightarrow> f (wStore w) = (Inr x, s') \<Longrightarrow> Q x (w\<lparr>wStore := s'\<rparr>)" "\<And>s e. fst (f s) \<noteq> Inl e"
  shows "outcome P (mapError g (withStore f)) Q E"
  unfolding outcome_def
proof (intro allI impI)
  fix w assume "P w"
  obtain r s' where f: "f (wStore w) = (r, s')" by fastforce
  then obtain x where "r = Inr x" using assms(2) [of "wStore w"] by (cases r) auto
  then show "case mapError g (withStore f) w of (Inl e, w') \<Rightarrow> E e w' | (Inr x, w') \<Rightarrow> Q x w'"
    using f assms(1) [OF \<open>P w\<close>] by (simp add: mapError_def withStore_def)
qed

lemma redeemable_clean:
  assumes "redeemable w"
  shows "redeemable (snd (withStore (mem_Cleanup now) (w\<lparr>wReads := n, wLastCleanup := t\<rparr>)))"
  using redeemable_steps(3) [of "w\<lparr>wReads := n, wLastCleanup := t\<rparr>" now] assms
  by (simp add: withStore_def Let_def redeemable_steps)

lemma outcome_lazyCleanup:
  assumes "own_tokens mem_ops c"
  shows "outcome redeemable (lazyCleanup c) (\<lambda>_. redeemable) (\<lambda>e w. refusal e)"
  using assms by (simp add: outcome_def lazyCleanup_def andThen_def readNow_def redeemable_steps redeemable_clean)

lemma outcome_take:
  assumes "own_tokens mem_ops c"
  shows "outcome redeemable (mapError f (withStore (TakeChallenge (capStore c) t now)))
    (\<lambda>found w. redeemable w \<and> (\<forall>r. found = Some r \<longrightarrow> 0 \<le> cSize r \<and> 0 \<le> cDifficulty r)) (\<lambda>e w. refusal e)"
proof (rule outcome_store)
  fix w found s'
  assume w: "redeemable w" and t: "TakeChallenge (capStore c) t now (wStore w) = (Inr found, s')"
  then have "found = None \<or> found = challenges (wStore w) t"
    using assms by (auto simp: mem_TakeChallenge_def Let_def split: option.splits if_splits)
  moreover have "redeemable (w\<lparr>wStore := s'\<rparr>)"
    using redeemable_steps(4) [OF w, of t now] t assms by simp
  ultimately show "redeemable (w\<lparr>wStore := s'\<rparr>) \<and> (\<forall>r. found = Some r \<longrightarrow> 0 \<le> cSize r \<and> 0 \<le> cDifficulty r)"
    using w by (auto simp: redeemable_def)
qed (use assms mem.never_fails in simp)

lemma outcome_claim:
  assumes "own_tokens mem_ops c"
  shows "outcome redeemable (mapError f (withStore (ClaimNonce (capStore c) k e now))) (\<lambda>_. redeemable) (\<lambda>e w. refusal e)"
proof (rule outcome_store)
  fix w x s'
  assume "redeemable w" "ClaimNonce (capStore c) k e now (wStore w) = (Inr x, s')"
  then show "redeemable (w\<lparr>wStore := s'\<rparr>)" using redeemable_steps(5) [of w k e now] assms by simp
qed (use assms mem.never_fails in simp)

lemma outcome_issue:
  assumes "own_tokens mem_ops c"
  shows "outcome redeemable (issueToken c scope nowMs iat) (\<lambda>_ _. True) (\<lambda>e w. refusal e)"
  unfolding outcome_def
proof (intro allI impI)
  fix w :: "memory_store world"
  assume "redeemable w"
  then have w: "23 \<le> length (wRandom w)" by (simp add: redeemable_def)
  have "oSignToken c = None" and "\<And>k r s. fst (PutToken (capStore c) k r s) = Inr ()"
    using assms by (simp_all add: mem_PutToken_def)
  from issueToken_runs [OF this(1) w this(2), of scope nowMs iat]
  obtain k w' where "issueToken c scope nowMs iat w = (Inr k, w')" by blast
  then show "case issueToken c scope nowMs iat w of (Inl e, w') \<Rightarrow> refusal e | (Inr x, w') \<Rightarrow> True" by simp
qed

lemma outcome_Redeem:
  assumes "own_tokens mem_ops c"
  shows "outcome redeemable (Redeem c req ro) (\<lambda>_ _. True) (\<lambda>e w. refusal e)"
proof -
  note issue = outcome_issue [OF assms]
  have stored: "outcome redeemable (redeemStored c req ro) (\<lambda>_ _. True) (\<lambda>e w. refusal e)"
    unfolding redeemStored_def Let_def
    apply (intro outcomes outcome_andThen [OF outcome_readNow] outcome_andThen [OF outcome_take [OF assms]]
        outcome_andThen [where M = "\<lambda>_. redeemable", OF outcome_check] outcome_pre [OF issue])
    by (auto dest: verifyFormat1_refusal [rotated 2] checkInstrumentation_refusal split: option.splits)
  have guard: "outcome redeemable
      (if roSkipNonce ro then ret ()
       else andThen (mapError f (withStore (ClaimNonce (capStore c) key e now)))
              (\<lambda>claimed. if claimed then ret () else throw (fail ReasonAlreadyRedeemed)))
      (\<lambda>_. redeemable) (\<lambda>e w. refusal e)" for f key e now
    by (intro outcome_if outcome_andThen [OF outcome_claim [OF assms]] outcome_ret outcome_throw) auto
  have signed: "outcome redeemable (redeemSigned c req ro) (\<lambda>_ _. True) (\<lambda>e w. refusal e)"
    unfolding redeemSigned_def Let_def verifySigned_def [symmetric]
    by (intro outcome_if outcome_option outcome_prod outcome_throw outcome_andThen [OF outcome_readNow]
        outcome_andThen [OF guard issue] outcome_andThen [where M = "\<lambda>_. redeemable", OF outcome_check])
      (auto dest: verifySigned_refusal)
  show ?thesis unfolding Redeem_def
    by (intro outcomes outcome_andThen [OF outcome_lazyCleanup [OF assms]] stored signed) auto
qed

section \<open>Tokens of a redemption\<close>

text \<open>A redemption adds the record of the token it returns, in the scope asked for, and no other.\<close>

definition one_token :: "(string \<rightharpoonup> token_record) \<Rightarrow> string \<Rightarrow> issued_token \<Rightarrow> (string \<rightharpoonup> token_record) \<Rightarrow> bool" where
  "one_token old scope k new \<longleftrightarrow>
     (\<exists>key. TokenKey (kToken k) = Some key \<and> new key = Some \<lparr>tScope = kScope k, tExpires = kExpires k\<rparr>
        \<and> new(key := None) \<subseteq>\<^sub>m old) \<and> (scope \<noteq> [] \<longrightarrow> kScope k = scope)"

context live_store
begin

lemma issueToken_one:
  assumes "own_tokens S c" "scope \<noteq> [] \<longrightarrow> sc = scope"
  shows "valid (\<lambda>s. tok s \<subseteq>\<^sub>m m) (issueToken c sc nowMs iat) (\<lambda>k s. one_token m scope k (tok s)) (\<lambda>e s. tok s \<subseteq>\<^sub>m m)"
proof -
  have put: "valid (\<lambda>s. tok s \<subseteq>\<^sub>m m) (mapError h (withStore (PutToken S u r)))
      (\<lambda>_ s. tok s u = Some r \<and> (tok s)(u := None) \<subseteq>\<^sub>m m) (\<lambda>e s. tok s \<subseteq>\<^sub>m m)" for h u r
    using put_token_tok put_token_get by (intro valid_mapError valid_store) (auto simp: map_le_def dom_def)
  have last: "valid (\<lambda>s. tok s \<subseteq>\<^sub>m m) (andThen (mapError h (withStore (PutToken S u \<lparr>tScope = kScope k, tExpires = kExpires k\<rparr>))) (\<lambda>_. ret k))
      (\<lambda>k s. one_token m scope k (tok s)) (\<lambda>e s. tok s \<subseteq>\<^sub>m m)"
    if "TokenKey (kToken k) = Some u" "kScope k = sc" for h u k
    using that assms(2) by (intro valid_andThen [OF put] valid_ret) (auto simp: one_token_def)
  have last': "valid (\<lambda>s. tok s \<subseteq>\<^sub>m m) (andThen (mapError h (withStore (PutToken S (i @ '':'' @ sha256Hex v) \<lparr>tScope = sc, tExpires = e\<rparr>)))
        (\<lambda>_. ret \<lparr>kToken = i @ '':'' @ v, kExpires = e, kScope = sc, kIssuedAt = iat\<rparr>))
      (\<lambda>k s. one_token m scope k (tok s)) (\<lambda>e s. tok s \<subseteq>\<^sub>m m)"
    if "TokenKey (i @ '':'' @ v) = Some (i @ '':'' @ sha256Hex v)" for h i v e
    using last [of "\<lparr>kToken = i @ '':'' @ v, kExpires = e, kScope = sc, kIssuedAt = iat\<rparr>"] that by simp
  show ?thesis unfolding issueToken_def Let_def own [OF assms(1)] option.case
    by (intro valid_random_andThen last' issue_draws) assumption+
qed

lemma Redeem_one:
  assumes "own_tokens S c"
  shows "valid (\<lambda>s. tok s \<subseteq>\<^sub>m m) (Redeem c req ro) (\<lambda>k s. one_token m (roScope ro) k (tok s)) (\<lambda>e s. tok s \<subseteq>\<^sub>m m)"
proof -
  note le = valid_within_andThen [where R = "\<lambda>s s'. tok s' \<subseteq>\<^sub>m tok s" and P = "\<lambda>s. tok s \<subseteq>\<^sub>m m", OF _ map_le_trans]
    and issue = issueToken_one [OF assms]
  have stored: "valid (\<lambda>s. tok s \<subseteq>\<^sub>m m) (redeemStored c req ro) (\<lambda>k s. one_token m (roScope ro) k (tok s)) (\<lambda>e s. tok s \<subseteq>\<^sub>m m)"
    unfolding redeemStored_def Let_def
    using tok_le_store [OF assms]
    by (auto intro!: le issue valid_throw acts split: option.split)
  have signed: "valid (\<lambda>s. tok s \<subseteq>\<^sub>m m) (redeemSigned c req ro) (\<lambda>k s. one_token m (roScope ro) k (tok s)) (\<lambda>e s. tok s \<subseteq>\<^sub>m m)"
    unfolding redeemSigned_def Let_def
    using tok_le_store [OF assms]
    by (auto intro!: le issue valid_throw acts split: option.split prod.split)
  show ?thesis unfolding Redeem_def
    by (auto intro!: le tok_methods [OF assms] signed stored valid_throw)
qed

end

section \<open>What the endpoints do\<close>

lemma scope_allowed:
  assumes "requestScope h r = Some scope" "hRequireScope h" "hScopes h = Some allowed" "allowed \<noteq> []"
  shows "scope \<noteq> [] \<and> scope \<in> set allowed"
  using assms by (auto simp: requestScope_def Let_def list_ex_iff split: if_splits option.splits)

lemma catch_cases:
  "catch m f g w = (case fst (m w) of Inl e \<Rightarrow> f e (snd (m w)) | Inr x \<Rightarrow> g x (snd (m w)))"
  by (cases "m w") (simp add: catch_def split: sum.splits)

lemma snd_handled [simp]: "snd (catch m (\<lambda>e. recovered e (x e)) (\<lambda>k. ret (y k)) w) = snd (m w)"
  by (auto simp: catch_cases recovered_def ret_def throw_def split: sum.split go_error.split)

text \<open>The tokens after a request to either endpoint.\<close>

lemma handleRedeem_tokens:
  assumes "own_tokens mem_ops c"
  shows "tokens (wStore (snd (handleRedeem c h r w))) \<subseteq>\<^sub>m tokens (wStore w)
    \<or> (\<exists>scope k. requestScope h r = Some scope \<and> one_token (tokens (wStore w)) scope k (tokens (wStore (snd (handleRedeem c h r w)))))"
proof (cases "requestScope h r")
  case (Some scope)
  show ?thesis
  proof (cases "decodeRequest (hMaxBody h) (hBody r)")
    case req: (Some req)
    let ?m = "Redeem c req \<lparr>roScope = scope, roSkipNonce = False\<rparr>"
    have w: "snd (handleRedeem c h r w) = snd (?m w)"
      by (simp add: handleRedeem_def Some req)
    show ?thesis
      using validD [OF mem.Redeem_one [OF assms, of "tokens (wStore w)" req "\<lparr>roScope = scope, roSkipNonce = False\<rparr>"], of w]
      unfolding w by (cases "fst (?m w)") (auto simp: Some)
  qed (simp add: handleRedeem_def Some ret_def)
qed (simp add: handleRedeem_def ret_def)

lemma handleChallenge_tokens:
  assumes "own_tokens mem_ops c"
  shows "tokens (wStore (snd (handleChallenge pp g c h r w))) \<subseteq>\<^sub>m tokens (wStore w)"
proof (cases "requestScope h r")
  case (Some scope)
  then obtain co where "snd (handleChallenge pp g c h r w) = snd (Challenge pp g c co w)"
    by (auto simp: handleChallenge_def Let_def)
  then show ?thesis using mem.tok_methods(2) [OF assms, of pp g co] by (simp add: within_def)
qed (simp add: handleChallenge_def ret_def)

text \<open>A request, by either way of routing.\<close>

definition served ::
  "(int \<Rightarrow> bool) \<Rightarrow> generator \<Rightarrow> 'st options \<Rightarrow> handler_options \<Rightarrow> http_request \<Rightarrow> ('st, http_response) act \<Rightarrow> bool" where
  "served pp g c h r m \<longleftrightarrow> m = ServeHTTP pp g c h r \<or> (\<exists>prefix. serve_registered pp g c h prefix r = Some m)"

lemma served_cases:
  assumes "served pp g c h r m"
  obtains r' where "m w \<in> {ret method_not_allowed w, handleChallenge pp g c h r' w, handleRedeem c h r' w, ret not_found w}"
proof -
  let ?segs = "split_on (CHR ''/'') (trim_slashes (hPath r))"
  define r' where "r' = (if 2 \<le> length ?segs \<and> hScopes h \<noteq> None then r\<lparr>hCtxScope := Some (?segs ! (length ?segs - 2))\<rparr> else r)"
  have "ServeHTTP pp g c h r w \<in> {ret method_not_allowed w, handleChallenge pp g c h r' w, handleRedeem c h r' w, ret not_found w}"
    by (simp add: ServeHTTP_def Let_def r'_def)
  moreover have "\<exists>r'. m w \<in> {handleChallenge pp g c h r' w, handleRedeem c h r' w}" if "serve_registered pp g c h prefix r = Some m" for prefix
    using that by (auto simp: serve_registered_def split: if_splits option.splits action.splits)
  ultimately show thesis using assms that unfolding served_def by blast
qed

lemma served_tokens:
  assumes "own_tokens mem_ops c" "served pp g c h r m"
  shows "tokens (wStore (snd (m w))) \<subseteq>\<^sub>m tokens (wStore w)
    \<or> (\<exists>r' scope k. requestScope h r' = Some scope \<and> one_token (tokens (wStore w)) scope k (tokens (wStore (snd (m w)))))"
proof -
  obtain r' where "m w \<in> {ret method_not_allowed w, handleChallenge pp g c h r' w, handleRedeem c h r' w, ret not_found w}"
    using served_cases [OF assms(2)] by metis
  then show ?thesis using handleRedeem_tokens [OF assms(1), of h r' w] handleChallenge_tokens [OF assms(1), of pp g h r' w]
    by (auto simp: ret_def)
qed

lemma served_scope:
  assumes "own_tokens mem_ops c" "hRequireScope h" "hScopes h = Some allowed" "allowed \<noteq> []" "served pp g c h r m"
    and "tokens (wStore (snd (m w))) key = Some record"
  shows "tokens (wStore w) key = Some record \<or> tScope record \<in> set allowed"
  using served_tokens [OF assms(1,5), of w]
proof (elim disjE exE conjE)
  fix r' scope k
  assume s: "requestScope h r' = Some scope" and k: "one_token (tokens (wStore w)) scope k (tokens (wStore (snd (m w))))"
  have a: "scope \<noteq> [] \<and> scope \<in> set allowed" by (rule scope_allowed [OF s assms(2-4)])
  from k a obtain u where u: "tokens (wStore (snd (m w))) u = Some \<lparr>tScope = scope, tExpires = kExpires k\<rparr>"
    "(tokens (wStore (snd (m w))))(u := None) \<subseteq>\<^sub>m tokens (wStore w)" by (auto simp: one_token_def)
  show ?thesis
  proof (cases "key = u")
    case True
    then show ?thesis using u(1) assms(6) a by auto
  next
    case False
    then have "((tokens (wStore (snd (m w))))(u := None)) key = Some record" using assms(6) by simp
    then show ?thesis using u(2) by (metis domI map_le_def)
  qed
qed (use assms(6) in \<open>force simp: map_le_def\<close>)

text \<open>Every redemption request is answered, and how.\<close>

definition rejected :: "handler_options \<Rightarrow> http_request \<Rightarrow> bool" where
  "rejected h r \<longleftrightarrow> requestScope h r = None \<or> decodeRequest (hMaxBody h) (hBody r) = None"

definition success_response :: "issued_token \<Rightarrow> http_response" where
  "success_response k = writeJSON 200 (Some (token_body k))"

definition failure_response :: "int \<Rightarrow> string \<Rightarrow> bool \<Rightarrow> http_response" where
  "failure_response status reason instr = writeJSON status (Some (failure_body reason instr))"

lemma recovered_refusal [simp]: "refusal e \<Longrightarrow> recovered e r = ret r"
  by (auto simp: refusal_def fail_def failInstr_def recovered_def)

lemma redeem_error_refusal:
  assumes "refusal e"
  obtains reason instr where "redeem_error e = failure_response 200 reason instr"
    "reason \<in> set (if instr then instr_reasons else proof_reasons)"
proof (cases "\<exists>r \<in> set proof_reasons. e = fail r")
  case True
  then obtain r where "r \<in> set proof_reasons" "e = fail r" by blast
  then show thesis by (intro that [of r False]) (simp_all add: fail_def redeem_error_def failure_response_def)
next
  case False
  then obtain r where "r \<in> set instr_reasons" "e = failInstr r" using assms by (auto simp: refusal_def)
  then show thesis by (intro that [of r True]) (simp_all add: failInstr_def redeem_error_def failure_response_def)
qed

lemma handleRedeem_answers:
  assumes "own_tokens mem_ops c" "redeemable w"
  shows "\<exists>resp. fst (handleRedeem c h r w) = Inr resp \<and>
    (if rejected h r then hStatus resp = 400 \<and> snd (handleRedeem c h r w) = w
     else (\<exists>scope k. resp = success_response k \<and> requestScope h r = Some scope
             \<and> one_token (tokens (wStore w)) scope k (tokens (wStore (snd (handleRedeem c h r w)))))
        \<or> (\<exists>reason instr. resp = failure_response 200 reason instr
             \<and> reason \<in> set (if instr then instr_reasons else proof_reasons)
             \<and> tokens (wStore (snd (handleRedeem c h r w))) \<subseteq>\<^sub>m tokens (wStore w)))"
proof (cases "rejected h r")
  case True
  then show ?thesis
    by (cases "requestScope h r") (auto simp: rejected_def handleRedeem_def ret_def writeJSON_def)
next
  case False
  then obtain scope req where q: "requestScope h r = Some scope" "decodeRequest (hMaxBody h) (hBody r) = Some req"
    by (auto simp: rejected_def)
  let ?m = "Redeem c req \<lparr>roScope = scope, roSkipNonce = False\<rparr>"
  have h: "handleRedeem c h r w = catch ?m (\<lambda>e. recovered e (redeem_error e)) (\<lambda>k. ret (success_response k)) w"
    by (simp add: handleRedeem_def q success_response_def)
  note tok = validD [OF mem.Redeem_one [OF assms(1), of "tokens (wStore w)" req "\<lparr>roScope = scope, roSkipNonce = False\<rparr>"], of w]
  show ?thesis
  proof (cases "fst (?m w)")
    case (Inl e)
    then have "refusal e" using outcome_Redeem [OF assms(1), of req "\<lparr>roScope = scope, roSkipNonce = False\<rparr>"] assms(2)
      by (cases "?m w") (auto simp: outcome_def)
    moreover from this obtain reason instr where e: "redeem_error e = failure_response 200 reason instr"
        "reason \<in> set (if instr then instr_reasons else proof_reasons)"
      by (rule redeem_error_refusal)
    ultimately have "fst (handleRedeem c h r w) = Inr (failure_response 200 reason instr)"
      by (simp add: h catch_cases Inl ret_def)
    moreover have "tokens (wStore (snd (handleRedeem c h r w))) \<subseteq>\<^sub>m tokens (wStore w)"
      using tok(2) [OF _ Inl] by (simp add: h)
    ultimately show ?thesis using e(2) unfolding if_not_P [OF False] by blast
  next
    case (Inr k)
    then show ?thesis using tok(1) [OF _ Inr] False q by (auto simp: h catch_cases ret_def)
  qed
qed

section \<open>Two ways of mounting\<close>

lemma split_on_parts: "split_on c (s @ c # t) = split_on c s @ split_on c t"
proof (induction s)
  case (Cons x s)
  then show ?case by (cases "split_on c s") auto
qed simp

lemma split_on_segments:
  "split_on c x = [a] \<Longrightarrow> x = a" "split_on c x = [s, a] \<Longrightarrow> x = s @ c # a \<and> c \<notin> set s"
  by (auto dest: split_on_join)

lemma match_literal: "''{scope}'' \<notin> set ps \<Longrightarrow> match_segments (ps @ qs) (ps @ ss) = match_segments qs ss"
  by (induction ps) auto

lemma match_unscoped: "a \<noteq> ''{scope}'' \<Longrightarrow> match_segments [a] ss = Some scope \<Longrightarrow> ss = [a] \<and> scope = []"
  by (cases "([a], ss)" rule: match_segments.cases) (auto split: if_splits elim: match_segments.elims)

lemma match_scoped:
  "a \<noteq> ''{scope}'' \<Longrightarrow> match_segments [''{scope}'', a] ss = Some scope \<Longrightarrow> ss = [scope, a] \<and> scope \<noteq> []"
  by (cases "([''{scope}'', a], ss)" rule: match_segments.cases) (auto split: if_splits dest: match_unscoped)

lemma trim_slashes_plain:
  assumes "s \<noteq> []" "hd s \<noteq> CHR ''/''" "last s \<noteq> CHR ''/''"
  shows "trim_slashes (CHR ''/'' # s) = s"
proof -
  obtain y ys where s: "s = y # ys" using assms(1) by (cases s) auto
  obtain z zs where r: "rev s = z # zs" using assms(1) by (cases "rev s") auto
  have "z = last s" using r by (metis hd_rev list.sel(1))
  then have "dropWhile (\<lambda>c. c = CHR ''/'') (rev s) = rev s" using assms(3) unfolding r by simp
  moreover have "dropWhile (\<lambda>c. c = CHR ''/'') (CHR ''/'' # s) = s" using assms(2) s by simp
  ultimately show ?thesis by (simp add: trim_slashes_def)
qed

lemma requestScope_ctx:
  "hPathScope r = [] \<Longrightarrow> scope \<noteq> [] \<Longrightarrow> requestScope h (r\<lparr>hPath := x, hCtxScope := Some scope\<rparr>) = requestScope h (r\<lparr>hPathScope := scope, hCtxScope := y\<rparr>)" 
  by (simp add: requestScope_def)

lemma handle_same_request:
  assumes "hCustom h = None" "requestScope h r = requestScope h r'" "hBody r = hBody r'"
  shows "handleChallenge pp g c h r = handleChallenge pp g c h r'" "handleRedeem c h r = handleRedeem c h r'"
  unfolding handleChallenge_def handleRedeem_def assms by (auto split: option.split)

text \<open>What the mux serves, in terms of the segments after the prefix.\<close>

lemma served_segments:
  assumes "serve_registered pp g c h prefix r = Some m" "CHR ''{'' \<notin> set prefix"
    and "hPath r = trim_slash_suffix prefix @ CHR ''/'' # x"
  obtains a scope where "m = (if a = ''challenge'' then handleChallenge pp g c h (r\<lparr>hPathScope := scope\<rparr>) else handleRedeem c h (r\<lparr>hPathScope := scope\<rparr>))"
    "a \<in> {''challenge'', ''redeem''}" "hMethod r = ''POST''"
    "x = a \<and> scope = [] \<or> x = scope @ CHR ''/'' # a \<and> scope \<noteq> [] \<and> CHR ''/'' \<notin> set scope \<and> hScopes h \<noteq> None"
proof -
  let ?p = "trim_slash_suffix prefix"
  have nb: "''{scope}'' \<notin> set (split_on (CHR ''/'') ?p)"
  proof
    assume m: "''{scope}'' \<in> set (split_on (CHR ''/'') ?p)"
    have "set p \<subseteq> set s" if "p \<in> set (split_on (CHR ''/'') s)" for p s
      using that
    proof (induction s arbitrary: p)
      case (Cons y s)
      then show ?case by (cases "split_on (CHR ''/'') s") (fastforce split: if_splits)+
    qed simp
    from this [OF m] have "CHR ''{'' \<in> set ?p" by auto
    then show False using assms(2) by (auto simp: trim_slash_suffix_def split: if_splits dest: in_set_butlastD)
  qed
  let ?ss = "split_on (CHR ''/'') x"
  have match: "match_segments (split_on (CHR ''/'') (?p @ ''/'' @ pat)) (split_on (CHR ''/'') (hPath r))
      = match_segments (split_on (CHR ''/'') pat) ?ss" for pat
    using match_literal [OF nb, of "split_on (CHR ''/'') pat" ?ss] unfolding assms(3) by (simp add: split_on_parts)
  have pats: "match_segments (split_on (CHR ''/'') ''challenge'') ?ss = Some s \<Longrightarrow> x = ''challenge'' \<and> s = []"
    "match_segments (split_on (CHR ''/'') ''redeem'') ?ss = Some s \<Longrightarrow> x = ''redeem'' \<and> s = []"
    "match_segments (split_on (CHR ''/'') ''{scope}/challenge'') ?ss = Some s \<Longrightarrow> x = s @ CHR ''/'' # ''challenge'' \<and> s \<noteq> [] \<and> CHR ''/'' \<notin> set s"
    "match_segments (split_on (CHR ''/'') ''{scope}/redeem'') ?ss = Some s \<Longrightarrow> x = s @ CHR ''/'' # ''redeem'' \<and> s \<noteq> [] \<and> CHR ''/'' \<notin> set s" for s
    using match_unscoped [of "''challenge''" ?ss s] match_unscoped [of "''redeem''" ?ss s]
      match_scoped [of "''challenge''" ?ss s] match_scoped [of "''redeem''" ?ss s]
      split_on_segments [of "CHR ''/''" x] by auto
  let ?m = "\<lambda>pat. match_segments (split_on (CHR ''/'') pat) ?ss"
  have reg: "Register h prefix = (?p @ ''/'' @ ''challenge'', AnswerChallenge) # (?p @ ''/'' @ ''redeem'', AnswerRedeem)
      # (if hScopes h = None then [] else [(?p @ ''/'' @ ''{scope}/challenge'', AnswerChallenge), (?p @ ''/'' @ ''{scope}/redeem'', AnswerRedeem)])"
    by (simp add: Register_def Let_def)
  have found: "route (Register h prefix) (hPath r) =
      (case ?m ''challenge'' of Some s \<Rightarrow> Some (AnswerChallenge, s) | None \<Rightarrow>
       (case ?m ''redeem'' of Some s \<Rightarrow> Some (AnswerRedeem, s) | None \<Rightarrow>
        (if hScopes h = None then None else
         (case ?m ''{scope}/challenge'' of Some s \<Rightarrow> Some (AnswerChallenge, s) | None \<Rightarrow>
          (case ?m ''{scope}/redeem'' of Some s \<Rightarrow> Some (AnswerRedeem, s) | None \<Rightarrow> None)))))"
    unfolding reg by (cases "hScopes h = None") (simp_all only: if_True if_False route.simps match simp_thms)
  obtain act scope where r: "hMethod r = ''POST''" "route (Register h prefix) (hPath r) = Some (act, scope)"
    "m = (case act of AnswerChallenge \<Rightarrow> handleChallenge pp g c h (r\<lparr>hPathScope := scope\<rparr>) | AnswerRedeem \<Rightarrow> handleRedeem c h (r\<lparr>hPathScope := scope\<rparr>))"
    using assms(1) by (auto simp: serve_registered_def split: if_splits option.splits action.splits)
  let ?a = "case act of AnswerChallenge \<Rightarrow> ''challenge'' | AnswerRedeem \<Rightarrow> ''redeem''"
  have "?m ''challenge'' = Some scope \<and> act = AnswerChallenge \<or> ?m ''redeem'' = Some scope \<and> act = AnswerRedeem
      \<or> ?m ''{scope}/challenge'' = Some scope \<and> act = AnswerChallenge \<and> hScopes h \<noteq> None
      \<or> ?m ''{scope}/redeem'' = Some scope \<and> act = AnswerRedeem \<and> hScopes h \<noteq> None"
    using r(2) unfolding found by (simp only: split: option.splits if_splits) simp_all
  then have "x = ?a \<and> scope = [] \<or> x = scope @ CHR ''/'' # ?a \<and> scope \<noteq> [] \<and> CHR ''/'' \<notin> set scope \<and> hScopes h \<noteq> None"
    using pats [of scope] by (elim disjE conjE) simp_all
  then show thesis using r(1,3) by (intro that [of ?a scope]) (simp_all split: action.splits)
qed

lemma ServeHTTP_at:
  assumes "hMethod r = ''POST''" "split_on (CHR ''/'') (trim_slashes (hPath r)) = segments" "last segments = a" "a \<in> {''challenge'', ''redeem''}"
  shows "ServeHTTP pp g c h r =
    (let r' = (if 2 \<le> length segments \<and> hScopes h \<noteq> None then r\<lparr>hCtxScope := Some (segments ! (length segments - 2))\<rparr> else r)
     in if a = ''challenge'' then handleChallenge pp g c h r' else handleRedeem c h r')"
  using assms(1,3,4) unfolding ServeHTTP_def assms(2) by (auto simp: Let_def)

lemma mounted_alike:
  assumes "serve_registered pp g c h prefix r = Some m" "CHR ''{'' \<notin> set prefix" "hCustom h = None"
    and "hPathScope r = []" "hCtxScope r = None" "hPath r = trim_slash_suffix prefix @ CHR ''/'' # x"
  shows "ServeHTTP pp g c h (r\<lparr>hPath := CHR ''/'' # x\<rparr>) = m"
proof -
  obtain a scope where m: "m = (if a = ''challenge'' then handleChallenge pp g c h (r\<lparr>hPathScope := scope\<rparr>) else handleRedeem c h (r\<lparr>hPathScope := scope\<rparr>))"
    and a: "a \<in> {''challenge'', ''redeem''}" "hMethod r = ''POST''"
    and x: "x = a \<and> scope = [] \<or> x = scope @ CHR ''/'' # a \<and> scope \<noteq> [] \<and> CHR ''/'' \<notin> set scope \<and> hScopes h \<noteq> None"
    by (rule served_segments [OF assms(1,2,6)]) blast
  have ns: "a \<noteq> []" "hd a \<noteq> CHR ''/''" "last a \<noteq> CHR ''/''" "CHR ''/'' \<notin> set a" using a(1) by auto
  let ?H = "\<lambda>q. if a = ''challenge'' then handleChallenge pp g c h q else handleRedeem c h q"
  have same: "?H r1 = ?H r2" if "requestScope h r1 = requestScope h r2" "hBody r1 = hBody r2" for r1 r2
    unfolding handle_same_request(1) [OF assms(3) that] handle_same_request(2) [OF assms(3) that] by (rule refl)
  show ?thesis
  proof (cases "scope = []")
    case True
    with x have xa: "x = a" by simp
    have "split_on (CHR ''/'') (trim_slashes (CHR ''/'' # x)) = [a]"
      unfolding xa using ns by (simp add: trim_slashes_plain split_on_no_sep)
    then have "ServeHTTP pp g c h (r\<lparr>hPath := CHR ''/'' # x\<rparr>) = ?H (r\<lparr>hPath := CHR ''/'' # x\<rparr>)"
      using a by (subst ServeHTTP_at [where segments = "[a]" and a = a]) simp_all
    also have "\<dots> = ?H (r\<lparr>hPathScope := scope\<rparr>)"
      by (rule same) (simp_all add: requestScope_def assms(4) True)
    finally show ?thesis unfolding m .
  next
    case False
    with x have xs: "x = scope @ CHR ''/'' # a" "CHR ''/'' \<notin> set scope" "hScopes h \<noteq> None" by auto
    have "hd x = hd scope" "hd scope \<in> set scope" "last x = last a" using False ns(1) by (simp_all add: xs(1))
    then have ends: "x \<noteq> []" "hd x \<noteq> CHR ''/''" "last x \<noteq> CHR ''/''" using ns(3) xs(1,2) by auto
    have "split_on (CHR ''/'') (trim_slashes (CHR ''/'' # x)) = [scope, a]"
      unfolding trim_slashes_plain [OF ends] unfolding xs(1) split_on_append [OF xs(2)] split_on_no_sep [OF ns(4)] ..
    then have "ServeHTTP pp g c h (r\<lparr>hPath := CHR ''/'' # x\<rparr>) = ?H (r\<lparr>hPath := CHR ''/'' # x, hCtxScope := Some scope\<rparr>)"
      using a xs(3) by (subst ServeHTTP_at [where segments = "[scope, a]" and a = a]) simp_all
    also have "\<dots> = ?H (r\<lparr>hPathScope := scope\<rparr>)"
      using requestScope_ctx [OF assms(4) False, of h "CHR ''/'' # x" "hCtxScope r"] by (intro same) simp_all
    finally show ?thesis unfolding m .
  qed
qed

section \<open>A widget that posts its solution\<close>

text \<open>The body the widget posts for a challenge without instrumentation.\<close>

definition post_body :: "string \<Rightarrow> string \<Rightarrow> string" where
  "post_body token solutions = enc_object [(''token'', enc_string token), (''solutions'', solutions)]"

lemma first_value_text:
  assumes "value_text (Suc json_depth) t" "int (length t) \<le> limit"
  shows "first_value limit t = Some t"
proof -
  have "take (nat limit) t = t" using assms(2) by simp
  moreover have "skip_ws t = t" using value_text_skip [OF assms(1), of "[]"] by simp
  moreover have "scan_value (Suc json_depth) t = Some []" using value_text_scan [OF assms(1), of "[]"] by simp
  moreover have "\<not> nat limit < length t" using assms(2) by simp
  ultimately show ?thesis by (simp add: first_value_def Let_def consumed_def)
qed

lemma decodeRequest_post:
  assumes "ascii token" "value_text json_depth solutions" "int (length (post_body token solutions)) \<le> limit"
  shows "decodeRequest limit (post_body token solutions) = Some (plain_request token solutions)"
proof -
  have v: "\<forall>(k, v) \<in> set [(''token'', enc_string token), (''solutions'', solutions)]. value_text json_depth v"
    using assms(2) by simp
  have "dec_request (post_body token solutions) zero_request = Some (plain_request token solutions)"
    unfolding dec_request_def post_body_def dec_struct_enc [OF v]
    using assms(1) by (simp add: request_fields_def fold_name_def fold_rune_ascii dec_raw_def zero_request_def plain_request_def)
  moreover have "first_value limit (post_body token solutions) = Some (post_body token solutions)"
    using assms(3) value_text_object [OF v] by (intro first_value_text) (simp add: post_body_def)
  ultimately show ?thesis by (simp add: decodeRequest_def)
qed

lemma posted_session:
  assumes "own_tokens mem_ops c" "Challenge pp g c co w = (Inr ch, w')" "instrumentationOptions c co = None"
    and "chFormat ch = 1" "\<not> contains_char (chToken ch) (CHR ''.'')"
    and "SolveChallenge ch = Some (Inr (enc_array (map itoa sols)))" "list_all (\<lambda>n. n < 2 ^ 53) sols"
    and "session (wClock w) c co" "23 \<le> length (wRandom w')"
    and "ascii (chToken ch)" "requestScope h r = Some (coScope co)"
    and "hBody r = post_body (chToken ch) (enc_array (map itoa sols))" "int (length (hBody r)) \<le> hMaxBody h"
  shows "\<exists>k w''. handleRedeem c h r w' = (Inr (success_response k), w'') \<and> kScope k = coScope co \<and> validates_once c k w''"
proof -
  obtain k w'' where k: "Redeem c (plain_request (chToken ch) (enc_array (map itoa sols))) \<lparr>roScope = coScope co, roSkipNonce = False\<rparr> w' = (Inr k, w'')"
    "kScope k = coScope co" "validates_once c k w''"
    using mem.stored_flow [OF assms(1-9)] by blast
  have "value_text json_depth (enc_array (map itoa sols))"
    unfolding depth_Suc(1) by (rule value_text_array) simp
  then have "decodeRequest (hMaxBody h) (hBody r) = Some (plain_request (chToken ch) (enc_array (map itoa sols)))"
    using decodeRequest_post [OF assms(10)] assms(12,13) by simp
  then have "handleRedeem c h r w' = (Inr (success_response k), w'')"
    using assms(11) k(1) by (simp add: handleRedeem_def catch_cases ret_def success_response_def)
  with k(2,3) show ?thesis by blast
qed

section \<open>Properties\<close>

text \<open>
  Property C8. The redemption endpoint always answers: on an in-memory store with sound challenges and
  23 bytes of entropy, a request with an unusable scope or body gets status 400 and changes nothing;
  any other request gets status 200, either with a token whose record, in the scope of the
  request, is the only one added to the store, or with one of the documented reasons, flagged
  as an instrumentation failure exactly when it is one, and no token added. Status 500 and panics
  do not occur.
\<close>

theorem redeem_endpoint_answers:
  assumes "own_tokens mem_ops c" "redeemable w"
  shows "\<exists>resp. fst (handleRedeem c h r w) = Inr resp \<and>
    (if rejected h r then hStatus resp = 400 \<and> snd (handleRedeem c h r w) = w
     else (\<exists>scope k. resp = success_response k \<and> requestScope h r = Some scope
             \<and> one_token (tokens (wStore w)) scope k (tokens (wStore (snd (handleRedeem c h r w)))))
        \<or> (\<exists>reason instr. resp = failure_response 200 reason instr
             \<and> reason \<in> set (if instr then instr_reasons else proof_reasons)
             \<and> tokens (wStore (snd (handleRedeem c h r w))) \<subseteq>\<^sub>m tokens (wStore w)))"
  by (rule handleRedeem_answers [OF assms])

definition example_post :: "string \<Rightarrow> string \<Rightarrow> http_request" where
  "example_post path body = \<lparr>hMethod = ''POST'', hPath = path, hPathScope = [], hCtxScope = None, hBody = body\<rparr>"

definition login_only :: handler_options where
  "login_only = NewHandler \<lparr>hMaxBody = 0, hScopes = Some [''login''], hRequireScope = True, hCustom = None\<rparr>"

theorem redeem_endpoint_answers_witness:
  "\<exists>resp. fst (handleRedeem (zero_options\<lparr>oStore := Some mem_ops\<rparr>) login_only (example_post ''/redeem'' ''{}'')
       (fresh_world NewMemoryStore (replicate 23 7) 1000)) = Inr resp \<and> hStatus resp = 400"
proof -
  have r: "rejected login_only (example_post ''/redeem'' ''{}'')"
    by (simp add: rejected_def requestScope_def login_only_def NewHandler_def example_post_def)
  show ?thesis
    using redeem_endpoint_answers [of "zero_options\<lparr>oStore := Some mem_ops\<rparr>" "fresh_world NewMemoryStore (replicate 23 7) 1000"
        login_only "example_post ''/redeem'' ''{}''"]
    unfolding if_P [OF r] by (auto simp: own_tokens_def zero_options_def redeemable_def fresh_world_def NewMemoryStore_def)
qed

text \<open>
  Property C10. A handler that requires a scope from an allow-list hands out no other token: whatever request
  arrives, by \<open>ServeHTTP\<close> or by a registered route, each record it adds to the store has an allowed scope.
\<close>

theorem scope_enforced:
  assumes "own_tokens mem_ops c" "hRequireScope h" "hScopes h = Some allowed" "allowed \<noteq> []" "served pp g c h r m"
    and "tokens (wStore (snd (m w))) key = Some record"
  shows "tokens (wStore w) key = Some record \<or> tScope record \<in> set allowed"
  by (rule served_scope [OF assms])

text \<open>A login challenge in the store, the request that redeems it, and the world after it.\<close>

lemma quote_codes_plain: "\<forall>c \<in> set s. c < 128 \<and> quote_ascii esc c = [c] \<Longrightarrow> quote_codes esc s = s"
proof (induction s)
  case (Cons c s)
  then show ?case by (subst quote_codes.simps) simp
qed (simp add: quote_codes.simps)

lemma example_body:
  "value_text json_depth (enc_array (map itoa [0]))" "length (post_body example_token (enc_array (map itoa [0]))) \<le> 65536"
proof -
  show "value_text json_depth (enc_array (map itoa [0]))"
    unfolding depth_Suc(1) by (rule value_text_array) simp
  have q: "quote_codes True (codes u) = codes u" if "u \<in> {''token'', ''solutions'', example_token}" for u
    using that by (intro quote_codes_plain) (auto simp: codes_def example_token_def quote_ascii_def)
  have "length (json_quote True u) = length u + 2" if "u \<in> {''token'', ''solutions'', example_token}" for u
    using q [OF that] by (simp add: json_quote_def quote_body_def codes_def)
  from this [of "''token''"] this [of "''solutions''"] this [of example_token]
  show "length (post_body example_token (enc_array (map itoa [0]))) \<le> 65536"
    by (simp add: post_body_def enc_object_def enc_string_def enc_array_def example_itoa example_token_def)
qed

definition login_post :: http_request where
  "login_post = example_post ''/login/redeem'' (post_body example_token (enc_array (map itoa [0])))"

definition login_world :: "memory_store world" where
  "login_world = fresh_world
     (NewMemoryStore\<lparr>challenges := [example_token \<mapsto>
        \<lparr>cCount = 1, cSize = 1, cDifficulty = 1, cScope = ''login'', cExpires = 1700000600000, cInstr = None\<rparr>]\<rparr>)
     (replicate 23 7) 1700000000000000000"

lemma login_only_simps:
  "hMaxBody login_only = 65536" "hScopes login_only = Some [''login'']" "hRequireScope login_only" "hCustom login_only = None"
  by (simp_all add: login_only_def NewHandler_def)

lemma ServeHTTP_login:
  "hMethod r = ''POST'' \<Longrightarrow> hPath r = ''/login/redeem'' \<Longrightarrow>
     ServeHTTP pp g c login_only r = handleRedeem c login_only (r\<lparr>hCtxScope := Some ''login''\<rparr>)"
  by (simp add: ServeHTTP_def Let_def trim_slashes_def login_only_def NewHandler_def)

theorem scope_enforced_witness:
  "\<exists>key record. tokens (wStore login_world) = Map.empty
     \<and> tokens (wStore (snd (ServeHTTP (\<lambda>_. True) (\<lambda>r io now. (Inr None, r)) example_options login_only login_post login_world))) key = Some record
     \<and> tScope record \<in> set [''login'']"
proof -
  let ?req = "plain_request example_token (enc_array (map itoa [0]))" and ?ro = "\<lparr>roScope = ''login'', roSkipNonce = False\<rparr>"
  have t: "ascii example_token" "length example_token = 50" "\<not> contains_char example_token (CHR ''.'')"
    by (simp_all add: example_token_def contains_char_def ascii_def)
  have v: "verifyFormat1 example_token 1 1 1 (map itoa [0]) = None"
    using example_digest by (simp add: verifyFormat1_def example_pair powMatches_def example_itoa)
  have p: "parseFormat1Solutions (enc_array (map itoa [0])) = Some (map itoa [0])"
    by (rule parseFormat1Solutions_itoa) simp
  have "redeemed_ok tokens example_options ?req ?ro login_world
      (cScope \<lparr>cCount = 1, cSize = 1, cDifficulty = 1, cScope = ''login'', cExpires = 1700000600000, cInstr = None\<rparr>) 0"
    by (rule mem.Redeem_stored_live [OF example_options_facts(1), where ss = "map itoa [0]"])
      (use t v p in \<open>simp_all add: plain_request_def login_world_def fresh_world_def NewMemoryStore_def unixMilli_def enc_array_def\<close>)
  then obtain k key w' where r: "Redeem example_options ?req ?ro login_world = (Inr k, w')" "tokens (wStore w') key = Some \<lparr>tScope = ''login'', tExpires = kExpires k\<rparr>"
    by (auto simp: redeemed_ok_def)
  have "decodeRequest 65536 (post_body example_token (enc_array (map itoa [0]))) = Some ?req"
    using t(1) example_body by (intro decodeRequest_post) simp_all
  then have "ServeHTTP (\<lambda>_. True) (\<lambda>r io now. (Inr None, r)) example_options login_only login_post login_world = (Inr (success_response k), w')"
    using r(1) by (simp add: ServeHTTP_login login_post_def example_post_def handleRedeem_def requestScope_def login_only_simps
        catch_cases ret_def success_response_def)
  with r(2) have m: "tokens (wStore (snd (ServeHTTP (\<lambda>_. True) (\<lambda>r io now. (Inr None, r)) example_options login_only login_post login_world))) key
      = Some \<lparr>tScope = ''login'', tExpires = kExpires k\<rparr>" by simp
  have "tScope \<lparr>tScope = ''login'', tExpires = kExpires k\<rparr> \<in> set [''login''] \<or> tokens (wStore login_world) key = Some \<lparr>tScope = ''login'', tExpires = kExpires k\<rparr>"
    using scope_enforced [OF example_options_facts(1), of login_only "[''login'']" "\<lambda>_. True" "\<lambda>r io now. (Inr None, r)" login_post
        "ServeHTTP (\<lambda>_. True) (\<lambda>r io now. (Inr None, r)) example_options login_only login_post" login_world key "\<lparr>tScope = ''login'', tExpires = kExpires k\<rparr>"] m
    by (auto simp: login_only_simps served_def)
  with m show ?thesis by (intro exI conjI) (auto simp: login_world_def fresh_world_def NewMemoryStore_def)
qed



text \<open>
  Property C12. An honest session over HTTP: the client posts the token of a stored challenge and the solution it
  found to the redemption endpoint, within the body limit and under the scope of the challenge; the
  answer is 200 with a token that carries the scope, validates once and is refused the second time.
\<close>

theorem posted_session_succeeds:
  assumes "own_tokens mem_ops c" "Challenge pp g c co w = (Inr ch, w')" "instrumentationOptions c co = None"
    and "chFormat ch = 1" "\<not> contains_char (chToken ch) (CHR ''.'')"
    and "SolveChallenge ch = Some (Inr (enc_array (map itoa sols)))" "list_all (\<lambda>n. n < 2 ^ 53) sols"
    and "session (wClock w) c co" "23 \<le> length (wRandom w')"
    and "ascii (chToken ch)" "requestScope h r = Some (coScope co)"
    and "hBody r = post_body (chToken ch) (enc_array (map itoa sols))" "int (length (hBody r)) \<le> hMaxBody h"
  shows "\<exists>k w''. handleRedeem c h r w' = (Inr (success_response k), w'') \<and> kScope k = coScope co \<and> validates_once c k w''"
  by (rule posted_session [OF assms])

theorem posted_session_succeeds_witness:
  "\<exists>w' k w''. Challenge (\<lambda>_. True) (\<lambda>r io now. (Inr None, r)) example_options zero_challenge_options example_world
       = (Inr (example_challenge 1700000600000), w')
    \<and> handleRedeem example_options (NewHandler \<lparr>hMaxBody = 0, hScopes = None, hRequireScope = False, hCustom = None\<rparr>)
        (example_post ''/redeem'' (post_body example_token (enc_array (map itoa [0])))) w' = (Inr (success_response k), w'')
    \<and> validates_once example_options k w''"
proof -
  obtain w' where r: "Challenge (\<lambda>_. True) (\<lambda>r io now. (Inr None, r)) example_options zero_challenge_options example_world
     = (Inr (example_challenge 1700000600000), w')" "23 \<le> length (wRandom w')"
    using example_runs by blast
  have s: "session (wClock example_world) example_options zero_challenge_options"
    unfolding session_def example_options_facts
    by (rule exI [of _ 1700000000000]) (simp add: example_world_def fresh_world_def unixMilli_def milliseconds_def)
  have t: "ascii example_token" "length example_token = 50" by (simp_all add: example_token_def ascii_def)
  let ?h = "NewHandler \<lparr>hMaxBody = 0, hScopes = None, hRequireScope = False, hCustom = None\<rparr>"
  let ?r = "example_post ''/redeem'' (post_body example_token (enc_array (map itoa [0])))"
  have q: "requestScope ?h ?r = Some (coScope zero_challenge_options)" "hBody ?r = post_body example_token (enc_array (map itoa [0]))"
    "int (length (hBody ?r)) \<le> hMaxBody ?h"
    using example_body(2) by (simp_all add: requestScope_def NewHandler_def example_post_def zero_challenge_options_def)
  from posted_session_succeeds [OF example_options_facts(1) r(1) example_options_facts(3) _ _ example_solved _ s r(2) _ q(1)] q(2,3)
  show ?thesis using r(1) t(1)
    by (auto simp: example_challenge_def example_token_def contains_char_def zero_challenge_def)
qed

end
