(* ===== verification/Server.thy ===== *)
theory Server
  imports Http
begin

text \<open>
  \<open>examples/server/main.go\<close>: how an application puts the parts together. \<open>server_main\<close> is its start,
  \<open>app\<close> the mux with its page, the routes of \<open>caphttp\<close> and the login endpoint that spends a verification
  token, \<open>app_run\<close> a history of requests. The listener is outside the model.
\<close>

section \<open>Definitions\<close>

definition server_options :: "byte list \<Rightarrow> 'st store_ops \<Rightarrow> rsw_keypair \<Rightarrow> 'st options" where
  "server_options secret store keypair =
     zero_options\<lparr>oSecret := secret, oStore := Some store, oFormat := 2, oProtocols := [ProtocolRSW], oRSWKeypair := Some keypair\<rparr>"

definition server_handler :: handler_options where
  "server_handler = NewHandler \<lparr>hMaxBody = 0, hScopes = Some [''login'', ''signup''], hRequireScope = True, hCustom = None\<rparr>"

text \<open>
  The token of a login request. The error of \<open>Decode\<close> is dropped: a member of the wrong type, like a body
  that is no object, leaves the field as it was.
\<close>

definition login_fields :: "string fields" where
  "login_fields = [(''capToken'', \<lambda>raw old. Some (case dec_string raw old of None \<Rightarrow> old | Some v \<Rightarrow> v))]"

definition login_token :: "http_request \<Rightarrow> string" where
  "login_token r =
     (case first_value (int (length (hBody r))) (hBody r) of
        None \<Rightarrow> []
      | Some raw \<Rightarrow> (case dec_struct login_fields raw [] of None \<Rightarrow> [] | Some token \<Rightarrow> token))"

definition http_error :: "string \<Rightarrow> int \<Rightarrow> http_response" where
  "http_error msg status =
     \<lparr>hStatus = status, hHeaders = [(''Content-Type'', ''text/plain; charset=utf-8''), (''X-Content-Type-Options'', ''nosniff'')],
      hText = msg @ [CHR 0x0A]\<rparr>"

definition logged_in :: http_response where
  "logged_in = \<lparr>hStatus = 200, hHeaders = [(''Content-Type'', ''text/plain; charset=utf-8'')], hText = ''logged in'' @ [CHR 0x0A]\<rparr>"

definition handleLogin :: "'st options \<Rightarrow> http_request \<Rightarrow> ('st, http_response) act" where
  "handleLogin c r =
     catch (Validate c (login_token r) \<lparr>voScope = ''login'', voKeep = False\<rparr>)
       (\<lambda>e. recovered e (http_error ''captcha backend unavailable'' 503))
       (\<lambda>ok. ret (if ok then logged_in else http_error ''captcha required'' 400))"

section \<open>The start\<close>

text \<open>
  What \<open>main\<close> does before it listens: the secret, the key pair, the store that \<open>REDIS_ADDR\<close> chooses, and
  \<open>New\<close>; an error is the one that \<open>log.Fatal\<close> reports. The answers of \<open>rsa.GenerateKey\<close> and the client of Redis are
  arguments; \<open>None\<close>: no key of the list had the wanted size.
\<close>

definition server_main ::
  "(int \<Rightarrow> bool) \<Rightarrow> 'st store_ops \<Rightarrow> 'st store_ops \<Rightarrow> string \<Rightarrow> (go_error + int \<times> int \<times> int) list \<Rightarrow> byte list
     \<Rightarrow> (go_error + 'st options) option" where
  "server_main probablyPrime memoryStore redisStore addr rsaKeys random =
     (case readFull 32 random of
        (Inl err, rest) \<Rightarrow> Some (Inl err)
      | (Inr secret, rest) \<Rightarrow>
          (case GenerateRSWKeypair (Some rest) 2048 rsaKeys of
             None \<Rightarrow> None
           | Some (Inl err) \<Rightarrow> Some (Inl err)
           | Some (Inr keypair) \<Rightarrow>
               let store = (if addr \<noteq> [] then redisStore else memoryStore)
               in Some (New probablyPrime memoryStore (server_options secret store keypair))))"

section \<open>The mux\<close>

definition page :: string where
  "page = ''<!doctype html><html><head><meta charset=\"utf-8\">'' @ [CHR 0x0A]
     @ ''<script src=\"https://cdn.jsdelivr.net/npm/@cap.js/widget@0.1.56\"></script></head>'' @ [CHR 0x0A]
     @ ''<body style=\"font-family:system-ui;padding:2rem\">'' @ [CHR 0x0A]
     @ ''<h1>capgo demo</h1>'' @ [CHR 0x0A]
     @ ''<cap-widget id=\"cap\" data-cap-api-endpoint=\"/api/cap/login/\"></cap-widget>'' @ [CHR 0x0A]
     @ ''<pre id=\"out\"></pre>'' @ [CHR 0x0A]
     @ ''<script>'' @ [CHR 0x0A]
     @ ''document.getElementById(\"cap\").addEventListener(\"solve\", async (e) => {'' @ [CHR 0x0A]
     @ ''  const r = await fetch(\"/api/login\", {method:\"POST\",headers:{\"content-type\":\"application/json\"},body:JSON.stringify({capToken:e.detail.token})});'' @ [CHR 0x0A]
     @ ''  document.getElementById(\"out\").textContent = await r.text();'' @ [CHR 0x0A]
     @ ''});'' @ [CHR 0x0A]
     @ ''</script></body></html>''"

definition page_response :: http_response where
  "page_response = \<lparr>hStatus = 200, hHeaders = [(''Content-Type'', ''text/html; charset=utf-8'')], hText = page\<rparr>"

text \<open>
  A path that the mux takes as it is: it starts with a slash and has no empty segment before its end and
  no segment of dots. Any other it answers itself, with a redirect (or 400 for \<open>*\<close>); \<open>CONNECT\<close> requests,
  whose paths it leaves alone, are outside the model.
\<close>

definition clean_path :: "string \<Rightarrow> bool" where
  "clean_path path \<longleftrightarrow>
     (case split_on (CHR ''/'') path of
        first # segs \<Rightarrow>
          first = [] \<and> segs \<noteq> [] \<and> list_all (\<lambda>s. s \<notin> set [[], ''.'', ''..'']) (butlast segs) \<and> last segs \<notin> set [''.'', ''..'']
      | [] \<Rightarrow> False)"

text \<open>What the mux answers when only other methods have a pattern for the path.\<close>

definition mux_405 :: "string \<Rightarrow> http_response" where
  "mux_405 allow =
     (let r = http_error ''Method Not Allowed'' 405 in r\<lparr>hHeaders := (''Allow'', allow) # hHeaders r\<rparr>)"

text \<open>
  The routes. \<open>GET /\<close> takes every path, and \<open>HEAD\<close> requests as well, whose answers have no body. A request
  arrives with no path value and no scope in its context. \<open>None\<close>: answered before any route is looked at.
\<close>

definition app ::
  "(int \<Rightarrow> bool) \<Rightarrow> generator \<Rightarrow> 'st options \<Rightarrow> http_request \<Rightarrow> ('st, http_response) act option" where
  "app probablyPrime builtin c r0 =
     (let r = r0\<lparr>hPathScope := [], hCtxScope := None\<rparr>
      in if \<not> clean_path (hPath r) then None
         else if hMethod r = ''GET'' then Some (ret page_response)
         else if hMethod r = ''HEAD'' then Some (ret (page_response\<lparr>hText := []\<rparr>))
         else (case serve_registered probablyPrime builtin c server_handler ''/api/cap'' r of
                 Some m \<Rightarrow> Some m
               | None \<Rightarrow>
                   if hPath r = ''/api/login'' \<and> hMethod r = ''POST'' then Some (handleLogin c r)
                   else Some (ret (mux_405
                     (if hPath r = ''/api/login'' \<or> route (Register server_handler ''/api/cap'') (hPath r) \<noteq> None
                      then ''GET, HEAD, POST'' else ''GET, HEAD'')))))"

text \<open>A history: each request with its answer, a panic, or nothing when no route was looked at.\<close>

fun app_run ::
  "(int \<Rightarrow> bool) \<Rightarrow> generator \<Rightarrow> 'st options \<Rightarrow> http_request list \<Rightarrow> 'st world
     \<Rightarrow> (http_request \<times> (go_error + http_response) option) list \<times> 'st world" where
  "app_run pp g c [] w = ([], w)"
| "app_run pp g c (r # rs) w =
     (case app pp g c r of
        None \<Rightarrow> (let rest = app_run pp g c rs w in ((r, None) # fst rest, snd rest))
      | Some m \<Rightarrow> (let rest = app_run pp g c rs (snd (m w)) in ((r, Some (fst (m w))) # fst rest, snd rest)))"

text \<open>The answers to a sequence of login requests.\<close>

fun logins :: "'st options \<Rightarrow> http_request list \<Rightarrow> 'st world \<Rightarrow> (http_request \<times> (go_error + http_response)) list" where
  "logins c [] w = []"
| "logins c (r # rs) w = (r, fst (handleLogin c r w)) # logins c rs (snd (handleLogin c r w))"

section \<open>Lemmas\<close>

lemma handleLogin_in: "fst (handleLogin c r w) = Inr logged_in \<longleftrightarrow>
    fst (Validate c (login_token r) \<lparr>voScope = ''login'', voKeep = False\<rparr> w) = Inr True"
  by (auto simp: handleLogin_def catch_cases recovered_def ret_def throw_def logged_in_def http_error_def
      split: sum.splits go_error.splits if_splits)

lemma snd_handleLogin: "snd (handleLogin c r w) = snd (Validate c (login_token r) \<lparr>voScope = ''login'', voKeep = False\<rparr> w)"
  by (simp add: handleLogin_def)

definition admitted :: "string \<Rightarrow> http_request \<times> (go_error + http_response) \<Rightarrow> bool" where
  "admitted key x \<longleftrightarrow> snd x = Inr logged_in \<and> TokenKey (login_token (fst x)) = Some key"

lemma logins_bounded:
  assumes "own_tokens mem_ops c"
  shows "count_if (admitted key) (logins c rs w) \<le> (if tokens (wStore w) key = None then 0 else 1)"
proof (induction rs arbitrary: w)
  case (Cons r rs)
  let ?v = "Validate c (login_token r) \<lparr>voScope = ''login'', voKeep = False\<rparr>" and ?w = "snd (handleLogin c r w)"
  have le: "tokens (wStore ?w) \<subseteq>\<^sub>m tokens (wStore w)"
    using mem.tok_methods(3) [OF assms, of "login_token r" "\<lparr>voScope = ''login'', voKeep = False\<rparr>"] by (simp add: within_def snd_handleLogin)
  show ?case
  proof (cases "admitted key (r, fst (handleLogin c r w))")
    case True
    then have v: "fst (?v w) = Inr True" "TokenKey (login_token r) = Some key" by (simp_all add: admitted_def handleLogin_in)
    have "tokens (wStore w) key \<noteq> None"
      using validD(1) [OF mem.Validate_needs [OF assms v(2), of "\<lparr>voScope = ''login'', voKeep = False\<rparr>"], of w True] v(1) by auto
    moreover have "tokens (wStore ?w) key = None"
      using validD(1) [OF mem.Validate_spends [OF assms v(2)], of "\<lparr>voScope = ''login'', voKeep = False\<rparr>" w True] v(1)
      by (simp add: snd_handleLogin)
    ultimately show ?thesis using Cons.IH [of ?w] True by simp
  next
    case False
    have "tokens (wStore w) key = None \<Longrightarrow> tokens (wStore ?w) key = None" using le by (metis domIff map_le_def)
    then show ?thesis using Cons.IH [of ?w] False by (cases "tokens (wStore w) key") (auto split: if_splits)
  qed
qed simp

lemma login_live:
  assumes "own_tokens mem_ops c" "TokenKey (login_token r) = Some key" "tokens (wStore w) key = Some \<lparr>tScope = ''login'', tExpires = e\<rparr>"
    and "\<And>i. unixMilli (wClock w i) < e"
  shows "admitted key (r, fst (handleLogin c r w))"
proof -
  have "login_token r \<noteq> []" using assms(2) by (auto simp: TokenKey_def)
  from mem.Validate_live [OF assms(1) this assms(2,3), of "\<lparr>voScope = ''login'', voKeep = False\<rparr>"] assms(4)
  have "fst (Validate c (login_token r) \<lparr>voScope = ''login'', voKeep = False\<rparr> w) = Inr True" by auto
  then show ?thesis using assms(2) by (simp add: admitted_def handleLogin_in)
qed

section \<open>Lemmas: the whole application\<close>

text \<open>The start: an error can only come from the entropy or from \<open>rsa.GenerateKey\<close>.\<close>

lemma server_main_options:
  assumes "server_main pp memory redis addr rsaKeys random = Some (Inr c)"
  obtains secret keypair where "c = with_defaults memory (server_options secret (if addr \<noteq> [] then redis else memory) keypair)"
proof -
  obtain secret keypair where "New pp memory (server_options secret (if addr \<noteq> [] then redis else memory) keypair) = Inr c"
    using assms unfolding server_main_def Let_def by (auto split: sum.splits prod.splits option.splits)
  then show thesis using that by (simp add: New_accepts_iff)
qed

lemma server_main_own:
  assumes "server_main pp memory redis addr rsaKeys random = Some (Inr c)"
  shows "own_tokens (if addr \<noteq> [] then redis else memory) c"
  by (rule server_main_options [OF assms])
    (simp add: own_tokens_def with_defaults_def default_defs server_options_def zero_options_def)

text \<open>With 32 bytes of entropy and a sound key, \<open>New\<close> accepts what \<open>main\<close> gives it.\<close>

lemma server_main_starts:
  assumes "32 \<le> length random" "bitLen (p * q) = 2048" "pp p" "pp q" "p \<noteq> q"
  shows "\<exists>c. server_main pp memory redis addr [Inr (p * q, p, q)] random = Some (Inr c)"
proof -
  let ?k = "\<lparr>kN = Some (p * q), kP = Some p, kQ = Some q, kBits = 2048\<rparr>" and ?s = "if addr \<noteq> [] then redis else memory"
  have k: "keypair_Validate pp (Some ?k) = Inr ()" using assms by (simp add: keypair_Validate_def)
  have "config_ok pp (with_defaults memory (server_options (take 32 random) ?s ?k))"
    using assms(1) k
    by (cases random) (simp_all add: config_ok_def with_defaults_def default_defs server_options_def zero_options_def or_default_def const_defs
        validatePoWParams_None known_protocol_def)
  then show ?thesis
    using assms(1,2) by (auto simp: server_main_def readFull_def GenerateRSWKeypair_def New_accepts_iff)
qed

text \<open>A token record of the scope \<open>login\<close>.\<close>

definition login_record :: "string \<Rightarrow> memory_store \<Rightarrow> bool" where
  "login_record key s \<longleftrightarrow> (case tokens s key of None \<Rightarrow> False | Some rec \<Rightarrow> tScope rec = ''login'')"

lemma login_record_le:
  assumes "tokens s' \<subseteq>\<^sub>m tokens s" "login_record key s'"
  shows "login_record key s"
proof -
  obtain rec where "tokens s' key = Some rec" "tScope rec = ''login''"
    using assms(2) by (auto simp: login_record_def split: option.splits)
  then show ?thesis using assms(1) by (auto simp: login_record_def map_le_def dom_def split: option.splits)
qed

text \<open>The login endpoint admits a token only for such a record, and removes it.\<close>

lemma Validate_login_needs:
  assumes "own_tokens mem_ops c" "TokenKey token = Some key"
  shows "valid (\<lambda>s. \<not> login_record key s) (Validate c token \<lparr>voScope = ''login'', voKeep = keep\<rparr>) (\<lambda>ok s. \<not> ok) (\<lambda>e s. True)"
proof -
  have "valid (\<lambda>s. \<not> login_record key s) (mapError h (withStore (ConsumeToken (capStore c) key ''login'' now keep)))
      (\<lambda>found s. found = None) (\<lambda>e s. True)" for h now
    using assms by (intro valid_mapError valid_store) (auto simp: login_record_def mem_ConsumeToken_def Let_def split: option.splits if_splits)
  then show ?thesis unfolding Validate_def
    using assms
    by (auto intro!: valid_within_andThen [where R = "\<lambda>s s'. tokens s' \<subseteq>\<^sub>m tokens s", OF mem.tok_methods(1) [OF assms(1)]] valid_ret valid_quiet_andThen [where m = readNow]
        valid_andThen [where M = "\<lambda>found s. found = None"] acts dest: login_record_le)
qed

lemma login_step:
  assumes "own_tokens mem_ops c" "fst (handleLogin c r w) = Inr logged_in" "TokenKey (login_token r) = Some key"
  shows "login_record key (wStore w)" "\<not> login_record key (wStore (snd (handleLogin c r w)))"
proof -
  have v: "fst (Validate c (login_token r) \<lparr>voScope = ''login'', voKeep = False\<rparr> w) = Inr True"
    using assms(2) by (simp add: handleLogin_in)
  show "login_record key (wStore w)"
    using validD(1) [OF Validate_login_needs [OF assms(1,3)], of w False True] v by auto
  have "tokens (wStore (snd (handleLogin c r w))) key = None"
    using validD(1) [OF mem.Validate_spends [OF assms(1,3)], of "\<lparr>voScope = ''login'', voKeep = False\<rparr>" w True] v
    by (simp add: snd_handleLogin)
  then show "\<not> login_record key (wStore (snd (handleLogin c r w)))" by (simp add: login_record_def)
qed

lemma login_tokens:
  assumes "own_tokens mem_ops c"
  shows "tokens (wStore (snd (handleLogin c r w))) \<subseteq>\<^sub>m tokens (wStore w)"
  using mem.tok_methods(3) [OF assms, of "login_token r" "\<lparr>voScope = ''login'', voKeep = False\<rparr>"]
  by (simp add: within_def snd_handleLogin)

text \<open>A record of the scope \<open>login\<close> appears only when the redemption endpoint of that scope returns its token.\<close>

lemma handleRedeem_sells:
  assumes "own_tokens mem_ops c" "\<not> login_record key (wStore w)" "login_record key (wStore (snd (handleRedeem c server_handler r w)))"
  obtains k where "requestScope server_handler r = Some ''login''" "fst (handleRedeem c server_handler r w) = Inr (success_response k)"
    "TokenKey (kToken k) = Some key"
proof -
  obtain scope req where q: "requestScope server_handler r = Some scope" "decodeRequest (hMaxBody server_handler) (hBody r) = Some req"
    using assms(2,3) by (cases "requestScope server_handler r"; cases "decodeRequest (hMaxBody server_handler) (hBody r)")
      (auto simp: handleRedeem_def ret_def)
  let ?m = "Redeem c req \<lparr>roScope = scope, roSkipNonce = False\<rparr>"
  have h: "handleRedeem c server_handler r w = catch ?m (\<lambda>e. recovered e (redeem_error e)) (\<lambda>k. ret (success_response k)) w"
    by (simp add: handleRedeem_def q success_response_def)
  note tok = validD [OF mem.Redeem_one [OF assms(1), of "tokens (wStore w)" req "\<lparr>roScope = scope, roSkipNonce = False\<rparr>"], of w]
  obtain k where k: "fst (?m w) = Inr k"
    using tok(2) login_record_le [of "wStore (snd (?m w))" "wStore w" key] assms(2,3) by (cases "fst (?m w)") (auto simp: h)
  have scope: "scope \<noteq> []" using scope_allowed [OF q(1), of "[''login'', ''signup'']"] by (simp add: server_handler_def NewHandler_def)
  from tok(1) [OF _ k] obtain u where u: "TokenKey (kToken k) = Some u" "tokens (wStore (snd (?m w))) u = Some \<lparr>tScope = kScope k, tExpires = kExpires k\<rparr>"
      "(tokens (wStore (snd (?m w))))(u := None) \<subseteq>\<^sub>m tokens (wStore w)" "kScope k = scope"
    using scope by (auto simp: one_token_def)
  have "key = u"
  proof (rule ccontr)
    assume "key \<noteq> u"
    then have "login_record key ((wStore (snd (?m w)))\<lparr>tokens := (tokens (wStore (snd (?m w))))(u := None)\<rparr>)"
      using assms(3) by (simp add: login_record_def h)
    then show False using login_record_le [of _ "wStore w" key] u(3) assms(2) by fastforce
  qed
  with u assms(3) have "kScope k = ''login''" by (simp add: login_record_def h)
  then show thesis using that q(1) u \<open>key = u\<close> k by (simp add: h catch_cases ret_def)
qed

lemma match_segments_Some:
  "match_segments [] ss = Some x \<longleftrightarrow> ss = [] \<and> x = []"
  "match_segments (p # ps) ss = Some x \<longleftrightarrow> (\<exists>s ss'. ss = s # ss' \<and>
     (if p = ''{scope}'' then s \<noteq> [] \<and> x = s \<and> match_segments ps ss' \<noteq> None else p = s \<and> match_segments ps ss' = Some x))"
  by (cases ss; auto)+

lemma login_route:
  assumes "route (Register server_handler ''/api/cap'') path = Some (AnswerRedeem, ''login'')"
  shows "path = ''/api/cap/login/redeem''"
proof -
  have "split_on (CHR ''/'') path = [[], ''api'', ''cap'', ''login'', ''redeem'']"
    using assms
    by (auto simp: Register_def Let_def trim_slash_suffix_def server_handler_def NewHandler_def match_segments_Some split: option.splits)
  then show ?thesis by (auto dest: split_on_join)
qed

text \<open>Admissions and sales of a history.\<close>

definition app_admitted :: "string \<Rightarrow> http_request \<times> (go_error + http_response) option \<Rightarrow> bool" where
  "app_admitted key x \<longleftrightarrow> hMethod (fst x) = ''POST'' \<and> hPath (fst x) = ''/api/login''
     \<and> snd x = Some (Inr logged_in) \<and> TokenKey (login_token (fst x)) = Some key"

definition app_sold :: "string \<Rightarrow> http_request \<times> (go_error + http_response) option \<Rightarrow> bool" where
  "app_sold key x \<longleftrightarrow> hMethod (fst x) = ''POST'' \<and> hPath (fst x) = ''/api/cap/login/redeem''
     \<and> (\<exists>k. snd x = Some (Inr (success_response k)) \<and> TokenKey (kToken k) = Some key)"

text \<open>The routes that answer a request.\<close>

lemma route_login: "route (Register server_handler ''/api/cap'') ''/api/login'' = None"
  by (simp add: Register_def Let_def trim_slash_suffix_def server_handler_def NewHandler_def)

lemma app_cases:
  assumes "app pp g c r0 = Some m"
  obtains resp where "m = ret resp" "\<not> (hMethod r0 = ''POST'' \<and> hPath r0 = ''/api/login'')"
  | "m = handleLogin c (r0\<lparr>hPathScope := [], hCtxScope := None\<rparr>)" "hMethod r0 = ''POST''" "hPath r0 = ''/api/login''"
  | scope where "m = handleChallenge pp g c server_handler (r0\<lparr>hCtxScope := None, hPathScope := scope\<rparr>)" "hPath r0 \<noteq> ''/api/login''"
  | scope where "m = handleRedeem c server_handler (r0\<lparr>hCtxScope := None, hPathScope := scope\<rparr>)" "hMethod r0 = ''POST''"
      "route (Register server_handler ''/api/cap'') (hPath r0) = Some (AnswerRedeem, scope)"
  using assms route_login
  by (auto simp: app_def Let_def serve_registered_def split: if_splits option.splits action.splits)

lemma app_step:
  assumes "own_tokens mem_ops c" "app pp g c r = Some m"
  shows "(if app_admitted key (r, Some (fst (m w))) then 1 else 0) + (if login_record key (wStore (snd (m w))) then 1 else 0)
     \<le> (if app_sold key (r, Some (fst (m w))) then 1 else 0) + (if login_record key (wStore w) then 1 else (0 :: nat))"
  using assms(2)
proof (cases rule: app_cases)
  case (1 resp)
  then show ?thesis by (auto simp: app_admitted_def ret_def)
next
  case 2
  let ?r = "r\<lparr>hPathScope := [], hCtxScope := None\<rparr>"
  have t: "login_token ?r = login_token r" by (simp add: login_token_def)
  show ?thesis
    using login_step [OF assms(1), of ?r w key] login_record_le [OF login_tokens [OF assms(1)], of key ?r w] 2(1)
    by (auto simp: app_admitted_def t)
next
  case (3 scope)
  then show ?thesis
    using login_record_le [OF handleChallenge_tokens [OF assms(1)], of key pp g server_handler "r\<lparr>hCtxScope := None, hPathScope := scope\<rparr>" w]
    by (auto simp: app_admitted_def)
next
  case (4 scope)
  let ?r = "r\<lparr>hCtxScope := None, hPathScope := scope\<rparr>"
  have no: "\<not> app_admitted key (r, x)" for x using 4(3) route_login by (auto simp: app_admitted_def)
  have "app_sold key (r, Some (fst (m w)))" if new: "\<not> login_record key (wStore w)" "login_record key (wStore (snd (m w)))"
  proof -
    obtain k where k: "requestScope server_handler ?r = Some ''login''" "fst (m w) = Inr (success_response k)"
        "TokenKey (kToken k) = Some key"
      using handleRedeem_sells [OF assms(1), of key w ?r] new 4(1) by metis
    have "scope = ''login''" using k(1) by (auto simp: requestScope_def Let_def server_handler_def NewHandler_def split: if_splits)
    then have "hPath r = ''/api/cap/login/redeem''" using 4(3) login_route by blast
    then show ?thesis using 4(2) k by (auto simp: app_sold_def)
  qed
  then show ?thesis using no by auto
qed

lemma app_run_bounded:
  assumes "own_tokens mem_ops c"
  shows "count_if (app_admitted key) (fst (app_run pp g c rs w)) + (if login_record key (wStore (snd (app_run pp g c rs w))) then 1 else 0)
     \<le> count_if (app_sold key) (fst (app_run pp g c rs w)) + (if login_record key (wStore w) then 1 else 0)"
proof (induction rs arbitrary: w)
  case (Cons r rs)
  show ?case
  proof (cases "app pp g c r")
    case None
    then show ?thesis using Cons.IH [of w] by (simp add: Let_def app_admitted_def app_sold_def)
  next
    case (Some m)
    then show ?thesis using Cons.IH [of "snd (m w)"] app_step [OF assms Some, of key w] by (simp add: Let_def)
  qed
qed simp

section \<open>Properties\<close>

text \<open>
  Property C33. The demo application lets a token in exactly once: while a token issued for the scope \<open>login\<close> is in the
  store and has not expired, the first login request that carries it is answered \<open>logged in\<close>, and no later
  request is, however many follow.
\<close>

theorem login_admits_once:
  assumes "own_tokens mem_ops c" "TokenKey (login_token r) = Some key" "tokens (wStore w) key = Some \<lparr>tScope = ''login'', tExpires = e\<rparr>"
    and "\<And>i. unixMilli (wClock w i) < e"
  shows "fst (handleLogin c r w) = Inr logged_in \<and> count_if (admitted key) (logins c (r # rs) w) = 1"
proof -
  have a: "admitted key (r, fst (handleLogin c r w))" by (rule login_live [OF assms])
  then have "1 \<le> count_if (admitted key) (logins c (r # rs) w)" by simp
  moreover have "count_if (admitted key) (logins c (r # rs) w) \<le> 1"
    using logins_bounded [OF assms(1), of key "r # rs" w] assms(3) by simp
  ultimately show ?thesis using a by (simp add: admitted_def)
qed

definition login_request :: http_request where
  "login_request = example_post ''/api/login'' (enc_object [(''capToken'', enc_string ''ab:cd'')])"

theorem login_admits_once_witness:
  "count_if (admitted (''ab:'' @ sha256Hex ''cd''))
     (logins (server_options [1] mem_ops \<lparr>kN = None, kP = None, kQ = None, kBits = 0\<rparr>) [login_request, login_request]
       (fresh_world (NewMemoryStore\<lparr>tokens := [''ab:'' @ sha256Hex ''cd'' \<mapsto> \<lparr>tScope = ''login'', tExpires = 5000\<rparr>]\<rparr>) [] 1000)) = 1"
proof -
  let ?c = "server_options [1] mem_ops \<lparr>kN = None, kP = None, kQ = None, kBits = 0\<rparr>"
  let ?w = "fresh_world (NewMemoryStore\<lparr>tokens := [''ab:'' @ sha256Hex ''cd'' \<mapsto> \<lparr>tScope = ''login'', tExpires = 5000\<rparr>]\<rparr>) [] 1000"
  have own: "own_tokens mem_ops ?c" by (simp add: own_tokens_def server_options_def zero_options_def)
  let ?b = "enc_object [(''capToken'', enc_string ''ab:cd'')]"
  have v: "\<forall>(k, v) \<in> set [(''capToken'', enc_string ''ab:cd'')]. value_text json_depth v" by simp
  have "first_value (int (length ?b)) ?b = Some ?b" by (rule first_value_text [OF value_text_object [OF v]]) simp
  then have "login_token login_request = ''ab:cd''"
    unfolding login_token_def login_request_def example_post_def http_request.simps
    by (simp add: dec_struct_enc [OF v] login_fields_def fold_name_def fold_rune_ascii)
  then have k: "TokenKey (login_token login_request) = Some (''ab:'' @ sha256Hex ''cd'')" by (simp add: TokenKey_def contains_char_def)
  have "tokens (wStore ?w) (''ab:'' @ sha256Hex ''cd'') = Some \<lparr>tScope = ''login'', tExpires = 5000\<rparr>" "\<And>i. unixMilli (wClock ?w i) < 5000"
    by (simp_all add: fresh_world_def unixMilli_def)
  from login_admits_once [OF own k this] show ?thesis by blast
qed

text \<open>
  Property C11. The demo application, from its start: whatever requests arrive at a server that \<open>main\<close> started with the
  in-memory store, the login endpoint answers \<open>logged in\<close> to the tokens of one key at most as often as
  the redemption endpoint of the scope \<open>login\<close> sold a token of that key. A token bought for
  \<open>signup\<close>, or made up, never logs anybody in.
\<close>

theorem app_logins_sold:
  assumes "server_main pp mem_ops redis [] rsaKeys random = Some (Inr c)" "wStore w = NewMemoryStore"
  shows "count_if (app_admitted key) (fst (app_run pp g c rs w)) \<le> count_if (app_sold key) (fst (app_run pp g c rs w))"
  using app_run_bounded [OF server_main_own [OF assms(1), unfolded simp_thms if_False], of key pp g rs w] assms(2)
  by (simp add: login_record_def NewMemoryStore_def)

theorem app_logins_sold_witness:
  "\<exists>c. server_main (\<lambda>_. True) mem_ops mem_ops [] [Inr (2 ^ 1024 * 2 ^ 1023, 2 ^ 1024, 2 ^ 1023)] (replicate 40 7) = Some (Inr c)
    \<and> count_if (app_admitted (''ab:'' @ sha256Hex ''cd''))
        (fst (app_run (\<lambda>_. True) (\<lambda>r io now. (Inr None, r)) c [login_request, login_request\<lparr>hMethod := ''GET''\<rparr>, login_request] (fresh_world NewMemoryStore [] 1000))) = 0"
proof -
  have b: "bitLen (2 ^ 1024 * 2 ^ 1023) = 2048" by (simp only: power_add [symmetric] bitLen_power)
  obtain c where c: "server_main (\<lambda>_. True) mem_ops mem_ops [] [Inr (2 ^ 1024 * 2 ^ 1023, 2 ^ 1024, 2 ^ 1023)] (replicate 40 7) = Some (Inr c)"
    using server_main_starts [OF _ b, of "replicate 40 7" "\<lambda>_. True" mem_ops mem_ops "[]"] by auto
  let ?h = "fst (app_run (\<lambda>_. True) (\<lambda>r io now. (Inr None, r)) c [login_request, login_request\<lparr>hMethod := ''GET''\<rparr>, login_request] (fresh_world NewMemoryStore [] 1000))"
  have "map fst ?h = [login_request, login_request\<lparr>hMethod := ''GET''\<rparr>, login_request]" by (simp add: Let_def split: option.split)
  then have "\<not> app_sold key x" if "x \<in> set ?h" for key x
  proof -
    have "fst x \<in> set (map fst ?h)" using that by simp
    then show ?thesis unfolding \<open>map fst ?h = _\<close> by (auto simp: app_sold_def login_request_def example_post_def)
  qed
  then have "count_if (app_sold (''ab:'' @ sha256Hex ''cd'')) ?h = 0" by (simp add: count_if_def filter_empty_conv)
  moreover have "wStore (fresh_world NewMemoryStore [] 1000) = NewMemoryStore" by (simp add: fresh_world_def)
  ultimately show ?thesis using app_logins_sold [OF c] c by (metis le_zero_eq)
qed

end
