(* ===== verification/Vectors.thy ===== *)
theory Vectors
  imports Signed_Flow Http Generate Keypair
begin

text \<open>
  \<open>internal/tools/emit_vectors.go\<close>: a tool that makes challenges, solves them with the Go client and prints
  them for another implementation to check. The key pairs of \<open>rsa.GenerateKey\<close> and \<open>compress/flate\<close> are arguments;
  \<open>None\<close> means that the search for a key or for a nonce does not end.
\<close>

section \<open>Making a vector\<close>

text \<open>\<open>must\<close>: an error becomes a panic.\<close>

definition panicked :: "go_error \<Rightarrow> go_error" where
  "panicked e = (case e of EPanic s \<Rightarrow> EPanic s | _ \<Rightarrow> EPanic (error_text e))"

definition must :: "go_error + 'a \<Rightarrow> go_error + 'a" where
  "must r = (case r of Inl e \<Rightarrow> Inl (panicked e) | Inr x \<Rightarrow> Inr x)"

record vector =
  vOptions :: "memory_store options"
  vScope :: string
  vChallenge :: challenge
  vSolutions :: string
  vWorld :: "memory_store world"

text \<open>
  A \<open>Cap\<close> of its own, with a store of its own and the clock stopped at \<open>now\<close>; its challenge; the solutions.
\<close>

definition make_vector ::
  "(int \<Rightarrow> bool) \<Rightarrow> generator \<Rightarrow> memory_store options \<Rightarrow> string \<Rightarrow> byte list \<Rightarrow> int \<Rightarrow> (go_error + vector) option" where
  "make_vector probablyPrime builtin opts scope random now =
     (case must (New probablyPrime mem_ops opts) of
        Inl e \<Rightarrow> Some (Inl e)
      | Inr c \<Rightarrow>
          (case Challenge probablyPrime builtin c (zero_challenge_options\<lparr>coScope := scope\<rparr>) (fresh_world NewMemoryStore random now) of
             (Inl e, w) \<Rightarrow> Some (Inl (panicked e))
           | (Inr ch, w) \<Rightarrow>
               (case SolveChallenge ch of
                  None \<Rightarrow> None
                | Some (Inl e) \<Rightarrow> Some (Inl (panicked e))
                | Some (Inr solutions) \<Rightarrow>
                    Some (Inr \<lparr>vOptions = c, vScope = scope, vChallenge = ch, vSolutions = solutions, vWorld = w\<rparr>))))"

text \<open>The four scripts: with and without the checks for automated browsers, plain and obfuscated.\<close>

fun make_scripts ::
  "generator \<Rightarrow> int \<Rightarrow> (bool \<times> int) list \<Rightarrow> byte list \<Rightarrow> (go_error + (bool \<times> int \<times> instrumentation) list) \<times> byte list" where
  "make_scripts builtin now [] random = (Inr [], random)"
| "make_scripts builtin now ((block, level) # rest) random =
     (case builtin random \<lparr>BlockAutomatedBrowsers = block, ObfuscationLevel = level, optTTL = 60 * 10 ^ 9\<rparr> now of
        (Inl e, random') \<Rightarrow> (Inl (panicked e), random')
      | (Inr None, random') \<Rightarrow> (Inl (EPanic ''invalid memory address or nil pointer dereference''), random')
      | (Inr (Some i), random') \<Rightarrow>
          (case make_scripts builtin now rest random' of
             (Inl e, random'') \<Rightarrow> (Inl e, random'')
           | (Inr is, random'') \<Rightarrow> (Inr ((block, level, i) # is), random'')))"

section \<open>Printing\<close>

text \<open>\<open>SetIndent\<close> on compact JSON: whether in a string, after a backslash, right after an opening bracket; how deep.\<close>

definition new_line :: "nat \<Rightarrow> string" where
  "new_line depth = CHR 0x0A # replicate depth (CHR '' '')"

fun indent_json :: "bool \<Rightarrow> bool \<Rightarrow> bool \<Rightarrow> nat \<Rightarrow> string \<Rightarrow> string" where
  "indent_json quoted escaped opened depth [] = []"
| "indent_json quoted escaped opened depth (c # cs) =
     (if quoted then
        c # indent_json (escaped \<or> c \<noteq> CHR 0x22) (\<not> escaped \<and> c = CHR 0x5C) False depth cs
      else if c = CHR ''}'' \<or> c = CHR '']'' then
        (if opened then c # indent_json False False False depth cs
         else new_line (depth - 1) @ c # indent_json False False False (depth - 1) cs)
      else
        (let depth' = (if opened then Suc depth else depth)
         in (if opened then new_line depth' else []) @
            (if c = CHR ''{'' \<or> c = CHR ''['' then c # indent_json False False True depth' cs
             else if c = CHR '','' then c # new_line depth' @ indent_json False False False depth' cs
             else if c = CHR '':'' then c # CHR '' '' # indent_json False False False depth' cs
             else c # indent_json (c = CHR 0x22) False False depth' cs)))"

definition vector_json :: "vector \<Rightarrow> string option" where
  "vector_json v =
     map_option (\<lambda>ch. enc_object [(''challenge'', ch), (''scope'', enc_string (vScope v)), (''solutions'', compact False False (vSolutions v))])
       (challenge_body (vChallenge v))"

definition script_json :: "bool \<times> int \<times> instrumentation \<Rightarrow> string" where
  "script_json s =
     (case s of (block, level, i) \<Rightarrow>
        enc_object [(''blob'', enc_string (iBlob i)), (''block'', enc_bool block), (''level'', itoa level), (''meta'', enc_meta (iMeta i))])"

definition print_vectors ::
  "(int \<Rightarrow> bool) \<Rightarrow> byte list \<Rightarrow> rsw_keypair \<Rightarrow> vector \<Rightarrow> vector \<Rightarrow> (bool \<times> int \<times> instrumentation) list \<Rightarrow> vector \<Rightarrow> go_error + string" where
  "print_vectors probablyPrime secret keypair v1 v2 scripts v3 =
     (case (vector_json v1, vector_json v3, vector_json v2, keypair_MarshalJSON probablyPrime (Some keypair)) of
        (Some j1, Some j3, Some j2, Inr k) \<Rightarrow>
          Inr (indent_json False False False 0
            (enc_object [(''format1'', j1), (''format1instr'', j3), (''format2'', j2), (''instrumentation'', enc_array (map script_json scripts)),
              (''keypair'', compact False False k), (''secretHex'', enc_string (hex_encode secret))]) @ [CHR 0x0A])
      | _ \<Rightarrow> Inl (EPanic ''json''))"

section \<open>The tool\<close>

definition tool_secret :: "byte list" where
  "tool_secret = replicate 32 0x42"

definition format1_options :: "memory_store options" where
  "format1_options = zero_options\<lparr>oSecret := tool_secret, oStateless := True, oChallengeCount := 2, oChallengeDifficulty := 1\<rparr>"

definition format2_options :: "rsw_keypair \<Rightarrow> memory_store options" where
  "format2_options keypair = zero_options\<lparr>oSecret := tool_secret, oFormat := 2, oProtocols := [ProtocolSHA256PoW, ProtocolRSW],
     oRSWKeypair := Some keypair, oRSWIterations := 3000, oChallengeCount := 2, oChallengeSize := 8, oChallengeDifficulty := 1\<rparr>"

definition instrumented_options :: "memory_store options" where
  "instrumented_options = zero_options\<lparr>oSecret := tool_secret, oStateless := True, oChallengeCount := 1, oChallengeDifficulty := 1,
     oInstrumentation := Some \<lparr>BlockAutomatedBrowsers = False, ObfuscationLevel = 0, optTTL = 0\<rparr>\<rparr>"

text \<open>All draws come from the one \<open>rand.Reader\<close>, in this order.\<close>

definition emit_vectors ::
  "(int \<Rightarrow> bool) \<Rightarrow> (byte list \<Rightarrow> byte list) \<Rightarrow> (go_error + int \<times> int \<times> int) list \<Rightarrow> byte list \<Rightarrow> int \<Rightarrow> (go_error + string) option" where
  "emit_vectors probablyPrime deflate rsaKeys random now =
     (let builtin = GenerateInstrumentation deflate in
      case GenerateRSWKeypair (Some random) 2048 rsaKeys of
        None \<Rightarrow> None
      | Some (Inl e) \<Rightarrow> Some (Inl (panicked e))
      | Some (Inr keypair) \<Rightarrow>
     (case make_vector probablyPrime builtin format1_options ''login'' random now of
        None \<Rightarrow> None
      | Some (Inl e) \<Rightarrow> Some (Inl e)
      | Some (Inr v1) \<Rightarrow>
     (case make_vector probablyPrime builtin (format2_options keypair) ''signup'' (wRandom (vWorld v1)) now of
        None \<Rightarrow> None
      | Some (Inl e) \<Rightarrow> Some (Inl e)
      | Some (Inr v2) \<Rightarrow>
     (case make_scripts builtin now [(False, 3), (False, 6), (True, 3), (True, 6)] (wRandom (vWorld v2)) of
        (Inl e, rest) \<Rightarrow> Some (Inl e)
      | (Inr scripts, rest) \<Rightarrow>
     (case make_vector probablyPrime builtin instrumented_options ''fb'' rest now of
        None \<Rightarrow> None
      | Some (Inl e) \<Rightarrow> Some (Inl e)
      | Some (Inr v3) \<Rightarrow> Some (print_vectors probablyPrime tool_secret keypair v1 v2 scripts v3))))))"

section \<open>Lemmas: a vector can be redeemed\<close>

text \<open>A fresh instance: what \<open>New\<close> fills in, and what its first challenge leaves.\<close>

interpretation fewer_nonces: store_relation "\<lambda>s s'. nonces s' \<subseteq>\<^sub>m nonces s" UNIV
  by unfold_locales (auto intro: map_le_trans)

lemma challenge_nonces:
  assumes "own_tokens mem_ops c"
  shows "nonces (wStore (snd (Challenge pp g c co w))) \<subseteq>\<^sub>m nonces (wStore w)"
proof -
  have "within UNIV (\<lambda>s s'. nonces s' \<subseteq>\<^sub>m nonces s) (Challenge pp g c co)"
    using assms by (intro fewer_nonces.within_Challenge)
      (auto simp: mem_Cleanup_def mem_PutChallenge_def drop_expired_def map_le_def split: option.splits)
  then show ?thesis by (simp add: within_def)
qed

lemma with_defaults_fields:
  "oStore (with_defaults ms opts) = Some (case oStore opts of None \<Rightarrow> ms | Some s \<Rightarrow> s)"
  "oSignToken (with_defaults ms opts) = oSignToken opts" "oVerifyToken (with_defaults ms opts) = oVerifyToken opts"
  "oChallengeTTL (with_defaults ms opts) = or_default (oChallengeTTL opts) DefaultChallengeTTL"
  "oTokenTTL (with_defaults ms opts) = or_default (oTokenTTL opts) DefaultTokenTTL"
  "oStateless (with_defaults ms opts) = oStateless opts" "oFormat (with_defaults ms opts) = or_default (oFormat opts) 1"
  "oInstrumentation (with_defaults ms opts) = oInstrumentation opts" "oRSWKeypair (with_defaults ms opts) = oRSWKeypair opts"
  by (simp_all add: with_defaults_def default_defs)

lemma New_own:
  assumes "New pp mem_ops opts = Inr c" "oStore opts = None" "oSignToken opts = None" "oVerifyToken opts = None"
  shows "own_tokens mem_ops c"
proof -
  have c: "c = with_defaults mem_ops opts" using assms(1) by (simp only: New_accepts_iff)
  show ?thesis unfolding own_tokens_def c with_defaults_fields by (simp add: assms)
qed

lemma New_lifetimes:
  assumes "New pp mem_ops opts = Inr c" "oChallengeTTL opts = 0" "oTokenTTL opts = 0"
  shows "challengeTTL c (zero_challenge_options\<lparr>coScope := scope\<rparr>) = 600 * 10 ^ 9" "oTokenTTL c = 1200 * 10 ^ 9"
proof -
  have c: "c = with_defaults mem_ops opts" using assms(1) by (simp only: New_accepts_iff)
  show "challengeTTL c (zero_challenge_options\<lparr>coScope := scope\<rparr>) = 600 * 10 ^ 9" "oTokenTTL c = 1200 * 10 ^ 9"
    unfolding challengeTTL_def c with_defaults_fields by (simp_all add: assms or_default_def zero_challenge_options_def const_defs)
qed

lemma New_session:
  assumes "New pp mem_ops opts = Inr c" "oChallengeTTL opts = 0" "oTokenTTL opts = 0"
  shows "session (wClock (fresh_world s random now)) c (zero_challenge_options\<lparr>coScope := scope\<rparr>)"
  unfolding session_def New_lifetimes [OF assms]
  by (rule exI [of _ "unixMilli now"]) (simp add: fresh_world_def milliseconds_def)

text \<open>A vector's challenge has no instrumentation, is signed, and carries its expiry.\<close>

lemma vector_challenge:
  assumes "Challenge pp g c (zero_challenge_options\<lparr>coScope := scope\<rparr>) (fresh_world NewMemoryStore random now) = (Inr ch, w)"
    and "config_ok pp c" "oStateless c \<or> oFormat c = 2" "oInstrumentation c = None"
  shows "oFormat c = chFormat ch" "chFormat ch = 1 \<Longrightarrow> contains_char (chToken ch) (CHR ''.'')"
    and "instrumentationOptions c (zero_challenge_options\<lparr>coScope := scope\<rparr>) = None"
    and "chExpires ch = unixMilli now + milliseconds (challengeTTL c (zero_challenge_options\<lparr>coScope := scope\<rparr>))"
proof -
  let ?co = "zero_challenge_options\<lparr>coScope := scope\<rparr>"
  show i: "instrumentationOptions c ?co = None"
    using assms(4) by (simp add: instrumentationOptions_def zero_challenge_options_def)
  obtain w1 where w1: "lazyCleanup c (fresh_world NewMemoryStore random now) = (Inr (), w1)" "wClock w1 = (\<lambda>_. now)"
    using lazyCleanup_live [of c "fresh_world NewMemoryStore random now"] by (auto simp: fresh_world_def)
  have co: "coFormat ?co = 0" "coStateless ?co = None" by (simp_all add: zero_challenge_options_def)
  have "oFormat c = 1 \<or> oFormat c = 2" using assms(2) by (simp add: config_ok_def)
  then consider "oFormat c = 1" "challengeSigned g c ?co w1 = (Inr ch, w)" | "oFormat c = 2" "challengeV2 pp g c ?co w1 = (Inr ch, w)"
    using assms(1,3) w1(1) co by (auto simp: Challenge_def andThen_runs Let_def)
  then have "oFormat c = chFormat ch \<and> (chFormat ch = 1 \<longrightarrow> contains_char (chToken ch) (CHR ''.''))
      \<and> chExpires ch = unixMilli now + milliseconds (challengeTTL c ?co)"
  proof cases
    case 1
    from challengeSigned_token [OF 1(2) i] obtain n where n: "chToken ch = jwtSign (str_bytes (enc_claims (v1_claims ch ?co n (unixMilli now)))) (oSecret c)"
      "chFormat ch = 1" "chExpires ch = unixMilli now + milliseconds (challengeTTL c ?co)" using w1(2) by auto
    have "contains_char (jwtSign payload (oSecret c)) (CHR ''.'')" for payload
      by (simp add: jwtSign_def contains_char_def)
    then show ?thesis using n 1(1) by simp
  next
    case 2
    from challengeV2_shape [OF 2(2)] 2(1) w1(2) show ?thesis by simp
  qed
  then show "oFormat c = chFormat ch" "chFormat ch = 1 \<Longrightarrow> contains_char (chToken ch) (CHR ''.'')"
    "chExpires ch = unixMilli now + milliseconds (challengeTTL c ?co)" by simp_all
qed

text \<open>The nonces of a solution that fit a double.\<close>

definition small_solutions :: "vector \<Rightarrow> bool" where
  "small_solutions v \<longleftrightarrow>
     (if chFormat (vChallenge v) = 2 then list_all small_nonce (chChallenges (vChallenge v))
      else (case Format1Pairs (vChallenge v) of None \<Rightarrow> True
            | Some pairs \<Rightarrow> list_all (\<lambda>(salt, target). case SolvePoW salt target of None \<Rightarrow> True | Some n \<Rightarrow> n < 2 ^ 53) pairs))"

lemma map_opt_SolvePoW:
  "map_opt (\<lambda>(salt, target). SolvePoW salt target) pairs = Some ns \<Longrightarrow>
    list_all (\<lambda>(salt, target). case SolvePoW salt target of None \<Rightarrow> True | Some n \<Rightarrow> n < m) pairs \<Longrightarrow> list_all (\<lambda>n. n < m) ns"
  by (induction pairs arbitrary: ns) (auto split: option.splits)

lemma vector_redeems:
  assumes "make_vector pp g opts scope random now = Some (Inr v)" "oStore opts = None" "oSignToken opts = None"
    and "oSecret opts \<noteq> []" "oStateless opts \<or> oFormat opts = 2" "oInstrumentation opts = None" "oChallengeTTL opts = 0" "oTokenTTL opts = 0"
    and "\<And>n. pp n \<Longrightarrow> is_prime n" "\<And>k. oRSWKeypair opts = Some k \<Longrightarrow> strong_keypair (oRSWIterations (vOptions v)) k"
    and "0 \<le> unixMilli now" "unixMilli now < 2 ^ 62" "repair scope = scope" "small_solutions v" "23 \<le> length (wRandom (vWorld v))"
  shows "\<exists>k w. Redeem (vOptions v) (plain_request (chToken (vChallenge v)) (vSolutions v)) \<lparr>roScope = scope, roSkipNonce = False\<rparr> (vWorld v) = (Inr k, w)
    \<and> kScope k = scope \<and> validates_once (vOptions v) k w"
proof -
  obtain c ch sols w' where v: "v = \<lparr>vOptions = c, vScope = scope, vChallenge = ch, vSolutions = sols, vWorld = w'\<rparr>"
    and c: "New pp mem_ops opts = Inr c"
    and r: "Challenge pp g c (zero_challenge_options\<lparr>coScope := scope\<rparr>) (fresh_world NewMemoryStore random now) = (Inr ch, w')"
    and s: "SolveChallenge ch = Some (Inr sols)"
    using assms(1) by (auto simp: make_vector_def must_def split: sum.splits prod.splits option.splits)
  let ?co = "zero_challenge_options\<lparr>coScope := scope\<rparr>" and ?w = "fresh_world NewMemoryStore random now"
  have d: "config_ok pp c" "c = with_defaults mem_ops opts" using c by (simp_all add: New_accepts_iff)
  have f: "oSecret c \<noteq> []" "oStateless c \<or> oFormat c = 2" "oInstrumentation c = None" "oRSWKeypair c = oRSWKeypair opts"
    using assms(4-6) unfolding d(2) with_defaults_fields with_defaults_facts by (auto simp: or_default_def)
  have "oVerifyToken opts = None" using d(1) assms(3) unfolding d(2) config_ok_def with_defaults_fields by simp
  then have own: "own_tokens mem_ops c" using New_own [OF c assms(2,3)] by simp
  note ch = vector_challenge [OF r d(1) f(2,3)]
  have session: "session (wClock ?w) c ?co" by (rule New_session [OF c assms(7,8)])
  have signable: "signable (wClock ?w) ?co ch"
    using assms(11-13) New_lifetimes(1) [OF c assms(7,8), of scope] unfolding signable_def ch(4)
    by (simp add: fresh_world_def zero_challenge_options_def extra_ok_def milliseconds_def)
  have "nonces (wStore w') \<subseteq>\<^sub>m Map.empty"
    using challenge_nonces [OF own, of pp g ?co ?w] unfolding r by (simp add: fresh_world_def NewMemoryStore_def)
  then have "nonces (wStore w') = Map.empty" by (metis map_le_antisym map_le_empty)
  then have u: "unclaimed nonces c (chToken ch) (wStore w')" by (simp add: unclaimed_def split: option.split prod.split)
  have e: "23 \<le> length (wRandom w')" using assms(15) v by simp
  have "chFormat ch = 1 \<or> chFormat ch = 2" using d(1) ch(1) by (simp add: config_ok_def)
  then have "\<exists>k w. Redeem c (plain_request (chToken ch) sols) \<lparr>roScope = coScope ?co, roSkipNonce = False\<rparr> w' = (Inr k, w)
      \<and> kScope k = coScope ?co \<and> validates_once c k w"
  proof
    assume one: "chFormat ch = 1"
    obtain pairs ns where ns: "Format1Pairs ch = Some pairs" "map_opt (\<lambda>(salt, target). SolvePoW salt target) pairs = Some ns" "sols = enc_array (map itoa ns)"
      using s one by (auto simp: SolveChallenge_def split: option.splits)
    have small: "list_all (\<lambda>n. n < 2 ^ 53) ns"
      by (rule map_opt_SolvePoW [OF ns(2)]) (use assms(14) v one ns(1) in \<open>simp add: small_solutions_def\<close>)
    show ?thesis
      using mem.signed_flow1 [OF own r f(1) session u e ch(3) signable one ch(2) [OF one] s [unfolded ns(3)] small] ns(3) by simp
  next
    assume two: "chFormat ch = 2"
    have small: "list_all small_nonce (chChallenges ch)" using assms(14) v two by (simp add: small_solutions_def)
    have "keeps minters_ok (Challenge pp g c ?co)"
      by (rule keeps_Challenge [OF cap_minter_keeps [OF assms(9)]]) (use assms(10) v f(4) in simp_all)
    from keepsD [OF this r] have "minters_ok (wMinters w')" by (simp add: fresh_world_def minters_ok_empty)
    then have m: "\<And>m. wMinters w' (oRSWIterations c) = Some m \<Longrightarrow> minter_sound m" by (auto simp: minters_ok_def)
    show ?thesis by (rule mem.signed_flow2 [OF own r f(1) session u e m signable two s small])
  qed
  then show ?thesis using v by (simp add: zero_challenge_options_def)
qed

text \<open>The vectors of the tool are such vectors.\<close>

lemma emitted_vectors:
  assumes "emit_vectors pp deflate rsaKeys random now = Some (Inr text)"
  obtains keypair v1 v2 v3 random3 scripts where "print_vectors pp tool_secret keypair v1 v2 scripts v3 = Inr text"
    "make_vector pp (GenerateInstrumentation deflate) format1_options ''login'' random now = Some (Inr v1)"
    "make_vector pp (GenerateInstrumentation deflate) (format2_options keypair) ''signup'' (wRandom (vWorld v1)) now = Some (Inr v2)"
    "make_vector pp (GenerateInstrumentation deflate) instrumented_options ''fb'' random3 now = Some (Inr v3)"
  using assms unfolding emit_vectors_def Let_def
  by (auto split: option.splits sum.splits prod.splits)

lemma tool_options:
  "oStore format1_options = None" "oSignToken format1_options = None" "oSecret format1_options \<noteq> []" "oStateless format1_options"
  "oInstrumentation format1_options = None" "oChallengeTTL format1_options = 0" "oTokenTTL format1_options = 0" "oRSWKeypair format1_options = None"
  "oStore (format2_options k) = None" "oSignToken (format2_options k) = None" "oSecret (format2_options k) \<noteq> []" "oFormat (format2_options k) = 2"
  "oInstrumentation (format2_options k) = None" "oChallengeTTL (format2_options k) = 0" "oTokenTTL (format2_options k) = 0"
  "oRSWKeypair (format2_options k) = Some k"
  by (simp_all add: format1_options_def format2_options_def tool_secret_def zero_options_def)

lemma emitted_vectors_redeem:
  assumes "make_vector pp g format1_options ''login'' random now = Some (Inr v1)" "make_vector pp g (format2_options k) ''signup'' random2 now = Some (Inr v2)"
    and "\<And>n. pp n \<Longrightarrow> is_prime n" "strong_keypair (oRSWIterations (vOptions v2)) k" "0 \<le> unixMilli now" "unixMilli now < 2 ^ 62"
    and "small_solutions v1" "small_solutions v2" "23 \<le> length (wRandom (vWorld v1))" "23 \<le> length (wRandom (vWorld v2))"
  shows "\<exists>t w. Redeem (vOptions v1) (plain_request (chToken (vChallenge v1)) (vSolutions v1)) \<lparr>roScope = ''login'', roSkipNonce = False\<rparr> (vWorld v1) = (Inr t, w)"
    and "\<exists>t w. Redeem (vOptions v2) (plain_request (chToken (vChallenge v2)) (vSolutions v2)) \<lparr>roScope = ''signup'', roSkipNonce = False\<rparr> (vWorld v2) = (Inr t, w)"
proof -
  have r: "repair ''login'' = ''login''" "repair ''signup'' = ''signup''" by (simp_all add: repair_ascii ascii_def)
  show "\<exists>t w. Redeem (vOptions v1) (plain_request (chToken (vChallenge v1)) (vSolutions v1)) \<lparr>roScope = ''login'', roSkipNonce = False\<rparr> (vWorld v1) = (Inr t, w)"
    using vector_redeems [OF assms(1) tool_options(1-3) disjI1 [OF tool_options(4)] tool_options(5-7) assms(3) _ assms(5,6) r(1) assms(7,9)]
      tool_options(8) by auto
  show "\<exists>t w. Redeem (vOptions v2) (plain_request (chToken (vChallenge v2)) (vSolutions v2)) \<lparr>roScope = ''signup'', roSkipNonce = False\<rparr> (vWorld v2) = (Inr t, w)"
    using vector_redeems [OF assms(2) tool_options(9-11) disjI2 [OF tool_options(12)] tool_options(13-15) assms(3) _ assms(5,6) r(2) assms(8,10)]
      tool_options(16) assms(4) by auto
qed

section \<open>Properties\<close>

text \<open>
  Property C15. From the options to the token: on a fresh instance with a secret, default lifetimes, signed challenges and
  no instrumentation, whatever challenge \<open>New\<close> and \<open>Challenge\<close> make and \<open>SolveChallenge\<close> solves is redeemed
  by that instance with the scope it was made for, and the verification token validates once.
  These are the vectors of both formats that the tool prints for other implementations.
\<close>

theorem made_vector_redeems:
  assumes "make_vector pp g opts scope random now = Some (Inr v)" "oStore opts = None" "oSignToken opts = None"
    and "oSecret opts \<noteq> []" "oStateless opts \<or> oFormat opts = 2" "oInstrumentation opts = None" "oChallengeTTL opts = 0" "oTokenTTL opts = 0"
    and "\<And>n. pp n \<Longrightarrow> is_prime n" "\<And>k. oRSWKeypair opts = Some k \<Longrightarrow> strong_keypair (oRSWIterations (vOptions v)) k"
    and "0 \<le> unixMilli now" "unixMilli now < 2 ^ 62" "repair scope = scope" "small_solutions v" "23 \<le> length (wRandom (vWorld v))"
  shows "\<exists>k w. Redeem (vOptions v) (plain_request (chToken (vChallenge v)) (vSolutions v)) \<lparr>roScope = scope, roSkipNonce = False\<rparr> (vWorld v) = (Inr k, w)
    \<and> kScope k = scope \<and> validates_once (vOptions v) k w"
  by (rule vector_redeems [OF assms])

theorem made_vector_redeems_witness:
  "\<exists>q v k w. make_vector is_prime (\<lambda>r io now. (Inr None, r)) (zero_options\<lparr>oSecret := replicate 16 1, oFormat := 2, oRSWKeypair := Some (seven_key q), oRSWIterations := 1\<rparr>) []
      (replicate (nat ((bitLen (7 * q) + 7) div 8) + 106) 0) 1700000000000000000 = Some (Inr v)
    \<and> Redeem (vOptions v) (plain_request (chToken (vChallenge v)) (vSolutions v)) \<lparr>roScope = [], roSkipNonce = False\<rparr> (vWorld v) = (Inr k, w)
    \<and> validates_once (vOptions v) k w"
proof (rule rsw_session)
  fix q w ch w' solutions
  let ?g = "\<lambda>r io now. (Inr None, r)"
  let ?o = "zero_options\<lparr>oSecret := replicate 16 1, oFormat := 2, oRSWKeypair := Some (seven_key q), oRSWIterations := 1\<rparr> :: memory_store options"
  let ?random = "replicate (nat ((bitLen (7 * q) + 7) div 8) + 106) (0 :: byte)"
  assume s: "is_prime q" "w = fresh_world NewMemoryStore ?random 1700000000000000000"
    "Challenge is_prime ?g (rsw_options q mem_ops) zero_challenge_options w = (Inr ch, w')" "chFormat ch = 2"
    "\<And>k. oRSWKeypair (rsw_options q mem_ops) = Some k \<Longrightarrow> strong_keypair (oRSWIterations (rsw_options q mem_ops)) k"
    "SolveChallenge ch = Some (Inr solutions)" "list_all small_nonce (chChallenges ch)" "46 \<le> length (wRandom w')" "2 ^ 1023 < q"
  let ?v = "\<lparr>vOptions = rsw_options q mem_ops, vScope = [], vChallenge = ch, vSolutions = solutions, vWorld = w'\<rparr>"
  have "config_ok is_prime (rsw_options q mem_ops)"
    using seven_key_valid(2) [OF s(1,9)]
    by (simp add: config_ok_def rsw_options_def with_defaults_def default_defs zero_options_def or_default_def const_defs
        validatePoWParams_None known_protocol_def)
  then have "New is_prime mem_ops ?o = Inr (rsw_options q mem_ops)" by (simp add: New_accepts_iff rsw_options_def)
  moreover have co: "zero_challenge_options\<lparr>coScope := []\<rparr> = zero_challenge_options" by (simp add: zero_challenge_options_def)
  ultimately have v: "make_vector is_prime ?g ?o [] ?random 1700000000000000000 = Some (Inr ?v)"
    using s(3,6) unfolding s(2) by (simp add: make_vector_def must_def)
  have "\<exists>k w. Redeem (vOptions ?v) (plain_request (chToken (vChallenge ?v)) (vSolutions ?v)) \<lparr>roScope = [], roSkipNonce = False\<rparr> (vWorld ?v) = (Inr k, w)
      \<and> kScope k = [] \<and> validates_once (vOptions ?v) k w"
    by (rule made_vector_redeems [OF v]) (use s(4,5,7,8) in \<open>simp_all add: zero_options_def unixMilli_def small_solutions_def rsw_options_facts\<close>)
  with v show ?thesis by blast
qed

end
