(* ===== verification/Spec2Isabelle.thy ===== *)
theory Spec2Isabelle
  imports Signed_Flow Script_Run Replicas Redis Keypair Capjs Server Vectors
begin

text \<open>
  capgo, a Go server for the Cap proof-of-work CAPTCHA: a model of the program and the theorems that
  make it correct.

  The program. A \<open>Cap\<close> (\<open>cap.go\<close>) makes challenges, checks their solutions and issues verification tokens
  that an application validates. A format-1 challenge is a number of SHA-256 puzzles derived from one
  token by the generator of \<open>prng.go\<close>; it is either stored (\<open>store.go\<close>: \<open>MemoryStore\<close>, or
  \<open>capredis/store.go\<close>) or carried in an HS256 token (\<open>crypto.go\<close>). A format-2 challenge is signed and
  lists puzzles of several protocols: proof of work, an RSW time-lock (\<open>rsw.go\<close>) and the
  instrumentation of the browser (\<open>instrumentation.go\<close>, or the subprocess of \<open>capjs/generator.go\<close>); what
  the server expects travels in the token under AES-256-GCM. \<open>caphttp/handler.go\<close> serves both
  operations over HTTP, and \<open>examples/server/main.go\<close> spends the tokens in a login endpoint.

  How it is modelled. A Go struct is a \<open>record\<close> with the code's fields, an \<open>error\<close> a \<open>go_error\<close>, a result
  \<open>(T, error)\<close> a value of \<open>go_error + 'a\<close>, a run-time panic the error \<open>EPanic\<close> that every caller passes on.
  A Go string is a \<open>string\<close> of bytes, a \<open>[]byte\<close> a list of \<open>8 word\<close>, \<open>uint32\<close> and \<open>int32\<close> are 32-bit words
  where they wrap and \<open>int64\<close> times are \<open>int\<close>. An \<open>io.Reader\<close> of entropy is the list of bytes it still gives.
  A method of \<open>Cap\<close> is a function of a \<open>world\<close>: the store, the entropy, the clock (a function of the
  number of readings, so that it may jump), the two mutable fields of \<open>Cap\<close> and the answers of the
  context. Every method of a store is one atomic step, as the mutex, the Lua scripts and Redis make
  it, so a history of store operations is an interleaving of any number of clients. Concurrency has a
  theory of its own (\<open>Replicas\<close>): a trace of store operations, each marked with the client that asked for it,
  and every client a run of the service against its share of the trace.

  Theories, from the bottom.
  \<^item> \<open>Prelude\<close>, \<open>Go_Text\<close>, \<open>Base64\<close>, \<open>Json\<close>, \<open>Float64\<close>, \<open>Sha256\<close>, \<open>Aes_Gcm\<close>: what the code uses of Go's
    standard library, in full and executable (\<open>Sha_Eval\<close> evaluates SHA-256 in the kernel);
    \<open>Num_Theory\<close>: primes, Fermat, modular powers and inverses.
  \<^item> \<open>Errors\<close> (\<open>errors.go\<close>), \<open>Records\<close>, \<open>Crypto\<close> (\<open>crypto.go\<close>), \<open>Prng\<close> (\<open>prng.go\<close>), \<open>Rsw\<close> and \<open>Keypair\<close>
    (\<open>rsw.go\<close>), \<open>Instr\<close> (the verification half of \<open>instrumentation.go\<close>), \<open>Wire\<close> (the JSON documents of
    \<open>cap.go\<close>), \<open>Pow\<close> (solutions and the brute-force client).
  \<^item> \<open>Entropy\<close>, \<open>Script\<close>, \<open>Obfuscate\<close>, \<open>Program\<close>, \<open>Generate\<close> (the generating half of \<open>instrumentation.go\<close>);
    \<open>Js\<close> and \<open>Script_Run\<close>: an executable meaning of the JavaScript text that it writes; \<open>Capjs\<close>
    (\<open>capjs/generator.go\<close>).
  \<^item> \<open>Store\<close> (\<open>store.go\<close>) and \<open>Redis\<close> (\<open>capredis/store.go\<close>).
  \<^item> \<open>Cap\<close>, \<open>Challenge\<close>, \<open>Config\<close>, \<open>Redeem\<close> (\<open>cap.go\<close>): \<open>New\<close>, \<open>Challenge\<close> with its three kinds,
    \<open>Redeem\<close> with its three paths, \<open>Validate\<close>; \<open>Format2\<close>, \<open>Minters\<close>, \<open>Api\<close>, \<open>Example\<close>, \<open>Flow\<close>, \<open>Signed\<close>,
    \<open>Signed_Flow\<close>: their theorems.
  \<^item> \<open>Replicas\<close>: requests served at the same time, by one process or by several on one Redis server.
  \<^item> \<open>Http\<close> (\<open>caphttp/handler.go\<close>) and \<open>Server\<close> (\<open>examples/server/main.go\<close>: the start of the program, the mux
    with its routes and its page, the login endpoint); \<open>Vectors\<close> (\<open>internal/tools/emit_vectors.go\<close>).

  Interfaces. \<open>Store.entry_store\<close> states what a store promises about single use, over two projections of
  its state; \<open>store_contract\<close> adds nonces and the reset of expired entries, \<open>live_store\<close> that what was
  put is found. \<open>mem_ops\<close>, the model of \<open>MemoryStore\<close>, interprets all three (\<open>mem\<close>).
  \<open>Redis.redis_client\<close> states the documented behaviour of the Redis commands, of key expiry, of
  \<open>SCAN\<close> and of \<open>cjson.decode\<close> as laws on an arbitrary server state; the store on top of any such client is
  an \<open>entry_store\<close> (a \<open>sublocale\<close>), and a small server, \<open>sim\<close>, interprets the locale.
  \<open>Api.store_relation\<close> states which relation on stores every method of \<open>Cap\<close> keeps when every store
  operation does; it is interpreted for an unchanged store, for any store, for a shrinking record of
  operations (\<open>Replicas.played\<close>) and, inside the contract, for shrinking entries and held nonces.

  What the theorems show.
  \<^item> Whole service: a stored challenge is redeemed, and a token validated, at most as often as it was
    created, in every history and whatever fails (\<open>Api\<close>); a signed token is redeemed at most once
    before its expiry (\<open>Signed_Flow\<close>), but again and again at the exact millisecond of the expiry; what
    a successful redemption proves; an honest session succeeds in both formats and its token
    validates exactly once, on a fresh instance from the options alone (\<open>Vectors\<close>); every challenge is within the bounds of its options; \<open>New\<close> accepts
    exactly the consistent options; cached minters stay sound.
  \<^item> Concurrency: over all clients of one \<open>MemoryStore\<close>, or of one Redis server, a stored challenge is redeemed
    and a token spent at most as often as it was put, and over those of one process a signed challenge
    at most once before its expiry, however the operations interleave; on Redis operations may also fail,
    entries expire and a \<open>Reset\<close> be half done. A client of these theorems behaves as the service does:
    every history is its own replay against the record of its operations.
  \<^item> Endpoints: every redemption request gets one of three kinds of answer and no other effect; an
    allow-list of scopes holds for every route; both ways of mounting agree; an honest session over
    HTTP succeeds; the demo login admits a token once, and a server that was started with the
    in-memory store never admits a token more often than its redemption endpoint sold it for \<open>login\<close>.
  \<^item> Stores: \<open>MemoryStore\<close> uses entries once and cleans up invisibly; the Redis store refines it while
    the clocks agree and no call fails, uses entries once whatever fails, and its \<open>Reset\<close> ends.
  \<^item> Components: round trips of tokens, envelopes, challenges and key pairs; soundness of decryption;
    one replay key for all spellings of a token; the time-lock puzzle; exactness of the checks of
    solutions and reports; the least solution; the obfuscation of strings; the text of the client
    script, parsed and run as JavaScript, computes the values that the server expects.

  Bounds. \<open>Js.js_depth\<close> bounds the parser by 30 nested calls, which the theorems show to be enough for every
  statement of the script. JSON nests to 10000, as in Go. The search of \<open>SolvePoW\<close> and the scan of
  \<open>Reset\<close> are partial functions; that they return is proved, for the search when a solution exists.

  Arguments of the model. \<open>ProbablyPrime\<close> (assumed to accept only primes where a lemma needs it), the key
  pairs of \<open>rsa.GenerateKey\<close>, \<open>compress/flate\<close>, the Redis server with go-redis, the Node.js subprocess,
  a caller's own generator, signer and verifier.

  Not modelled: \<open>capjs/generate.mjs\<close> and the
  widget (JavaScript outside this program), the listener and the log lines of the
  example server, the error log of the handler, percent escapes and \<open>CONNECT\<close> in the mux, eviction by
  Redis under memory pressure, overflow of \<open>time.Duration\<close>. Of the client script, the helper functions
  are translated into \<open>js_fn\<close> and \<open>js_dom\<close>, and the checks for automated browsers are text only.
\<close>

end
